(* ===== verification/Engine_Prelude.thy ===== *)
theory Engine_Prelude
  imports Complex_Main "HOL-Library.Word" "HOL-Library.Monad_Syntax"
begin

text \<open>
  What the components of the liquidity engine share: names for Rust's machine integers, the
  result of polling a future, Rust's three-way comparison, the standard library's bit
  scanning, and the lemmas on ring indices, list updates and wake logs that the component
  theories use.
  Conventions of the whole development: a Rust \<open>Result\<close> is a sum (\<open>Inl\<close> the error, \<open>Inr\<close> the
  value), an operation that may panic returns an \<open>option\<close> whose \<open>None\<close> is the panic, and
  mutated state is an argument that is returned updated.
\<close>

unbundle bit_operations_syntax

subsection \<open>Collections of facts\<close>

named_theorems ring_arith \<open>arithmetic of ring buffer indices\<close>
named_theorems chan_defs \<open>definitions of the channel operations\<close>
named_theorems stream_defs \<open>definitions of the exchange stream operations\<close>
named_theorems book_defs \<open>definitions of the order book operations\<close>

subsection \<open>Machine integers and results\<close>

type_synonym u8 = "8 word"
type_synonym u16 = "16 word"
type_synonym u32 = "32 word"
type_synonym u64 = "64 word"
type_synonym i32 = "32 word"
type_synonym i64 = "64 word"

text \<open>A byte string: a \<open>char\<close> is 8 bits, so a Rust \<open>String\<close> is the list of its UTF-8 bytes.\<close>

type_synonym bytes = string

text \<open>
  A Rust \<open>f64\<close> by its value: a finite value is a rational (the two zeros are one value here),
  the others are the special values of IEEE 754. \<open>x as i32\<close> truncates towards zero, saturates
  at the bounds of \<open>i32\<close> and maps NaN to 0.
\<close>

datatype f64 = F64_NaN | F64_NegInf | F64_PosInf | F64_Fin rat

definition trunc_rat :: "rat \<Rightarrow> int" where
  "trunc_rat r = (if r < 0 then - \<lfloor>- r\<rfloor> else \<lfloor>r\<rfloor>)"

definition f64_to_i32 :: "f64 \<Rightarrow> i32" where
  "f64_to_i32 x =
     (case x of
        F64_NaN \<Rightarrow> 0
      | F64_NegInf \<Rightarrow> word_of_int (- (2 ^ 31))
      | F64_PosInf \<Rightarrow> word_of_int (2 ^ 31 - 1)
      | F64_Fin r \<Rightarrow> word_of_int (max (- (2 ^ 31)) (min (2 ^ 31 - 1) (trunc_rat r))))"

text \<open>The decimal digits of an integer, as it is displayed.\<close>

fun digits :: "nat \<Rightarrow> string" where
  "digits n = (if n < 10 then [char_of (48 + n)] else digits (n div 10) @ [char_of (48 + n mod 10)])"

text \<open>The value of one poll of a future.\<close>

datatype 'a poll = Ready 'a | Pending

text \<open>How a call that may panic and may never return ends.\<close>

datatype 'a run = Returns 'a | Panics | Runs_On

fun then_run :: "'a run \<Rightarrow> ('a \<Rightarrow> 'b run) \<Rightarrow> 'b run" where
  "then_run (Returns x) f = f x"
| "then_run Panics f = Panics"
| "then_run Runs_On f = Runs_On"

text \<open>\<open>unwrap\<close> and \<open>expect\<close>.\<close>

fun unwrap :: "'e + 'a \<Rightarrow> 'a run" where
  "unwrap (Inr x) = Returns x"
| "unwrap (Inl e) = Panics"

lemma then_run_Returns:
  "then_run r f = Returns y \<longleftrightarrow> (\<exists>x. r = Returns x \<and> f x = Returns y)"
  by (cases r) auto

lemma unwrap_ends [simp]: "unwrap r \<noteq> Runs_On" "Runs_On \<noteq> unwrap r"
  by (cases r; simp)+

lemma unwrap_Returns [simp]: "unwrap r = Returns x \<longleftrightarrow> r = Inr x"
  by (cases r) auto

lemma case_Returns [simp]:
  "(case opt of None \<Rightarrow> Panics | Some x \<Rightarrow> f x) = Returns y \<longleftrightarrow> (\<exists>x. opt = Some x \<and> f x = Returns y)"
  "(case opt of None \<Rightarrow> Runs_On | Some x \<Rightarrow> f x) = Returns y \<longleftrightarrow> (\<exists>x. opt = Some x \<and> f x = Returns y)"
  "(case r of Inl e \<Rightarrow> Panics | Inr u \<Rightarrow> g u) = Returns y \<longleftrightarrow> (\<exists>u. r = Inr u \<and> g u = Returns y)"
  by (auto split: option.split sum.split)

lemma if_Returns [simp]:
  "(if c then Panics else r) = Returns x \<longleftrightarrow> \<not> c \<and> r = Returns x"
  "(if c then Runs_On else r) = Returns x \<longleftrightarrow> \<not> c \<and> r = Returns x"
  by simp_all

text \<open>Rust's \<open>core::cmp::Ordering\<close>, with its declared order \<open>Less < Equal < Greater\<close>.\<close>

datatype ordering = Less | Equal | Greater

fun ordering_rank :: "ordering \<Rightarrow> int" where
  "ordering_rank Less = -1"
| "ordering_rank Equal = 0"
| "ordering_rank Greater = 1"

lemma ordering_rank_inj: "ordering_rank a = ordering_rank b \<longleftrightarrow> a = b"
  by (cases a; cases b) auto

instantiation ordering :: linorder
begin

definition less_eq_ordering :: "ordering \<Rightarrow> ordering \<Rightarrow> bool" where
  "a \<le> b \<longleftrightarrow> ordering_rank a \<le> ordering_rank b"

definition less_ordering :: "ordering \<Rightarrow> ordering \<Rightarrow> bool" where
  "a < b \<longleftrightarrow> ordering_rank a < ordering_rank b"

instance
  by standard (auto simp: less_eq_ordering_def less_ordering_def ordering_rank_inj)

end

text \<open>\<open>u64::trailing_zeros\<close>: the number of zero bits below the lowest set bit, 64 for 0.\<close>

definition trailing_zeros :: "u64 \<Rightarrow> nat" where
  "trailing_zeros w = length (takeWhile (\<lambda>i. \<not> bit w i) [0..<64])"

lemma bit_u64_bound: "bit (w :: u64) i \<Longrightarrow> i < 64"
  using bit_imp_le_length [of w i] by simp

lemma trailing_zeros_lowest:
  assumes "bit w i" and "\<And>j. j < i \<Longrightarrow> \<not> bit w j"
  shows "trailing_zeros w = i"
proof -
  from assms(1) have "i < 64" by (rule bit_u64_bound)
  then have upto: "[0..<64] = [0..<i] @ i # [Suc i..<64]"
    by (metis upt_conv_Cons upt_add_eq_append le_add_diff_inverse less_or_eq_imp_le zero_le)
  have "takeWhile (\<lambda>j. \<not> bit w j) [0..<64] = [0..<i]"
    unfolding upto using assms by (subst takeWhile_append2) auto
  then show ?thesis by (simp add: trailing_zeros_def)
qed

lemma trailing_zeros_bit:
  assumes "w \<noteq> 0"
  shows "bit w (trailing_zeros w)" and "j < trailing_zeros w \<Longrightarrow> \<not> bit w j"
proof -
  from assms obtain k where k: "bit w k" by (auto simp: bit_eq_iff)
  define i where "i = (LEAST k. bit w k)"
  have i: "bit w i" unfolding i_def using k by (rule LeastI)
  have low: "\<not> bit w j" if "j < i" for j
    using that unfolding i_def by (rule not_less_Least)
  have eq: "trailing_zeros w = i"
    using i low by (rule trailing_zeros_lowest)
  show "bit w (trailing_zeros w)" using i eq by simp
  show "\<not> bit w j" if "j < trailing_zeros w" using low that eq by simp
qed

subsection \<open>Ring indices\<close>

lemma ring_index_inj [ring_arith]:
  assumes "i < (n :: nat)" and "j < n"
  shows "(h + i) mod n = (h + j) mod n \<longleftrightarrow> i = j"
proof
  assume eq: "(h + i) mod n = (h + j) mod n"
  then have "int n dvd int (h + i) - int (h + j)"
    by (metis mod_eq_dvd_iff of_nat_mod)
  then have "int n dvd int i - int j" by simp
  then have "int i mod int n = int j mod int n" by (simp add: mod_eq_dvd_iff)
  with assms show "i = j" by simp
qed simp

lemma ring_index_Suc [ring_arith]:
  "((h + Suc 0) mod n + k) mod (n :: nat) = (h + Suc k) mod n"
  by (simp add: mod_add_left_eq)

subsection \<open>Wakers taken from a row of slots\<close>

text \<open>The wakers found in a row of slots, in slot order: what waking every slot wakes.\<close>

definition occupied :: "'a option list \<Rightarrow> 'a list" where
  "occupied ws = List.map_filter (\<lambda>w. w) ws"

lemma set_occupied [simp]: "set (occupied ws) = {w. Some w \<in> set ws}"
  by (auto simp: occupied_def map_filter_def image_iff) force

lemma nth_in_occupied: "i < length ws \<Longrightarrow> ws ! i = Some w \<Longrightarrow> w \<in> set (occupied ws)"
  by (metis set_occupied mem_Collect_eq nth_mem)

subsection \<open>Searching a slice\<close>

text \<open>The index of the first element a predicate accepts: what \<open>iter_mut().find(..)\<close> points at.\<close>

fun position :: "('a \<Rightarrow> bool) \<Rightarrow> 'a list \<Rightarrow> nat option" where
  "position P [] = None"
| "position P (x # xs) = (if P x then Some 0 else map_option Suc (position P xs))"

lemma position_Some:
  "position P xs = Some i \<Longrightarrow> i < List.length xs \<and> P (xs ! i) \<and> (\<forall>j < i. \<not> P (xs ! j))"
  by (induction xs arbitrary: i) (auto simp: less_Suc_eq_0_disj split: if_splits)

lemma position_None: "position P xs = None \<longleftrightarrow> (\<forall>x \<in> set xs. \<not> P x)"
  by (induction xs) auto

subsection \<open>Bounded runs\<close>

lemma run_bounded_by:
  fixes weight :: "'a \<Rightarrow> nat"
  assumes step: "\<And>a b. ok a \<Longrightarrow> r a b \<Longrightarrow> ok b \<and> weight b < weight a"
    and run: "(r ^^ n) a b" and start: "ok a"
  shows "ok b \<and> n + weight b \<le> weight a"
  using run
proof (induction n arbitrary: b)
  case 0
  then show ?case using start by simp
next
  case (Suc n)
  then obtain c where c: "(r ^^ n) a c" "r c b" by auto
  from step [OF _ c(2)] Suc.IH [OF c(1)] show ?case by fastforce
qed

lemma bounded_run_stops:
  assumes "\<And>n b. (r ^^ n) a b \<Longrightarrow> n \<le> bound"
  shows "\<exists>n b. (r ^^ n) a b \<and> (\<nexists>c. r b c)"
proof (rule ccontr)
  assume go: "\<not> ?thesis"
  have "\<exists>b. (r ^^ n) a b" for n
  proof (induction n)
    case (Suc n)
    then obtain b c where "(r ^^ n) a b" "r b c" using go by blast
    then show ?case by (auto intro: relpowp_Suc_I)
  qed simp
  then obtain b where "(r ^^ Suc bound) a b" by blast
  from assms [OF this] show False by simp
qed

end
