(* ===== verification/Channel_Contracts.thy ===== *)
theory Channel_Contracts
  imports Engine_Prelude
begin

text \<open>
  The two contracts a user of the channel relies on, stated once over any provider: a bounded
  first-in first-out queue, and an allocator of a limited number of small ids. Each contract
  comes with what its client gets from it over a whole sequence of operations. The channel
  of \<open>Zc_Channel\<close> is the provider of both.
\<close>

subsection \<open>Sequences of queue operations\<close>

datatype 'a queue_op = Enq 'a | Deq

datatype 'a queue_result = Accepted | Rejected 'a | Delivered 'a | Nothing

fun run_queue ::
  "('q \<Rightarrow> 'a \<Rightarrow> ('a + unit) \<times> 'q) \<Rightarrow> ('q \<Rightarrow> 'a option \<times> 'q) \<Rightarrow> 'q \<Rightarrow> 'a queue_op list \<Rightarrow>
   'a queue_result list \<times> 'q" where
  "run_queue enq deq q [] = ([], q)"
| "run_queue enq deq q (Enq x # ops) =
     (let (r, q') = enq q x; (rs, q'') = run_queue enq deq q' ops
      in ((case r of Inl y \<Rightarrow> Rejected y | Inr _ \<Rightarrow> Accepted) # rs, q''))"
| "run_queue enq deq q (Deq # ops) =
     (let (r, q') = deq q; (rs, q'') = run_queue enq deq q' ops
      in ((case r of Some x \<Rightarrow> Delivered x | None \<Rightarrow> Nothing) # rs, q''))"

text \<open>The abstract queue: a list of at most \<open>n\<close> values.\<close>

fun queue_spec :: "nat \<Rightarrow> 'a list \<Rightarrow> 'a queue_op list \<Rightarrow> 'a queue_result list \<times> 'a list" where
  "queue_spec n xs [] = ([], xs)"
| "queue_spec n xs (Enq x # ops) =
     (if List.length xs < n
      then (let (rs, ys) = queue_spec n (xs @ [x]) ops in (Accepted # rs, ys))
      else (let (rs, ys) = queue_spec n xs ops in (Rejected x # rs, ys)))"
| "queue_spec n [] (Deq # ops) = (let (rs, ys) = queue_spec n [] ops in (Nothing # rs, ys))"
| "queue_spec n (x # xs) (Deq # ops) =
     (let (rs, ys) = queue_spec n xs ops in (Delivered x # rs, ys))"

fun accepted :: "'a queue_op list \<Rightarrow> 'a queue_result list \<Rightarrow> 'a list" where
  "accepted (Enq x # ops) (Accepted # rs) = x # accepted ops rs"
| "accepted (op # ops) (r # rs) = accepted ops rs"
| "accepted ops rs = []"

fun delivered :: "'a queue_result list \<Rightarrow> 'a list" where
  "delivered (Delivered x # rs) = x # delivered rs"
| "delivered (r # rs) = delivered rs"
| "delivered [] = []"

lemma queue_spec_conserves:
  "queue_spec n xs ops = (rs, ys) \<Longrightarrow> xs @ accepted ops rs = delivered rs @ ys"
proof (induction n xs ops arbitrary: rs ys rule: queue_spec.induct)
  case (2 n xs x ops)
  then show ?case by (fastforce split: if_splits prod.splits simp: Let_def)
qed (auto split: prod.splits)

lemma queue_spec_bounded:
  "List.length xs \<le> n \<Longrightarrow> queue_spec n xs ops = (rs, ys) \<Longrightarrow> List.length ys \<le> n"
  by (induction n xs ops arbitrary: rs ys rule: queue_spec.induct)
     (auto split: if_splits prod.splits)

subsection \<open>The bounded queue contract\<close>

locale bounded_fifo =
  fixes cap :: "'q \<Rightarrow> nat"
    and enq :: "'q \<Rightarrow> 'a \<Rightarrow> ('a + unit) \<times> 'q"
    and deq :: "'q \<Rightarrow> 'a option \<times> 'q"
    and items :: "'q \<Rightarrow> 'a list"
    and ok :: "'q \<Rightarrow> bool"
  assumes bound: "ok q \<Longrightarrow> List.length (items q) \<le> cap q"
    and enq_room: "ok q \<Longrightarrow> List.length (items q) < cap q \<Longrightarrow>
      \<exists>q'. enq q x = (Inr (), q') \<and> items q' = items q @ [x] \<and> ok q' \<and> cap q' = cap q"
    and enq_full: "ok q \<Longrightarrow> List.length (items q) = cap q \<Longrightarrow> enq q x = (Inl x, q)"
    and deq_empty: "ok q \<Longrightarrow> items q = [] \<Longrightarrow> deq q = (None, q)"
    and deq_cons: "ok q \<Longrightarrow> items q = x # xs \<Longrightarrow>
      \<exists>q'. deq q = (Some x, q') \<and> items q' = xs \<and> ok q' \<and> cap q' = cap q"
begin

lemma run_refines:
  assumes "ok q" and "run_queue enq deq q ops = (rs, q')"
  shows "queue_spec (cap q) (items q) ops = (rs, items q') \<and> ok q' \<and> cap q' = cap q"
  using assms
proof (induction ops arbitrary: q rs)
  case Nil
  then show ?case by auto
next
  case (Cons op ops)
  show ?case
  proof (cases op)
    case (Enq x)
    show ?thesis
    proof (cases "List.length (items q) < cap q")
      case True
      with Cons.prems(1) obtain q1 where q1: "enq q x = (Inr (), q1)"
        "items q1 = items q @ [x]" "ok q1" "cap q1 = cap q" using enq_room by blast
      with Cons.prems Enq obtain rs' where "run_queue enq deq q1 ops = (rs', q')"
        "rs = Accepted # rs'" by (auto split: prod.splits)
      with Cons.IH [OF q1(3)] q1 Enq True show ?thesis by auto
    next
      case False
      with Cons.prems(1) have full: "enq q x = (Inl x, q)"
        using enq_full bound by (metis le_neq_implies_less)
      with Cons.prems Enq obtain rs' where "run_queue enq deq q ops = (rs', q')"
        "rs = Rejected x # rs'" by (auto split: prod.splits)
      with Cons.IH [OF Cons.prems(1)] Enq False show ?thesis by auto
    qed
  next
    case Deq
    show ?thesis
    proof (cases "items q")
      case Nil
      with Cons.prems(1) have "deq q = (None, q)" by (rule deq_empty)
      with Cons.prems Deq obtain rs' where "run_queue enq deq q ops = (rs', q')"
        "rs = Nothing # rs'" by (auto split: prod.splits)
      with Cons.IH [OF Cons.prems(1)] Deq Nil show ?thesis by auto
    next
      case item: (Cons x xs)
      with Cons.prems(1) obtain q1 where q1: "deq q = (Some x, q1)" "items q1 = xs" "ok q1"
        "cap q1 = cap q" using deq_cons by blast
      with Cons.prems Deq obtain rs' where "run_queue enq deq q1 ops = (rs', q')"
        "rs = Delivered x # rs'" by (auto split: prod.splits)
      with Cons.IH [OF q1(3)] q1 Deq item show ?thesis by auto
    qed
  qed
qed

text \<open>Nothing is lost, duplicated or reordered between what was accepted and delivered.\<close>

lemma run_conserves:
  assumes "ok q" and "run_queue enq deq q ops = (rs, q')"
  shows "items q @ accepted ops rs = delivered rs @ items q'"
  using run_refines [OF assms] queue_spec_conserves by blast

end

subsection \<open>The id allocator contract\<close>

locale id_allocator =
  fixes limit :: "'s \<Rightarrow> nat"
    and alloc :: "'s \<Rightarrow> (nat \<times> 's) option"
    and release :: "'s \<Rightarrow> nat \<Rightarrow> 's"
    and live :: "'s \<Rightarrow> nat set"
    and ok :: "'s \<Rightarrow> bool"
  assumes live_bound: "ok s \<Longrightarrow> live s \<subseteq> {..<limit s}"
    and alloc_fresh: "ok s \<Longrightarrow> alloc s = Some (i, s') \<Longrightarrow>
      i \<notin> live s \<and> live s' = insert i (live s) \<and> limit s' = limit s \<and> ok s'"
    and alloc_full: "ok s \<Longrightarrow> alloc s = None \<longleftrightarrow> live s = {..<limit s}"
    and release_live: "ok s \<Longrightarrow> live (release s i) = live s - {i} \<and>
      limit (release s i) = limit s \<and> ok (release s i)"
begin

lemma card_live: "ok s \<Longrightarrow> card (live s) \<le> limit s"
  using live_bound [of s] by (metis card_lessThan card_mono finite_lessThan)

lemma alloc_iff_room: "ok s \<Longrightarrow> alloc s \<noteq> None \<longleftrightarrow> card (live s) < limit s"
proof -
  assume ok: "ok s"
  have full: "live s = {..<limit s}" if "card (live s) = limit s"
    using card_subset_eq [of "{..<limit s}" "live s"] live_bound [OF ok] that by simp
  show ?thesis
  proof (cases "alloc s")
    case None
    with ok have "live s = {..<limit s}" by (simp add: alloc_full)
    then have "card (live s) = limit s" by (metis card_lessThan)
    with None show ?thesis by simp
  next
    case (Some r)
    then have "live s \<noteq> {..<limit s}" using alloc_full [OF ok] by simp
    with full have "card (live s) \<noteq> limit s" by blast
    with Some card_live [OF ok] show ?thesis by simp
  qed
qed

text \<open>A full allocator serves again after one release.\<close>

lemma alloc_after_release:
  assumes ok: "ok s" and "i \<in> live s"
  shows "alloc (release s i) \<noteq> None"
proof -
  have "i < limit s" using assms live_bound by auto
  moreover have "i \<notin> live (release s i)" using release_live [OF ok, of i] by simp
  ultimately have "live (release s i) \<noteq> {..<limit (release s i)}"
    using release_live [OF ok, of i] by auto
  then show ?thesis using alloc_full [of "release s i"] release_live [OF ok, of i] by simp
qed

end

end
