(* ===== verification/Zc_Channel.thy ===== *)
theory Zc_Channel
  imports Channel_Contracts
begin

text \<open>
  The bounded multi-producer channel of \<open>zc-async-channel/src/channel.rs\<close>: the ring of slots,
  the waker cells and the sender ids. This theory holds the \<open>Channel\<close> struct and its own
  methods (\<open>new\<close>, \<open>split\<close>, \<open>alloc_tx\<close>, \<open>push\<close>, \<open>pop\<close>, \<open>wake_tx\<close>), the drop of the two
  handles, and the contracts they satisfy: the ring is a bounded FIFO queue, the id mask is
  an allocator of at most \<open>S\<close> ids.
  The const parameters \<open>N\<close> and \<open>S\<close> are the lengths of the two arrays. Head and length stay
  below the length of an array that exists, so \<open>head + len\<close> cannot overflow a \<open>usize\<close>
  and both are \<open>nat\<close>; the id mask keeps its 64 bits.
  A waker is named by the task it wakes. \<open>wake_log\<close> is not a field of the struct: it
  records, in order, the tasks whose wakers were invoked, the only effect of \<open>Waker::wake\<close>.
\<close>

subsection \<open>The state\<close>

type_synonym task = nat

record 't channel =
  slots :: "'t option list"
  head :: nat
  len :: nat
  rx_waker :: "task option"
  tx_wakers :: "task option list"
  tx_ids :: u64
  rx_alive :: bool
  wake_log :: "task list"

abbreviation ring_size :: "'t channel \<Rightarrow> nat" where
  "ring_size ch \<equiv> List.length (slots ch)"

abbreviation sender_limit :: "'t channel \<Rightarrow> nat" where
  "sender_limit ch \<equiv> List.length (tx_wakers ch)"

text \<open>\<open>Channel::new\<close>: the two \<open>const\<close> assertions reject a bad capacity or sender limit.\<close>

definition channel_new :: "nat \<Rightarrow> nat \<Rightarrow> 't channel option" where
  "channel_new N S =
     (if 0 < N \<and> 0 < S \<and> S \<le> 64 then
        Some \<lparr>slots = replicate N None, head = 0, len = 0, rx_waker = None,
              tx_wakers = replicate S None, tx_ids = 0, rx_alive = False, wake_log = []\<rparr>
      else None)"

subsection \<open>Waker cells\<close>

text \<open>
  \<open>register\<close> keeps a waker that would wake the same task and otherwise stores the current one;
  \<open>wake\<close> empties the cell and invokes what it held.
\<close>

definition register :: "task option \<Rightarrow> task \<Rightarrow> task option" where
  "register slot cx = (case slot of Some w \<Rightarrow> if w = cx then Some w else Some cx | None \<Rightarrow> Some cx)"

definition wake :: "task option \<Rightarrow> task option \<times> task list" where
  "wake slot = (case slot of Some w \<Rightarrow> (None, [w]) | None \<Rightarrow> (None, []))"

definition wake_rx :: "'t channel \<Rightarrow> 't channel" where
  "wake_rx ch =
     (let (slot, woken) = wake (rx_waker ch)
      in ch\<lparr>rx_waker := slot, wake_log := wake_log ch @ woken\<rparr>)"

definition wake_tx :: "'t channel \<Rightarrow> 't channel" where
  "wake_tx ch =
     (let rs = map wake (tx_wakers ch)
      in ch\<lparr>tx_wakers := map fst rs, wake_log := wake_log ch @ concat (map snd rs)\<rparr>)"

subsection \<open>Sender ids\<close>

definition tx_alive :: "'t channel \<Rightarrow> bool" where
  "tx_alive ch \<longleftrightarrow> tx_ids ch \<noteq> 0"

definition all_ids :: "nat \<Rightarrow> u64" where
  "all_ids S = (if S = 64 then - 1 else push_bit S 1 - 1)"

definition alloc_tx :: "'t channel \<Rightarrow> (nat \<times> 't channel) option" where
  "alloc_tx ch =
     (let free = NOT (tx_ids ch) AND all_ids (sender_limit ch)
      in if free = 0 then None
         else (let i = trailing_zeros free
               in Some (i, ch\<lparr>tx_ids := tx_ids ch OR push_bit i 1\<rparr>)))"

text \<open>\<open>split\<close> hands out the first sender (its id) and the receiver; \<open>None\<close> is \<open>unwrap\<close>'s panic.\<close>

definition split :: "'t channel \<Rightarrow> (nat \<times> 't channel) option" where
  "split ch = alloc_tx (ch\<lparr>rx_alive := True, tx_ids := 0\<rparr>)"

subsection \<open>The ring\<close>

definition push :: "'t channel \<Rightarrow> 't \<Rightarrow> ('t + unit) \<times> 't channel" where
  "push ch v =
     (let n = len ch
      in if n = ring_size ch then (Inl v, ch)
         else (Inr (),
               wake_rx (ch\<lparr>slots := (slots ch)[(head ch + n) mod ring_size ch := Some v],
                           len := n + 1\<rparr>)))"

definition pop :: "'t channel \<Rightarrow> 't option \<times> 't channel" where
  "pop ch =
     (let n = len ch
      in if n = 0 then (None, ch)
         else (let h = head ch; v = slots ch ! h
               in (v, wake_tx (ch\<lparr>slots := (slots ch)[h := None],
                                  head := (h + 1) mod ring_size ch,
                                  len := n - 1\<rparr>))))"

subsection \<open>Dropping the handles\<close>

definition drop_sender :: "'t channel \<Rightarrow> nat \<Rightarrow> 't channel" where
  "drop_sender ch i =
     (let ch' = ch\<lparr>tx_wakers := (tx_wakers ch)[i := None],
                   tx_ids := tx_ids ch AND NOT (push_bit i 1)\<rparr>
      in if tx_alive ch' then ch' else wake_rx ch')"

definition drop_receiver :: "'t channel \<Rightarrow> 't channel" where
  "drop_receiver ch = wake_tx (ch\<lparr>rx_alive := False\<rparr>)"

lemmas chan_op_defs [chan_defs] =
  channel_new_def register_def wake_def wake_rx_def wake_tx_def tx_alive_def all_ids_def
  alloc_tx_def split_def push_def pop_def drop_sender_def drop_receiver_def

subsection \<open>Frames of the waking operations\<close>

lemma wake_rx_simps [simp]:
  "slots (wake_rx ch) = slots ch" "head (wake_rx ch) = head ch" "len (wake_rx ch) = len ch"
  "rx_waker (wake_rx ch) = None" "tx_wakers (wake_rx ch) = tx_wakers ch"
  "tx_ids (wake_rx ch) = tx_ids ch" "rx_alive (wake_rx ch) = rx_alive ch"
  "wake_log (wake_rx ch) = wake_log ch @ (case rx_waker ch of Some w \<Rightarrow> [w] | None \<Rightarrow> [])"
  by (auto simp: wake_rx_def wake_def split: option.splits)

lemma concat_wake: "concat (map snd (map wake ws)) = occupied ws"
  by (induction ws) (auto simp: wake_def occupied_def map_filter_def split: option.splits)

lemma fst_wake: "map fst (map wake ws) = replicate (List.length ws) None"
  by (induction ws) (auto simp: wake_def split: option.splits)

lemma wake_tx_simps [simp]:
  "slots (wake_tx ch) = slots ch" "head (wake_tx ch) = head ch" "len (wake_tx ch) = len ch"
  "rx_waker (wake_tx ch) = rx_waker ch"
  "tx_wakers (wake_tx ch) = replicate (sender_limit ch) None"
  "tx_ids (wake_tx ch) = tx_ids ch" "rx_alive (wake_tx ch) = rx_alive ch"
  "wake_log (wake_tx ch) = wake_log ch @ occupied (tx_wakers ch)"
  unfolding wake_tx_def Let_def by (simp_all only: fst_wake concat_wake) simp_all

lemma register_Some [simp]: "register slot cx = Some cx"
  by (simp add: register_def split: option.splits)

subsection \<open>The ring as a queue\<close>

text \<open>
  The slots \<open>head, head + 1, \<dots>\<close> (modulo the capacity) hold the \<open>len\<close> buffered values in the
  order they were pushed; every other slot is empty.
\<close>

definition ring_ok :: "'t channel \<Rightarrow> bool" where
  "ring_ok ch \<longleftrightarrow>
     0 < ring_size ch \<and> head ch < ring_size ch \<and> len ch \<le> ring_size ch \<and>
     (\<forall>k < ring_size ch. (slots ch ! ((head ch + k) mod ring_size ch) \<noteq> None) = (k < len ch))"

definition contents :: "'t channel \<Rightarrow> 't list" where
  "contents ch = map (\<lambda>k. the (slots ch ! ((head ch + k) mod ring_size ch))) [0..<len ch]"

lemma length_contents [simp]: "List.length (contents ch) = len ch"
  by (simp add: contents_def)

lemma contents_Nil [simp]: "contents ch = [] \<longleftrightarrow> len ch = 0"
  by (simp add: contents_def)

lemma contents_wake [simp]:
  "contents (wake_rx ch) = contents ch" "contents (wake_tx ch) = contents ch"
  by (simp_all add: contents_def)

lemma ring_ok_wake [simp]:
  "ring_ok (wake_rx ch) = ring_ok ch" "ring_ok (wake_tx ch) = ring_ok ch"
  by (simp_all add: ring_ok_def)

lemma contents_frame:
  assumes "slots ch' = slots ch" and "head ch' = head ch" and "len ch' = len ch"
  shows "contents ch' = contents ch" and "ring_ok ch' = ring_ok ch"
  using assms by (simp_all add: contents_def ring_ok_def)

text \<open>Writing the slot behind the last value appends to the queue.\<close>

lemma store_tail:
  fixes v :: 't
  assumes ok: "ring_ok ch" and room: "len ch < ring_size ch"
  defines "ch' \<equiv> ch\<lparr>slots := (slots ch)[(head ch + len ch) mod ring_size ch := Some v],
                    len := len ch + 1\<rparr>"
  shows "contents ch' = contents ch @ [v]" and "ring_ok ch'"
proof -
  let ?N = "ring_size ch" and ?t = "(head ch + len ch) mod ring_size ch"
  have N: "0 < ?N" using ok by (simp add: ring_ok_def)
  have slot: "slots ch' ! ((head ch + k) mod ?N) =
      (if k = len ch then Some v else slots ch ! ((head ch + k) mod ?N))" if "k < ?N" for k
    using that room N by (simp add: ch'_def nth_list_update ring_arith)
  have size: "ring_size ch' = ?N" "head ch' = head ch" "len ch' = Suc (len ch)"
    by (simp_all add: ch'_def)
  have below: "map (\<lambda>k. the (slots ch' ! ((head ch + k) mod ?N))) [0..<len ch] = contents ch"
    using room by (auto simp: contents_def slot)
  show "contents ch' = contents ch @ [v]"
    unfolding contents_def [of ch'] size using below room by (simp add: slot)
  show "ring_ok ch'"
    using ok room by (auto simp: ring_ok_def size slot less_Suc_eq)
qed

text \<open>Clearing the head slot and moving the head removes the oldest value.\<close>

lemma clear_head:
  assumes ok: "ring_ok ch" and some: "len ch \<noteq> 0"
  defines "ch' \<equiv> ch\<lparr>slots := (slots ch)[head ch := None],
                    head := (head ch + 1) mod ring_size ch, len := len ch - 1\<rparr>"
  shows "contents ch = the (slots ch ! head ch) # contents ch'" and "ring_ok ch'"
    and "slots ch ! head ch \<noteq> None"
proof -
  let ?N = "ring_size ch"
  have N: "0 < ?N" and h: "head ch < ?N" and l: "len ch \<le> ?N"
    using ok by (simp_all add: ring_ok_def)
  have ix: "(head ch' + k) mod ?N = (head ch + Suc k) mod ?N" for k
    by (simp add: ch'_def ring_arith del: add_Suc_right)
  have h0: "head ch = (head ch + 0) mod ?N" using h by simp
  have slot: "slots ch' ! ((head ch' + k) mod ?N) =
      (if Suc k < ?N then slots ch ! ((head ch + Suc k) mod ?N) else None)" if "k < ?N" for k
  proof (cases "Suc k < ?N")
    case True
    then have "(head ch + Suc k) mod ?N \<noteq> head ch"
      using h0 N ring_index_inj [of "Suc k" ?N 0 "head ch"] by simp
    with True show ?thesis unfolding ix by (simp add: ch'_def)
  next
    case False
    with that have "Suc k = ?N" by simp
    with h show ?thesis unfolding ix by (simp add: ch'_def)
  qed
  have size: "ring_size ch' = ?N" "len ch' = len ch - 1" by (simp_all add: ch'_def)
  show "slots ch ! head ch \<noteq> None"
    using ok some N h0 by (auto simp: ring_ok_def)
  have "contents ch' = map (\<lambda>k. the (slots ch ! ((head ch + Suc k) mod ?N))) [0..<len ch - 1]"
    unfolding contents_def size using l by (intro map_cong) (auto simp: slot)
  moreover have "[0..<len ch] = 0 # map Suc [0..<len ch - 1]"
    using some by (metis Suc_pred' gr0I map_Suc_upt upt_conv_Cons)
  ultimately show "contents ch = the (slots ch ! head ch) # contents ch'"
    unfolding contents_def [of ch] using h by (simp add: comp_def)
  have "head ch' < ?N" using N by (simp add: ch'_def)
  then show "ring_ok ch'"
    using ok some l N unfolding ring_ok_def size by (auto simp: slot)
qed

text \<open>A new ring is empty and well formed.\<close>

lemma channel_new_ok: "channel_new N S = Some ch \<Longrightarrow> ring_ok ch \<and> contents ch = []"
  by (auto simp: channel_new_def ring_ok_def contents_def split: if_splits)

subsection \<open>The ring provides the queue contract\<close>

lemma push_room:
  assumes "ring_ok ch" and "len ch < ring_size ch"
  shows "\<exists>ch'. push ch v = (Inr (), ch') \<and> contents ch' = contents ch @ [v] \<and> ring_ok ch' \<and>
    ring_size ch' = ring_size ch"
  using assms store_tail [OF assms, of v] by (auto simp: push_def Let_def)

lemma push_full: "len ch = ring_size ch \<Longrightarrow> push ch v = (Inl v, ch)"
  by (simp add: push_def)

lemma pop_empty: "len ch = 0 \<Longrightarrow> pop ch = (None, ch)"
  by (simp add: pop_def)

lemma pop_some:
  assumes "ring_ok ch" and "contents ch = x # xs"
  shows "\<exists>ch'. pop ch = (Some x, ch') \<and> contents ch' = xs \<and> ring_ok ch' \<and>
    ring_size ch' = ring_size ch"
proof -
  have n: "len ch \<noteq> 0" using assms(2) by (metis contents_Nil list.distinct(1))
  show ?thesis
    using clear_head [OF assms(1) n] assms(2) n by (auto simp: pop_def Let_def)
qed

interpretation fifo: bounded_fifo ring_size push pop contents ring_ok
proof unfold_locales
  fix q :: "'a channel" and x xs
  assume ok: "ring_ok q"
  show "List.length (contents q) \<le> ring_size q" using ok by (simp add: ring_ok_def)
  show "\<exists>q'. push q x = (Inr (), q') \<and> contents q' = contents q @ [x] \<and> ring_ok q' \<and>
      ring_size q' = ring_size q" if "List.length (contents q) < ring_size q"
    using push_room [OF ok] that by simp
  show "push q x = (Inl x, q)" if "List.length (contents q) = ring_size q"
    using push_full that by simp
  show "pop q = (None, q)" if "contents q = []" using pop_empty that by simp
  show "\<exists>q'. pop q = (Some x, q') \<and> contents q' = xs \<and> ring_ok q' \<and> ring_size q' = ring_size q"
    if "contents q = x # xs" using pop_some [OF ok that] .
qed

subsection \<open>The id mask provides the allocator contract\<close>

definition live_ids :: "'t channel \<Rightarrow> nat set" where
  "live_ids ch = {i. bit (tx_ids ch) i}"

definition ids_ok :: "'t channel \<Rightarrow> bool" where
  "ids_ok ch \<longleftrightarrow> 0 < sender_limit ch \<and> sender_limit ch \<le> 64 \<and> live_ids ch \<subseteq> {..<sender_limit ch}"

lemma bit_all_ids: "S \<le> 64 \<Longrightarrow> bit (all_ids S) i \<longleftrightarrow> i < S"
proof -
  assume S: "S \<le> 64"
  have "push_bit S 1 - 1 = (mask S :: u64)"
    by (simp add: mask_eq_exp_minus_1 push_bit_eq_mult)
  with S show ?thesis
    by (auto simp: all_ids_def bit_simps dest: bit_u64_bound)
qed

lemma bit_free_ids:
  "ids_ok ch \<Longrightarrow> bit (NOT (tx_ids ch) AND all_ids (sender_limit ch)) i \<longleftrightarrow>
     i < sender_limit ch \<and> i \<notin> live_ids ch"
  by (auto simp: ids_ok_def live_ids_def bit_simps bit_all_ids)

lemma live_insert: "i < 64 \<Longrightarrow> live_ids (ch\<lparr>tx_ids := tx_ids ch OR push_bit i 1\<rparr>) = insert i (live_ids ch)"
  by (auto simp: live_ids_def bit_simps)

lemma live_remove: "live_ids (ch\<lparr>tx_ids := tx_ids ch AND NOT (push_bit i 1)\<rparr>) = live_ids ch - {i}"
  by (auto simp: live_ids_def bit_simps dest: bit_u64_bound)

lemma tx_alive_iff: "tx_alive ch \<longleftrightarrow> live_ids ch \<noteq> {}"
  by (auto simp: tx_alive_def live_ids_def bit_eq_iff dest: bit_u64_bound)

lemma live_ids_frame [simp]: "live_ids (ch\<lparr>tx_wakers := ws\<rparr>) = live_ids ch"
  "live_ids (wake_rx ch) = live_ids ch" "live_ids (wake_tx ch) = live_ids ch"
  by (simp_all add: live_ids_def)

lemma alloc_tx_Some:
  assumes ok: "ids_ok ch" and al: "alloc_tx ch = Some (i, ch')"
  shows "i < sender_limit ch" and "i \<notin> live_ids ch" and "ch' = ch\<lparr>tx_ids := tx_ids ch OR push_bit i 1\<rparr>"
    and "live_ids ch' = insert i (live_ids ch)" and "\<And>j. j < i \<Longrightarrow> j \<in> live_ids ch"
proof -
  let ?free = "NOT (tx_ids ch) AND all_ids (sender_limit ch)"
  have nz: "?free \<noteq> 0" and i: "i = trailing_zeros ?free"
    and ch': "ch' = ch\<lparr>tx_ids := tx_ids ch OR push_bit i 1\<rparr>"
    using al by (auto simp: alloc_tx_def Let_def split: if_splits)
  have "bit ?free i" using trailing_zeros_bit(1) [OF nz] i by simp
  then show lim: "i < sender_limit ch" and "i \<notin> live_ids ch"
    using bit_free_ids [OF ok] by blast+
  show "ch' = ch\<lparr>tx_ids := tx_ids ch OR push_bit i 1\<rparr>" by (rule ch')
  have "i < 64" using lim ok by (simp add: ids_ok_def)
  then show "live_ids ch' = insert i (live_ids ch)" unfolding ch' by (rule live_insert)
  show "j \<in> live_ids ch" if "j < i" for j
    using trailing_zeros_bit(2) [OF nz, of j] that i lim bit_free_ids [OF ok, of j] by auto
qed

lemma alloc_tx_None:
  assumes ok: "ids_ok ch"
  shows "alloc_tx ch = None \<longleftrightarrow> live_ids ch = {..<sender_limit ch}"
proof -
  have "alloc_tx ch = None \<longleftrightarrow> (\<forall>i. \<not> bit (NOT (tx_ids ch) AND all_ids (sender_limit ch)) i)"
    by (auto simp: alloc_tx_def Let_def bit_eq_iff dest: bit_u64_bound)
  also have "\<dots> \<longleftrightarrow> (\<forall>i. i < sender_limit ch \<longrightarrow> i \<in> live_ids ch)"
    by (simp only: bit_free_ids [OF ok] not_not de_Morgan_conj) blast
  also have "\<dots> \<longleftrightarrow> live_ids ch = {..<sender_limit ch}"
    using ok by (auto simp: ids_ok_def)
  finally show ?thesis .
qed

lemma drop_sender_ids:
  "live_ids (drop_sender ch i) = live_ids ch - {i}" "sender_limit (drop_sender ch i) = sender_limit ch"
proof -
  show "live_ids (drop_sender ch i) = live_ids ch - {i}"
    using live_remove [of "ch\<lparr>tx_wakers := (tx_wakers ch)[i := None]\<rparr>" i]
    by (simp add: drop_sender_def Let_def)
qed (simp add: drop_sender_def Let_def)

interpretation ids: id_allocator sender_limit alloc_tx drop_sender live_ids ids_ok
proof unfold_locales
  fix s s' :: "'a channel" and i
  assume ok: "ids_ok s"
  show "live_ids s \<subseteq> {..<sender_limit s}" using ok by (simp add: ids_ok_def)
  show "alloc_tx s = None \<longleftrightarrow> live_ids s = {..<sender_limit s}" by (rule alloc_tx_None [OF ok])
  show "live_ids (drop_sender s i) = live_ids s - {i} \<and>
      sender_limit (drop_sender s i) = sender_limit s \<and> ids_ok (drop_sender s i)"
    using ok by (auto simp: ids_ok_def drop_sender_ids)
  show "i \<notin> live_ids s \<and> live_ids s' = insert i (live_ids s) \<and>
      sender_limit s' = sender_limit s \<and> ids_ok s'" if "alloc_tx s = Some (i, s')"
    using alloc_tx_Some [OF ok that] ok by (auto simp: ids_ok_def)
qed

end
