(* ===== verification/Zc_Channel_Async.thy ===== *)
theory Zc_Channel_Async
  imports Zc_Channel
begin

text \<open>
  The two handles of \<open>zc-async-channel/src/channel.rs\<close> and their futures: \<open>Sender::send\<close>,
  \<open>try_send\<close>, \<open>try_clone\<close>, \<open>clone\<close>, \<open>Receiver::recv\<close>, \<open>try_recv\<close>, and the drops. Then a
  step relation over a channel in use: every handle operation of the code may happen at any
  time, in any order, with futures polled, parked, re-polled and cancelled, as the tasks of
  an executor do. Its invariant says that no value is lost, duplicated or reordered and that
  no wakeup is lost.
\<close>

subsection \<open>Sender operations\<close>

text \<open>
  One poll of the future of \<open>send\<close> on sender \<open>i\<close>, by task \<open>cx\<close>. \<open>v\<close> is the value the
  future still owns; the result carries what it owns after the poll. The outer \<open>None\<close> is the
  panic of \<open>unwrap\<close> on a future that is polled after it completed.
\<close>

definition send_poll ::
  "'t channel \<Rightarrow> nat \<Rightarrow> task \<Rightarrow> 't option \<Rightarrow> (('t + unit) poll \<times> 't option \<times> 't channel) option" where
  "send_poll ch i cx v =
     (case v of
        None \<Rightarrow> None
      | Some val \<Rightarrow>
          Some (if \<not> rx_alive ch then (Ready (Inl val), None, ch)
                else (case push ch val of
                        (Inr _, ch') \<Rightarrow> (Ready (Inr ()), None, ch')
                      | (Inl val', ch') \<Rightarrow>
                          (Pending, Some val',
                           ch'\<lparr>tx_wakers := (tx_wakers ch')[i := register (tx_wakers ch' ! i) cx]\<rparr>))))"

definition try_send :: "'t channel \<Rightarrow> 't \<Rightarrow> ('t + unit) \<times> 't channel" where
  "try_send ch v = (if \<not> rx_alive ch then (Inl v, ch) else push ch v)"

text \<open>\<open>try_clone\<close> returns the id of the new sender; \<open>clone\<close> panics where there is none.\<close>

definition try_clone :: "'t channel \<Rightarrow> nat option \<times> 't channel" where
  "try_clone ch = (case alloc_tx ch of None \<Rightarrow> (None, ch) | Some (i, ch') \<Rightarrow> (Some i, ch'))"

definition clone :: "'t channel \<Rightarrow> (nat \<times> 't channel) option" where
  "clone ch = (case try_clone ch of (None, _) \<Rightarrow> None | (Some i, ch') \<Rightarrow> Some (i, ch'))"

subsection \<open>Receiver operations\<close>

definition recv_poll :: "'t channel \<Rightarrow> task \<Rightarrow> 't option poll \<times> 't channel" where
  "recv_poll ch cx =
     (case pop ch of
        (Some v, ch') \<Rightarrow> (Ready (Some v), ch')
      | (None, ch') \<Rightarrow>
          (if \<not> tx_alive ch' then (Ready None, ch')
           else (Pending, ch'\<lparr>rx_waker := register (rx_waker ch') cx\<rparr>)))"

definition try_recv :: "'t channel \<Rightarrow> 't option \<times> 't channel" where
  "try_recv ch = pop ch"

subsection \<open>What one call does\<close>

lemma try_send_closed: "\<not> rx_alive ch \<Longrightarrow> try_send ch v = (Inl v, ch)"
  by (simp add: try_send_def)

lemma send_poll_cases:
  assumes "ring_ok ch" and "send_poll ch i cx (Some v) = Some (r, v', ch')"
  obtains (closed) "\<not> rx_alive ch" "r = Ready (Inl v)" "v' = None" "ch' = ch"
  | (sent) "rx_alive ch" "len ch < ring_size ch" "r = Ready (Inr ())" "v' = None"
      "push ch v = (Inr (), ch')"
  | (parked) "rx_alive ch" "len ch = ring_size ch" "r = Pending" "v' = Some v"
      "ch' = ch\<lparr>tx_wakers := (tx_wakers ch)[i := Some cx]\<rparr>"
proof (cases "rx_alive ch")
  case False
  with assms(2) show ?thesis by (intro closed) (simp_all add: send_poll_def)
next
  case True
  show ?thesis
  proof (cases "len ch = ring_size ch")
    case full: True
    with True assms(2) show ?thesis by (intro parked) (simp_all add: send_poll_def push_full)
  next
    case False
    with assms(1) have room: "len ch < ring_size ch" by (simp add: ring_ok_def)
    obtain ch1 where "push ch v = (Inr (), ch1)" using push_room [OF assms(1) room] by blast
    with True assms(2) room show ?thesis by (intro sent) (simp_all add: send_poll_def)
  qed
qed

lemma recv_poll_cases:
  assumes "ring_ok ch" and "recv_poll ch cx = (r, ch')"
  obtains (got) x xs where "contents ch = x # xs" "r = Ready (Some x)" "pop ch = (Some x, ch')"
  | (closed) "len ch = 0" "\<not> tx_alive ch" "r = Ready None" "ch' = ch"
  | (parked) "len ch = 0" "tx_alive ch" "r = Pending" "ch' = ch\<lparr>rx_waker := Some cx\<rparr>"
proof (cases "contents ch")
  case Nil
  then have n: "len ch = 0" by simp
  show ?thesis
  proof (cases "tx_alive ch")
    case True
    with n assms(2) show ?thesis by (intro parked) (simp_all add: recv_poll_def pop_empty)
  next
    case False
    with n assms(2) show ?thesis by (intro closed) (simp_all add: recv_poll_def pop_empty)
  qed
next
  case (Cons x xs)
  from pop_some [OF assms(1) this] obtain ch1 where "pop ch = (Some x, ch1)" by blast
  with assms(2) Cons show ?thesis by (intro got) (simp_all add: recv_poll_def)
qed

text \<open>What a successful push or pop does to the rest of the channel.\<close>

lemma push_frame:
  assumes "push ch v = (Inr (), ch')"
  shows "tx_wakers ch' = tx_wakers ch" "tx_ids ch' = tx_ids ch" "rx_alive ch' = rx_alive ch"
    "rx_waker ch' = None" "len ch' = len ch + 1" "ring_size ch' = ring_size ch"
    "wake_log ch' = wake_log ch @ (case rx_waker ch of Some w \<Rightarrow> [w] | None \<Rightarrow> [])"
  using assms by (auto simp: push_def Let_def split: if_splits)

lemma pop_frame:
  assumes "pop ch = (Some x, ch')"
  shows "tx_wakers ch' = replicate (sender_limit ch) None" "tx_ids ch' = tx_ids ch"
    "rx_alive ch' = rx_alive ch" "rx_waker ch' = rx_waker ch" "ring_size ch' = ring_size ch"
    "wake_log ch' = wake_log ch @ occupied (tx_wakers ch)"
  using assms by (auto simp: pop_def Let_def split: if_splits)

lemma push_contents:
  "ring_ok ch \<Longrightarrow> push ch v = (Inr (), ch') \<Longrightarrow> contents ch' = contents ch @ [v] \<and> ring_ok ch'"
  using push_room [of ch v] push_full [of ch v] by (auto simp: ring_ok_def le_less)

lemma pop_contents:
  "ring_ok ch \<Longrightarrow> pop ch = (Some x, ch') \<Longrightarrow> contents ch = x # contents ch' \<and> ring_ok ch'"
  using pop_some [of ch] pop_empty [of ch] by (cases "contents ch") fastforce+

subsection \<open>A waiting task is registered or has been woken\<close>

text \<open>
  \<open>tx_waits ch i t n\<close>: task \<open>t\<close> last polled a send on sender \<open>i\<close> when the log had \<open>n\<close> entries
  and found the ring full. Since then it has been woken, or its waker is still in cell \<open>i\<close>
  and the reason to wait still holds. \<open>rx_waits\<close> is the same for the receiver.
\<close>

definition tx_waits :: "'t channel \<Rightarrow> nat \<Rightarrow> task \<Rightarrow> nat \<Rightarrow> bool" where
  "tx_waits ch i t n \<longleftrightarrow>
     n \<le> List.length (wake_log ch) \<and>
     (t \<in> set (drop n (wake_log ch)) \<or>
      tx_wakers ch ! i = Some t \<and> len ch = ring_size ch \<and> rx_alive ch)"

definition rx_waits :: "'t channel \<Rightarrow> task \<Rightarrow> nat \<Rightarrow> bool" where
  "rx_waits ch t n \<longleftrightarrow>
     n \<le> List.length (wake_log ch) \<and>
     (t \<in> set (drop n (wake_log ch)) \<or> rx_waker ch = Some t \<and> len ch = 0 \<and> tx_alive ch)"

lemma tx_waits_push:
  "ring_ok ch \<Longrightarrow> push ch v = (Inr (), ch') \<Longrightarrow> tx_waits ch i t n \<Longrightarrow> tx_waits ch' i t n"
  using push_frame [of ch v ch'] by (auto simp: tx_waits_def push_full)

lemma rx_waits_push: "push ch v = (Inr (), ch') \<Longrightarrow> rx_waits ch t n \<Longrightarrow> rx_waits ch' t n"
  using push_frame [of ch v ch'] by (auto simp: rx_waits_def)

lemma tx_waits_pop:
  "pop ch = (Some x, ch') \<Longrightarrow> i < sender_limit ch \<Longrightarrow> tx_waits ch i t n \<Longrightarrow> tx_waits ch' i t n"
  using pop_frame [of ch x ch'] nth_in_occupied [of i "tx_wakers ch" t] by (auto simp: tx_waits_def)

lemma rx_waits_pop: "pop ch = (Some x, ch') \<Longrightarrow> rx_waits ch t n \<Longrightarrow> rx_waits ch' t n"
  using pop_frame [of ch x ch'] by (auto simp: rx_waits_def pop_empty)

lemma tx_waits_ids [simp]: "tx_waits (ch\<lparr>tx_ids := m\<rparr>) i t n = tx_waits ch i t n"
  by (simp add: tx_waits_def)

lemma rx_waits_wakers [simp]: "rx_waits (ch\<lparr>tx_wakers := ws\<rparr>) t n = rx_waits ch t n"
  by (simp add: rx_waits_def tx_alive_def)

lemma tx_waits_rx_waker [simp]: "tx_waits (ch\<lparr>rx_waker := w\<rparr>) i t n = tx_waits ch i t n"
  by (simp add: tx_waits_def)

lemma tx_waits_wakers:
  "i \<noteq> j \<Longrightarrow> tx_waits (ch\<lparr>tx_wakers := (tx_wakers ch)[j := w]\<rparr>) i t n = tx_waits ch i t n"
  by (simp add: tx_waits_def)

lemma tx_waits_drop_sender: "i \<noteq> j \<Longrightarrow> tx_waits ch i t n \<Longrightarrow> tx_waits (drop_sender ch j) i t n"
  by (auto simp: tx_waits_def drop_sender_def Let_def)

lemma rx_waits_drop_sender: "rx_waits ch t n \<Longrightarrow> rx_waits (drop_sender ch j) t n"
  by (auto simp: rx_waits_def drop_sender_def Let_def tx_alive_def)

lemma tx_waits_drop_receiver:
  "i < sender_limit ch \<Longrightarrow> tx_waits ch i t n \<Longrightarrow> tx_waits (drop_receiver ch) i t n"
  using nth_in_occupied [of i "tx_wakers ch" t] by (auto simp: tx_waits_def drop_receiver_def)

lemma rx_waits_alloc:
  "ids_ok ch \<Longrightarrow> alloc_tx ch = Some (i, ch') \<Longrightarrow> rx_waits ch t n \<Longrightarrow> rx_waits ch' t n"
  using alloc_tx_Some [of ch i ch'] by (auto simp: rx_waits_def tx_alive_iff)

subsection \<open>A channel in use\<close>

text \<open>
  The channel together with the futures in flight. A send in flight has a sender, the task that
  polled it last, its value, and the length of the wake log at that poll; a receive has the task and
  the length. \<open>tx_parked\<close> is the send that parked last on each sender, as long as it is in flight;
  \<open>tx_behind\<close> are the other sends in flight, which parked on their sender before. \<open>tx_last\<close> is the
  task whose poll registered last in the cell of a sender; the same for the receiver. Then the
  history of the values that senders were told were accepted and that the receiver got.
\<close>

record 't system =
  chan :: "'t channel"
  tx_parked :: "nat \<rightharpoonup> task \<times> 't \<times> nat"
  rx_parked :: "(task \<times> nat) option"
  sent :: "'t list"
  received :: "'t list"
  tx_behind :: "(nat \<times> task \<times> 't \<times> nat) list"
  tx_last :: "nat \<rightharpoonup> task"
  rx_behind :: "(task \<times> nat) list"
  rx_last :: "task option"

definition system_start :: "'t channel \<Rightarrow> 't system" where
  "system_start ch =
     \<lparr>chan = ch, tx_parked = Map.empty, rx_parked = None, sent = [], received = [],
      tx_behind = [], tx_last = Map.empty, rx_behind = [], rx_last = None\<rparr>"

text \<open>All sends and all receives in flight.\<close>

definition sends_in_flight :: "'t system \<Rightarrow> (nat \<times> task \<times> 't \<times> nat) set" where
  "sends_in_flight s = {(i, f). tx_parked s i = Some f} \<union> set (tx_behind s)"

definition recvs_in_flight :: "'t system \<Rightarrow> (task \<times> nat) set" where
  "recvs_in_flight s = set_option (rx_parked s) \<union> set (rx_behind s)"

text \<open>The state after a poll of the send that parked last on sender \<open>i\<close>.\<close>

definition after_send ::
  "'t system \<Rightarrow> nat \<Rightarrow> task \<Rightarrow> 't \<Rightarrow> ('t + unit) poll \<Rightarrow> 't channel \<Rightarrow> 't system" where
  "after_send s i t v r ch =
     s\<lparr>chan := ch,
       tx_parked := (tx_parked s)
         (i := (case r of Pending \<Rightarrow> Some (t, v, List.length (wake_log ch)) | Ready _ \<Rightarrow> None)),
       tx_last := (case r of Pending \<Rightarrow> (tx_last s)(i \<mapsto> t) | Ready _ \<Rightarrow> tx_last s),
       sent := sent s @ (case r of Ready (Inr _) \<Rightarrow> [v] | _ \<Rightarrow> [])\<rparr>"

text \<open>
  The state after a poll of any other send on sender \<open>i\<close>, a new one or one from behind: if it parks,
  it becomes the last, and the one that was last falls behind.
\<close>

definition after_other_send ::
  "'t system \<Rightarrow> nat \<Rightarrow> task \<Rightarrow> 't \<Rightarrow> ('t + unit) poll \<Rightarrow> 't channel \<Rightarrow> 't system" where
  "after_other_send s i t v r ch =
     (case r of
        Ready _ \<Rightarrow> s\<lparr>chan := ch, sent := sent s @ (case r of Ready (Inr _) \<Rightarrow> [v] | _ \<Rightarrow> [])\<rparr>
      | Pending \<Rightarrow>
          s\<lparr>chan := ch,
            tx_parked := (tx_parked s)(i \<mapsto> (t, v, List.length (wake_log ch))),
            tx_behind := (case tx_parked s i of None \<Rightarrow> [] | Some f \<Rightarrow> [(i, f)]) @ tx_behind s,
            tx_last := (tx_last s)(i \<mapsto> t)\<rparr>)"

definition after_recv :: "'t system \<Rightarrow> task \<Rightarrow> 't option poll \<Rightarrow> 't channel \<Rightarrow> 't system" where
  "after_recv s t r ch =
     s\<lparr>chan := ch,
       rx_parked := (case r of Pending \<Rightarrow> Some (t, List.length (wake_log ch)) | Ready _ \<Rightarrow> None),
       rx_last := (case r of Pending \<Rightarrow> Some t | Ready _ \<Rightarrow> rx_last s),
       received := received s @ (case r of Ready (Some x) \<Rightarrow> [x] | _ \<Rightarrow> [])\<rparr>"

definition after_other_recv :: "'t system \<Rightarrow> task \<Rightarrow> 't option poll \<Rightarrow> 't channel \<Rightarrow> 't system" where
  "after_other_recv s t r ch =
     (case r of
        Ready _ \<Rightarrow> s\<lparr>chan := ch, received := received s @ (case r of Ready (Some x) \<Rightarrow> [x] | _ \<Rightarrow> [])\<rparr>
      | Pending \<Rightarrow>
          s\<lparr>chan := ch,
            rx_parked := Some (t, List.length (wake_log ch)),
            rx_behind := (case rx_parked s of None \<Rightarrow> [] | Some f \<Rightarrow> [f]) @ rx_behind s,
            rx_last := Some t\<rparr>)"

text \<open>
  A step. A handle is dropped only when no future borrows it; a poll may come from another task than
  the one before.
\<close>

inductive chan_step :: "'t system \<Rightarrow> 't system \<Rightarrow> bool" where
  send: "i \<in> live_ids (chan s) \<Longrightarrow>
     send_poll (chan s) i t (Some v) = Some (r, v', ch) \<Longrightarrow> chan_step s (after_other_send s i t v r ch)"
| resend: "tx_parked s i = Some (t0, v, n) \<Longrightarrow>
     send_poll (chan s) i t (Some v) = Some (r, v', ch) \<Longrightarrow> chan_step s (after_send s i t v r ch)"
| resend_behind: "tx_behind s = xs @ (i, t0, v, n) # ys \<Longrightarrow>
     send_poll (chan s) i t (Some v) = Some (r, v', ch) \<Longrightarrow>
     chan_step s (after_other_send (s\<lparr>tx_behind := xs @ ys\<rparr>) i t v r ch)"
| cancel_send: "tx_parked s i = Some p \<Longrightarrow>
     chan_step s (s\<lparr>tx_parked := (tx_parked s)(i := None)\<rparr>)"
| cancel_send_behind: "tx_behind s = xs @ f # ys \<Longrightarrow> chan_step s (s\<lparr>tx_behind := xs @ ys\<rparr>)"
| try_send: "i \<in> live_ids (chan s) \<Longrightarrow> try_send (chan s) v = (r, ch) \<Longrightarrow>
     chan_step s (s\<lparr>chan := ch, sent := sent s @ (case r of Inr _ \<Rightarrow> [v] | Inl _ \<Rightarrow> [])\<rparr>)"
| clone: "i \<in> live_ids (chan s) \<Longrightarrow> try_clone (chan s) = (r, ch) \<Longrightarrow> chan_step s (s\<lparr>chan := ch\<rparr>)"
| drop_tx: "i \<in> live_ids (chan s) \<Longrightarrow> tx_parked s i = None \<Longrightarrow> i \<notin> fst ` set (tx_behind s) \<Longrightarrow>
     chan_step s (s\<lparr>chan := drop_sender (chan s) i\<rparr>)"
| recv: "rx_alive (chan s) \<Longrightarrow> recv_poll (chan s) t = (r, ch) \<Longrightarrow> chan_step s (after_other_recv s t r ch)"
| rerecv: "rx_parked s = Some p \<Longrightarrow> recv_poll (chan s) t = (r, ch) \<Longrightarrow> chan_step s (after_recv s t r ch)"
| rerecv_behind: "rx_behind s = xs @ f # ys \<Longrightarrow> recv_poll (chan s) t = (r, ch) \<Longrightarrow>
     chan_step s (after_other_recv (s\<lparr>rx_behind := xs @ ys\<rparr>) t r ch)"
| cancel_recv: "rx_parked s = Some p \<Longrightarrow> chan_step s (s\<lparr>rx_parked := None\<rparr>)"
| cancel_recv_behind: "rx_behind s = xs @ f # ys \<Longrightarrow> chan_step s (s\<lparr>rx_behind := xs @ ys\<rparr>)"
| try_recv: "rx_alive (chan s) \<Longrightarrow> try_recv (chan s) = (r, ch) \<Longrightarrow>
     chan_step s (s\<lparr>chan := ch, received := received s @ (case r of Some x \<Rightarrow> [x] | None \<Rightarrow> [])\<rparr>)"
| drop_rx: "rx_alive (chan s) \<Longrightarrow> rx_parked s = None \<Longrightarrow> rx_behind s = [] \<Longrightarrow>
     chan_step s (s\<lparr>chan := drop_receiver (chan s)\<rparr>)"

inductive chan_reach :: "nat \<Rightarrow> nat \<Rightarrow> 't system \<Rightarrow> bool" for N S where
  start: "channel_new N S = Some ch \<Longrightarrow> split ch = Some (i, ch') \<Longrightarrow>
     chan_reach N S (system_start ch')"
| step: "chan_reach N S s \<Longrightarrow> chan_step s s' \<Longrightarrow> chan_reach N S s'"

subsection \<open>The invariant\<close>

text \<open>
  A send in flight is covered when the poll that registered last in its sender's cell was by its
  task, be it its own poll or another's; then its wakeup is not lost. The send that parked last is
  covered.
\<close>

definition system_ok :: "'t system \<Rightarrow> bool" where
  "system_ok s \<longleftrightarrow>
     ring_ok (chan s) \<and> ids_ok (chan s) \<and> sent s = received s @ contents (chan s) \<and>
     (\<forall>i t v n. (i, t, v, n) \<in> sends_in_flight s \<longrightarrow>
        i \<in> live_ids (chan s) \<and> n \<le> List.length (wake_log (chan s)) \<and>
        (tx_last s i = Some t \<longrightarrow> tx_waits (chan s) i t n)) \<and>
     (\<forall>i t v n. tx_parked s i = Some (t, v, n) \<longrightarrow> tx_last s i = Some t) \<and>
     (\<forall>t n. (t, n) \<in> recvs_in_flight s \<longrightarrow>
        rx_alive (chan s) \<and> n \<le> List.length (wake_log (chan s)) \<and>
        (rx_last s = Some t \<longrightarrow> rx_waits (chan s) t n)) \<and>
     (\<forall>t n. rx_parked s = Some (t, n) \<longrightarrow> rx_last s = Some t)"

lemma system_okI:
  assumes "ring_ok (chan s)" and "ids_ok (chan s)" and "sent s = received s @ contents (chan s)"
    and "\<And>i t v n. (i, t, v, n) \<in> sends_in_flight s \<Longrightarrow>
      i \<in> live_ids (chan s) \<and> n \<le> List.length (wake_log (chan s)) \<and>
      (tx_last s i = Some t \<longrightarrow> tx_waits (chan s) i t n)"
    and "\<And>i t v n. tx_parked s i = Some (t, v, n) \<Longrightarrow> tx_last s i = Some t"
    and "\<And>t n. (t, n) \<in> recvs_in_flight s \<Longrightarrow>
      rx_alive (chan s) \<and> n \<le> List.length (wake_log (chan s)) \<and>
      (rx_last s = Some t \<longrightarrow> rx_waits (chan s) t n)"
    and "\<And>t n. rx_parked s = Some (t, n) \<Longrightarrow> rx_last s = Some t"
  shows "system_ok s"
  using assms by (simp add: system_ok_def)

lemma parked_in_flight:
  "tx_parked s i = Some (t, v, n) \<Longrightarrow> (i, t, v, n) \<in> sends_in_flight s"
  "rx_parked s = Some p \<Longrightarrow> p \<in> recvs_in_flight s"
  by (simp_all add: sends_in_flight_def recvs_in_flight_def)

lemma system_ok_flight:
  assumes "system_ok s"
  shows "(i, t, v, n) \<in> sends_in_flight s \<Longrightarrow> i \<in> live_ids (chan s)"
    and "(i, t, v, n) \<in> sends_in_flight s \<Longrightarrow> i < sender_limit (chan s)"
    and "(i, t, v, n) \<in> sends_in_flight s \<Longrightarrow> n \<le> List.length (wake_log (chan s))"
    and "(i, t, v, n) \<in> sends_in_flight s \<Longrightarrow> tx_last s i = Some t \<Longrightarrow> tx_waits (chan s) i t n"
    and "tx_parked s i = Some (t, v, n) \<Longrightarrow> tx_last s i = Some t"
    and "(t', n') \<in> recvs_in_flight s \<Longrightarrow> rx_alive (chan s)"
    and "(t', n') \<in> recvs_in_flight s \<Longrightarrow> n' \<le> List.length (wake_log (chan s))"
    and "(t', n') \<in> recvs_in_flight s \<Longrightarrow> rx_last s = Some t' \<Longrightarrow> rx_waits (chan s) t' n'"
    and "rx_parked s = Some (t', n') \<Longrightarrow> rx_last s = Some t'"
  using assms unfolding system_ok_def ids_ok_def by blast+

lemma system_okD:
  assumes "system_ok s"
  shows "ring_ok (chan s)" and "ids_ok (chan s)" and "sent s = received s @ contents (chan s)"
    and "tx_parked s i = Some (t, v, n) \<Longrightarrow> i \<in> live_ids (chan s)"
    and "tx_parked s i = Some (t, v, n) \<Longrightarrow> i < sender_limit (chan s)"
    and "tx_parked s i = Some (t, v, n) \<Longrightarrow> tx_waits (chan s) i t n"
    and "rx_parked s = Some (t', n') \<Longrightarrow> rx_alive (chan s)"
    and "rx_parked s = Some (t', n') \<Longrightarrow> rx_waits (chan s) t' n'"
proof -
  show "ring_ok (chan s)" "ids_ok (chan s)" "sent s = received s @ contents (chan s)"
    using assms unfolding system_ok_def by blast+
  note flight = system_ok_flight [OF assms]
  show "tx_parked s i = Some (t, v, n) \<Longrightarrow> i \<in> live_ids (chan s)"
    "tx_parked s i = Some (t, v, n) \<Longrightarrow> i < sender_limit (chan s)"
    "tx_parked s i = Some (t, v, n) \<Longrightarrow> tx_waits (chan s) i t n"
    using flight(1,2,4,5) parked_in_flight(1) by metis+
  show "rx_parked s = Some (t', n') \<Longrightarrow> rx_alive (chan s)"
    "rx_parked s = Some (t', n') \<Longrightarrow> rx_waits (chan s) t' n'"
    using flight(6,8,9) parked_in_flight(2) by metis+
qed

text \<open>A step that parks nothing: fewer futures in flight, and the channel keeps what they wait for.\<close>

definition fewer :: "'t system \<Rightarrow> 't system \<Rightarrow> bool" where
  "fewer s' s \<longleftrightarrow>
     sends_in_flight s' \<subseteq> sends_in_flight s \<and> tx_last s' = tx_last s \<and> tx_parked s' \<subseteq>\<^sub>m tx_parked s \<and>
     recvs_in_flight s' \<subseteq> recvs_in_flight s \<and> rx_last s' = rx_last s \<and>
     (rx_parked s' = None \<or> rx_parked s' = rx_parked s)"

lemma fewer_refl [simp]: "fewer s s"
  by (simp add: fewer_def)

lemma fewer_chan [simp]:
  "fewer (s'\<lparr>chan := ch\<rparr>) s = fewer s' s"
  "fewer (s'\<lparr>sent := vs\<rparr>) s = fewer s' s" "fewer (s'\<lparr>received := vs\<rparr>) s = fewer s' s"
  by (simp_all add: fewer_def sends_in_flight_def recvs_in_flight_def)

lemma fewer_trans: "fewer s2 s1 \<Longrightarrow> fewer s1 s \<Longrightarrow> fewer s2 s"
  unfolding fewer_def by (metis (no_types, lifting) map_le_trans subset_trans)

lemma fewer_unpark [simp]:
  "fewer (s\<lparr>tx_parked := (tx_parked s)(i := None)\<rparr>) s" "fewer (s\<lparr>rx_parked := None\<rparr>) s"
  by (auto simp: fewer_def sends_in_flight_def recvs_in_flight_def map_le_def split: if_splits)

lemma fewer_behind:
  "tx_behind s = xs @ f # ys \<Longrightarrow> fewer (s\<lparr>tx_behind := xs @ ys\<rparr>) s"
  "rx_behind s = us @ g # ws \<Longrightarrow> fewer (s\<lparr>rx_behind := us @ ws\<rparr>) s"
  by (auto simp: fewer_def sends_in_flight_def recvs_in_flight_def)

lemma system_ok_step:
  assumes ok: "system_ok s"
    and chan: "ring_ok (chan s')" "ids_ok (chan s')" "sent s' = received s' @ contents (chan s')"
    and fewer: "fewer s' s"
    and log: "List.length (wake_log (chan s)) \<le> List.length (wake_log (chan s'))"
    and tx_keeps: "\<And>i t v n. (i, t, v, n) \<in> sends_in_flight s' \<Longrightarrow> (i, t, v, n) \<in> sends_in_flight s \<Longrightarrow>
      i \<in> live_ids (chan s') \<and> (tx_waits (chan s) i t n \<longrightarrow> tx_waits (chan s') i t n)"
    and rx_keeps: "\<And>t n. (t, n) \<in> recvs_in_flight s' \<Longrightarrow> (t, n) \<in> recvs_in_flight s \<Longrightarrow>
      rx_alive (chan s') \<and> (rx_waits (chan s) t n \<longrightarrow> rx_waits (chan s') t n)"
  shows "system_ok s'"
proof (rule system_okI [OF chan])
  fix i t v n assume f: "(i, t, v, n) \<in> sends_in_flight s'"
  then have g: "(i, t, v, n) \<in> sends_in_flight s" using fewer by (auto simp: fewer_def)
  then show "i \<in> live_ids (chan s') \<and> n \<le> List.length (wake_log (chan s')) \<and>
      (tx_last s' i = Some t \<longrightarrow> tx_waits (chan s') i t n)"
    using system_ok_flight(3,4) [OF ok] tx_keeps [OF f g] fewer log unfolding fewer_def by (metis le_trans)
next
  fix i t v n assume "tx_parked s' i = Some (t, v, n)"
  then have "tx_parked s i = Some (t, v, n)" using fewer unfolding fewer_def by (metis domI map_le_def)
  then show "tx_last s' i = Some t" using system_ok_flight(5) [OF ok] fewer unfolding fewer_def by metis
next
  fix t n assume f: "(t, n) \<in> recvs_in_flight s'"
  then have g: "(t, n) \<in> recvs_in_flight s" using fewer by (auto simp: fewer_def)
  then show "rx_alive (chan s') \<and> n \<le> List.length (wake_log (chan s')) \<and>
      (rx_last s' = Some t \<longrightarrow> rx_waits (chan s') t n)"
    using system_ok_flight(7,8) [OF ok] rx_keeps [OF f g] fewer log unfolding fewer_def by (metis le_trans)
next
  fix t n assume "rx_parked s' = Some (t, n)"
  then show "rx_last s' = Some t" using system_ok_flight(9) [OF ok, of t n] fewer by (auto simp: fewer_def)
qed

text \<open>A step that parks a send on sender \<open>i\<close>, by task \<open>t\<close>: its cell now holds \<open>t\<close>.\<close>

lemma system_ok_park_send:
  assumes ok: "system_ok s" and i: "i \<in> live_ids (chan s)"
    and full: "len (chan s) = ring_size (chan s)" "rx_alive (chan s)"
    and chan': "chan s' = (chan s)\<lparr>tx_wakers := (tx_wakers (chan s))[i := Some t]\<rparr>"
    and tx: "sends_in_flight s' \<subseteq> insert (i, t, v, List.length (wake_log (chan s))) (sends_in_flight s)"
      "tx_last s' = (tx_last s)(i \<mapsto> t)"
      "tx_parked s' = (tx_parked s)(i \<mapsto> (t, v, List.length (wake_log (chan s))))"
    and same: "rx_parked s' = rx_parked s" "rx_behind s' = rx_behind s" "rx_last s' = rx_last s"
      "sent s' = sent s" "received s' = received s"
  shows "system_ok s'"
proof -
  have ids: "ids_ok (chan s')" "live_ids (chan s') = live_ids (chan s)" "ring_ok (chan s')"
    "contents (chan s') = contents (chan s)"
    using system_okD(1,2) [OF ok] contents_frame [of "chan s'" "chan s"]
    by (simp_all add: chan' ids_ok_def live_ids_def)
  have lim: "i < sender_limit (chan s)" using i system_okD(2) [OF ok] by (auto simp: ids_ok_def)
  show ?thesis
  proof (rule system_okI)
    fix j t' v' n assume "(j, t', v', n) \<in> sends_in_flight s'"
    then consider (new) "j = i" "t' = t" "n = List.length (wake_log (chan s))"
      | (old) "(j, t', v', n) \<in> sends_in_flight s" using tx(1) by blast
    then show "j \<in> live_ids (chan s') \<and> n \<le> List.length (wake_log (chan s')) \<and>
        (tx_last s' j = Some t' \<longrightarrow> tx_waits (chan s') j t' n)"
    proof cases
      case new
      then show ?thesis using i lim full by (simp add: chan' ids(2) [unfolded chan'] tx_waits_def)
    next
      case old
      then show ?thesis
        using system_ok_flight(1,3,4) [OF ok old] lim full ids(2)
        by (cases "j = i") (auto simp: chan' tx(2) tx_waits_def)
    qed
  next
    fix j t' v' n assume "tx_parked s' j = Some (t', v', n)"
    then show "tx_last s' j = Some t'"
      using system_ok_flight(5) [OF ok] by (auto simp: tx(2,3) split: if_splits)
  next
    fix t' n assume "(t', n) \<in> recvs_in_flight s'"
    then show "rx_alive (chan s') \<and> n \<le> List.length (wake_log (chan s')) \<and>
        (rx_last s' = Some t' \<longrightarrow> rx_waits (chan s') t' n)"
      using system_ok_flight(6-8) [OF ok] by (auto simp: recvs_in_flight_def same chan')
  qed (use system_okD(3) [OF ok] system_ok_flight(9) [OF ok] in \<open>simp_all add: ids same\<close>)
qed

lemma system_ok_park_recv:
  assumes ok: "system_ok s" and empty: "len (chan s) = 0" "tx_alive (chan s)" "rx_alive (chan s)"
    and chan': "chan s' = (chan s)\<lparr>rx_waker := Some t\<rparr>"
    and rx: "recvs_in_flight s' \<subseteq> insert (t, List.length (wake_log (chan s))) (recvs_in_flight s)"
      "rx_last s' = Some t" "rx_parked s' = Some (t, List.length (wake_log (chan s)))"
    and same: "tx_parked s' = tx_parked s" "tx_behind s' = tx_behind s" "tx_last s' = tx_last s"
      "sent s' = sent s" "received s' = received s"
  shows "system_ok s'"
proof -
  have ids: "ids_ok (chan s')" "live_ids (chan s') = live_ids (chan s)" "ring_ok (chan s')"
    "contents (chan s') = contents (chan s)"
    using system_okD(1,2) [OF ok] contents_frame [of "chan s'" "chan s"]
    by (simp_all add: chan' ids_ok_def live_ids_def)
  show ?thesis
  proof (rule system_okI)
    fix t' n assume "(t', n) \<in> recvs_in_flight s'"
    then have "n \<le> List.length (wake_log (chan s))"
      using rx(1) system_ok_flight(7) [OF ok] by auto
    then show "rx_alive (chan s') \<and> n \<le> List.length (wake_log (chan s')) \<and>
        (rx_last s' = Some t' \<longrightarrow> rx_waits (chan s') t' n)"
      using empty by (simp add: chan' rx(2) rx_waits_def tx_alive_def)
  next
    fix i t' v n assume "(i, t', v, n) \<in> sends_in_flight s'"
    then show "i \<in> live_ids (chan s') \<and> n \<le> List.length (wake_log (chan s')) \<and>
        (tx_last s' i = Some t' \<longrightarrow> tx_waits (chan s') i t' n)"
      using system_ok_flight(1,3,4) [OF ok] by (auto simp: sends_in_flight_def same chan' live_ids_def)
  qed (use system_okD(3) [OF ok] system_ok_flight(5) [OF ok] rx in \<open>simp_all add: ids same\<close>)
qed

text \<open>A step that leaves the ids alone keeps \<open>ids_ok\<close>.\<close>

lemma ids_ok_frame:
  assumes "tx_ids ch' = tx_ids ch" and "sender_limit ch' = sender_limit ch"
  shows "ids_ok ch' = ids_ok ch" and "live_ids ch' = live_ids ch"
  using assms by (simp_all add: ids_ok_def live_ids_def)

lemma push_keeps:
  assumes ok: "ring_ok ch" "ids_ok ch" and p: "push ch v = (Inr (), ch')"
  shows "ring_ok ch'" "ids_ok ch'" "live_ids ch' = live_ids ch" "contents ch' = contents ch @ [v]"
    "rx_alive ch' = rx_alive ch"
  using push_contents [OF ok(1) p] push_frame [OF p] ok(2) ids_ok_frame [of ch' ch] by simp_all

lemma pop_keeps:
  assumes ok: "ring_ok ch" "ids_ok ch" and p: "pop ch = (Some x, ch')"
  shows "ring_ok ch'" "ids_ok ch'" "live_ids ch' = live_ids ch" "contents ch = x # contents ch'"
    "rx_alive ch' = rx_alive ch"
  using pop_contents [OF ok(1) p] pop_frame [OF p] ok(2) ids_ok_frame [of ch' ch] by simp_all

lemma system_ok_fewer:
  assumes ok: "system_ok s" and "fewer s' s" "chan s' = chan s" "sent s' = sent s" "received s' = received s"
  shows "system_ok s'"
  using system_okD(1-3) [OF ok] system_ok_flight(1,6) [OF ok] assms(3-5)
  by (intro system_ok_step [OF ok _ _ _ assms(2)]) auto

lemma system_ok_pushed:
  assumes ok: "system_ok s" and p: "push (chan s) v = (Inr (), chan s')" and fewer: "fewer s' s"
    and history: "sent s' = sent s @ [v]" "received s' = received s"
  shows "system_ok s'"
proof -
  note kept = push_keeps [OF system_okD(1,2) [OF ok] p]
  note flight = system_ok_flight [OF ok]
  show ?thesis
    by (rule system_ok_step [OF ok kept(1,2) _ fewer])
      (use system_okD(3) [OF ok] flight(1,6) kept push_frame(7) [OF p] history
        tx_waits_push [OF system_okD(1) [OF ok] p] rx_waits_push [OF p] in auto)
qed

lemma system_ok_popped:
  assumes ok: "system_ok s" and p: "pop (chan s) = (Some x, chan s')" and fewer: "fewer s' s"
    and history: "sent s' = sent s" "received s' = received s @ [x]"
  shows "system_ok s'"
proof -
  note kept = pop_keeps [OF system_okD(1,2) [OF ok] p]
  note flight = system_ok_flight [OF ok]
  show ?thesis
    by (rule system_ok_step [OF ok kept(1,2) _ fewer])
      (use system_okD(3) [OF ok] flight(1,2,6) kept pop_frame(6) [OF p] history
        tx_waits_pop [OF p] rx_waits_pop [OF p] in auto)
qed

lemma system_ok_sent:
  assumes "system_ok s" and "push (chan s) v = (Inr (), ch)"
  shows "system_ok (s\<lparr>chan := ch, tx_parked := (tx_parked s)(i := None), sent := sent s @ [v]\<rparr>)"
    and "system_ok (s\<lparr>chan := ch, sent := sent s @ [v]\<rparr>)"
proof -
  have "s\<lparr>chan := ch, tx_parked := (tx_parked s)(i := None), sent := sent s @ [v]\<rparr> =
      s\<lparr>tx_parked := (tx_parked s)(i := None)\<rparr>\<lparr>chan := ch\<rparr>\<lparr>sent := sent s @ [v]\<rparr>" by simp
  then show "system_ok (s\<lparr>chan := ch, tx_parked := (tx_parked s)(i := None), sent := sent s @ [v]\<rparr>)"
    using assms(2) by (simp only:) (rule system_ok_pushed [OF assms(1)], simp_all)
  show "system_ok (s\<lparr>chan := ch, sent := sent s @ [v]\<rparr>)"
    using assms(2) by (intro system_ok_pushed [OF assms(1)]) simp_all
qed

lemma system_ok_unpark:
  "system_ok s \<Longrightarrow> system_ok (s\<lparr>tx_parked := (tx_parked s)(i := None)\<rparr>)"
  "system_ok s \<Longrightarrow> system_ok (s\<lparr>rx_parked := None\<rparr>)"
  by (rule system_ok_fewer; simp)+

lemma system_ok_behind:
  "system_ok s \<Longrightarrow> tx_behind s = xs @ f # ys \<Longrightarrow> system_ok (s\<lparr>tx_behind := xs @ ys\<rparr>)"
  "system_ok s \<Longrightarrow> rx_behind s = us @ g # ws \<Longrightarrow> system_ok (s\<lparr>rx_behind := us @ ws\<rparr>)"
  by (rule system_ok_fewer; simp add: fewer_behind)+

lemma system_ok_after_send:
  assumes ok: "system_ok s" and live: "i \<in> live_ids (chan s)"
    and poll: "send_poll (chan s) i t (Some v) = Some (r, v', ch)"
  shows "system_ok (after_send s i t v r ch)"
  using system_okD(1) [OF ok] poll
proof (cases rule: send_poll_cases)
  case closed
  then show ?thesis using system_ok_unpark(1) [OF ok, of i] by (simp add: after_send_def)
next
  case sent
  then show ?thesis using system_ok_sent(1) [OF ok sent(5), of i] by (simp add: after_send_def)
next
  case parked
  then show ?thesis
    by (intro system_ok_park_send [OF ok live, where t = t and v = v])
      (auto simp: after_send_def sends_in_flight_def split: if_splits)
qed

lemma system_ok_after_other_send:
  assumes ok: "system_ok s" and live: "i \<in> live_ids (chan s)"
    and poll: "send_poll (chan s) i t (Some v) = Some (r, v', ch)"
  shows "system_ok (after_other_send s i t v r ch)"
  using system_okD(1) [OF ok] poll
proof (cases rule: send_poll_cases)
  case closed
  then show ?thesis using ok by (simp add: after_other_send_def)
next
  case sent
  then show ?thesis using system_ok_sent(2) [OF ok sent(5)] by (simp add: after_other_send_def)
next
  case parked
  then show ?thesis
    by (intro system_ok_park_send [OF ok live, where t = t and v = v])
      (auto simp: after_other_send_def sends_in_flight_def split: if_splits option.splits)
qed

lemma system_ok_received:
  assumes "system_ok s" and "pop (chan s) = (Some x, ch)"
  shows "system_ok (s\<lparr>chan := ch, rx_parked := None, received := received s @ [x]\<rparr>)"
    and "system_ok (s\<lparr>chan := ch, received := received s @ [x]\<rparr>)"
proof -
  have "s\<lparr>chan := ch, rx_parked := None, received := received s @ [x]\<rparr> =
      s\<lparr>rx_parked := None\<rparr>\<lparr>chan := ch\<rparr>\<lparr>received := received s @ [x]\<rparr>" by simp
  then show "system_ok (s\<lparr>chan := ch, rx_parked := None, received := received s @ [x]\<rparr>)"
    using assms(2) by (simp only:) (rule system_ok_popped [OF assms(1)], simp_all)
  show "system_ok (s\<lparr>chan := ch, received := received s @ [x]\<rparr>)"
    using assms(2) by (intro system_ok_popped [OF assms(1)]) simp_all
qed

lemma system_ok_after_recv:
  assumes ok: "system_ok s" and alive: "rx_alive (chan s)" and poll: "recv_poll (chan s) t = (r, ch)"
  shows "system_ok (after_recv s t r ch)" "system_ok (after_other_recv s t r ch)"
proof -
  from system_okD(1) [OF ok] poll
  have "system_ok (after_recv s t r ch) \<and> system_ok (after_other_recv s t r ch)"
  proof (cases rule: recv_poll_cases)
    case (got x xs)
    then show ?thesis
      using system_ok_received [OF ok got(3)] by (simp add: after_recv_def after_other_recv_def)
  next
    case closed
    then show ?thesis using ok system_ok_unpark(2) [OF ok] by (simp add: after_recv_def after_other_recv_def)
  next
    case parked
    have "system_ok (after_recv s t r ch)"
      using parked alive
      by (intro system_ok_park_recv [OF ok, where t = t]) (auto simp: after_recv_def recvs_in_flight_def)
    moreover have "system_ok (after_other_recv s t r ch)"
      using parked alive
      by (intro system_ok_park_recv [OF ok, where t = t])
        (auto simp: after_other_recv_def recvs_in_flight_def split: option.splits)
    ultimately show ?thesis by blast
  qed
  then show "system_ok (after_recv s t r ch)" "system_ok (after_other_recv s t r ch)" by blast+
qed

lemma system_ok_drop_sender:
  assumes ok: "system_ok s" and free: "tx_parked s j = None" "j \<notin> fst ` set (tx_behind s)"
  shows "system_ok (s\<lparr>chan := drop_sender (chan s) j\<rparr>)"
proof -
  have frame: "slots (drop_sender (chan s) j) = slots (chan s)"
    "head (drop_sender (chan s) j) = head (chan s)" "len (drop_sender (chan s) j) = len (chan s)"
    "rx_alive (drop_sender (chan s) j) = rx_alive (chan s)"
    by (simp_all add: drop_sender_def Let_def)
  note same = contents_frame [OF frame(1-3)] and flight = system_ok_flight [OF ok]
  have other: "i \<noteq> j" if "(i, t, v, n) \<in> sends_in_flight s" for i t v n
    using that free by (force simp: sends_in_flight_def)
  have log: "List.length (wake_log (chan s)) \<le> List.length (wake_log (drop_sender (chan s) j))"
    by (simp add: drop_sender_def Let_def)
  show ?thesis
  proof (rule system_ok_step [OF ok])
    show "ids_ok (chan (s\<lparr>chan := drop_sender (chan s) j\<rparr>))"
      using ids.release_live [OF system_okD(2) [OF ok]] by simp
    fix i t v n assume "(i, t, v, n) \<in> sends_in_flight s"
    then show "i \<in> live_ids (chan (s\<lparr>chan := drop_sender (chan s) j\<rparr>)) \<and>
        (tx_waits (chan s) i t n \<longrightarrow> tx_waits (chan (s\<lparr>chan := drop_sender (chan s) j\<rparr>)) i t n)"
      using other flight(1) by (simp add: drop_sender_ids tx_waits_drop_sender)
  qed (use system_okD(1,3) [OF ok] same flight(6) frame(4) log in \<open>auto intro: rx_waits_drop_sender\<close>)
qed

lemma system_ok_drop_receiver:
  assumes ok: "system_ok s" and free: "rx_parked s = None" "rx_behind s = []"
  shows "system_ok (s\<lparr>chan := drop_receiver (chan s)\<rparr>)"
proof -
  have frame: "contents (drop_receiver (chan s)) = contents (chan s)"
    "ring_ok (drop_receiver (chan s)) = ring_ok (chan s)"
    "ids_ok (drop_receiver (chan s)) = ids_ok (chan s)"
    "live_ids (drop_receiver (chan s)) = live_ids (chan s)"
    "List.length (wake_log (chan s)) \<le> List.length (wake_log (drop_receiver (chan s)))"
    by (simp_all add: drop_receiver_def contents_def ring_ok_def ids_ok_def live_ids_def)
  have none: "recvs_in_flight s = {}" using free by (simp add: recvs_in_flight_def)
  show ?thesis
    by (rule system_ok_step [OF ok])
      (use system_okD(1-3) [OF ok] system_ok_flight(1,2) [OF ok] none frame
        in \<open>auto intro: tx_waits_drop_receiver\<close>)
qed

lemma system_ok_clone:
  assumes ok: "system_ok s" and al: "alloc_tx (chan s) = Some (i, ch)"
  shows "system_ok (s\<lparr>chan := ch\<rparr>)"
proof -
  note got = alloc_tx_Some [OF system_okD(2) [OF ok] al]
  have frame: "contents ch = contents (chan s)" "ring_ok ch = ring_ok (chan s)"
    using contents_frame [of ch "chan s"] by (simp_all add: got(3))
  have ids: "ids_ok ch" using ids.alloc_fresh [OF system_okD(2) [OF ok] al] by simp
  have same: "wake_log ch = wake_log (chan s)" "rx_alive ch = rx_alive (chan s)"
    "tx_waits ch j t n = tx_waits (chan s) j t n" for j t n by (simp_all add: got(3))
  show ?thesis
    by (rule system_ok_step [OF ok])
      (use system_okD(1-3) [OF ok] system_ok_flight(1,6) [OF ok] frame ids got(4) same
        rx_waits_alloc [OF system_okD(2) [OF ok] al] in simp_all)
qed

text \<open>Every step keeps the invariant; so it holds in every reachable state.\<close>

lemma chan_step_ok: "chan_step s s' \<Longrightarrow> system_ok s \<Longrightarrow> system_ok s'"
proof (induction rule: chan_step.induct)
  case (send i s t v r v' ch)
  then show ?case by (blast intro: system_ok_after_other_send)
next
  case (resend s i t0 v n t r v' ch)
  then show ?case by (blast intro: system_ok_after_send system_okD(4))
next
  case (resend_behind s xs i t0 v n ys t r v' ch)
  have "(i, t0, v, n) \<in> sends_in_flight s" using resend_behind(1) by (simp add: sends_in_flight_def)
  then have "i \<in> live_ids (chan s)" by (rule system_ok_flight(1) [OF resend_behind.prems])
  then show ?case
    using resend_behind by (intro system_ok_after_other_send system_ok_behind(1)) simp_all
next
  case (try_send i s v r ch)
  show ?case
  proof (cases r)
    case (Inl x)
    with try_send have "ch = chan s"
      by (auto simp: try_send_def push_def Let_def split: if_splits)
    with try_send Inl show ?thesis by simp
  next
    case (Inr u)
    with try_send have "push (chan s) v = (Inr (), ch)"
      by (auto simp: try_send_def split: if_splits)
    with try_send Inr show ?thesis using system_ok_sent(2) by simp
  qed
next
  case (clone i s r ch)
  then show ?case by (auto simp: try_clone_def intro: system_ok_clone split: option.splits)
next
  case (recv s t r ch)
  then show ?case by (blast intro: system_ok_after_recv)
next
  case (rerecv s p t r ch)
  then show ?case by (cases p) (blast intro: system_ok_after_recv(1) system_okD(7))
next
  case (rerecv_behind s xs f ys t r ch)
  have "(fst f, snd f) \<in> recvs_in_flight s" using rerecv_behind(1) by (simp add: recvs_in_flight_def)
  then have "rx_alive (chan s)" by (rule system_ok_flight(6) [OF rerecv_behind.prems])
  then show ?case
    using rerecv_behind by (intro system_ok_after_recv(2) system_ok_behind(2)) simp_all
next
  case (try_recv s r ch)
  show ?case
  proof (cases r)
    case None
    with try_recv have "ch = chan s"
      using clear_head(3) [OF system_okD(1) [OF try_recv.prems]]
      by (auto simp: try_recv_def pop_def Let_def split: if_splits)
    with try_recv None show ?thesis by simp
  next
    case (Some x)
    with try_recv show ?thesis using system_ok_received(2) by (simp add: try_recv_def)
  qed
qed (blast intro: system_ok_unpark system_ok_behind system_ok_drop_sender system_ok_drop_receiver)+

lemma split_new:
  assumes new: "channel_new N S = Some ch" and sp: "split ch = Some (i, ch')"
  shows "i = 0" "ring_ok ch'" "ids_ok ch'" "contents ch' = []" "live_ids ch' = {0}" "rx_alive ch'"
proof -
  let ?c = "ch\<lparr>rx_alive := True, tx_ids := 0\<rparr>"
  have ids: "ids_ok ?c" "live_ids ?c = {}"
    using new by (auto simp: channel_new_def ids_ok_def live_ids_def split: if_splits)
  have al: "alloc_tx ?c = Some (i, ch')" using sp by (simp add: split_def)
  note got = alloc_tx_Some [OF ids(1) al]
  show "i = 0" using got(5) [of 0] ids(2) by (cases i) auto
  then show "live_ids ch' = {0}" using got(4) ids(2) by simp
  show "ids_ok ch'" using ids.alloc_fresh [OF ids(1) al] by simp
  have same: "slots ch' = slots ch" "head ch' = head ch" "len ch' = len ch" "rx_alive ch'"
    by (simp_all add: got(3))
  show "ring_ok ch'" "contents ch' = []" "rx_alive ch'"
    using channel_new_ok [OF new] contents_frame [OF same(1-3)] same(4) by simp_all
qed

lemma chan_reach_ok: "chan_reach N S s \<Longrightarrow> system_ok s"
proof (induction rule: chan_reach.induct)
  case (start ch i ch')
  note new = split_new [OF start]
  show ?case
    by (rule system_okI) (simp_all add: system_start_def sends_in_flight_def recvs_in_flight_def new)
next
  case (step s s')
  then show ?case by (blast intro: chan_step_ok)
qed

end
