(* ===== verification/Channel_Properties.thy ===== *)
theory Channel_Properties
  imports Zc_Channel_Async
begin

text \<open>
  The properties of the channel, each with a run of a concrete channel as its witness: the
  ring is the abstract bounded queue, delivery is complete and in order in every reachable
  state, no wakeup of the future that registered last on its handle is lost, the two sides cannot
  wait for each other, the end of the stream and the limit on senders are reported exactly when they
  are reached.
\<close>

subsection \<open>Sizes never change\<close>

lemma poll_sizes:
  assumes "send_poll ch i t (Some v) = Some (r, v', ch')"
  shows "ring_size ch' = ring_size ch \<and> sender_limit ch' = sender_limit ch"
  using assms by (auto simp: send_poll_def push_def Let_def split: if_splits prod.splits)

lemma recv_sizes:
  assumes "recv_poll ch t = (r, ch')"
  shows "ring_size ch' = ring_size ch \<and> sender_limit ch' = sender_limit ch"
  using assms by (auto simp: recv_poll_def pop_def Let_def split: if_splits option.splits prod.splits)

lemma chan_after [simp]:
  "chan (after_send s i t v r ch) = ch" "chan (after_other_send s i t v r ch) = ch"
  "chan (after_recv s t q ch) = ch" "chan (after_other_recv s t q ch) = ch"
  by (simp_all add: after_send_def after_other_send_def after_recv_def after_other_recv_def
      split: poll.split)

lemma step_sizes:
  "chan_step s s' \<Longrightarrow> ring_size (chan s') = ring_size (chan s) \<and>
     sender_limit (chan s') = sender_limit (chan s)"
proof (induction rule: chan_step.induct)
  case (try_send i s v r ch)
  then show ?case by (auto simp: try_send_def push_def Let_def split: if_splits)
next
  case (clone i s r ch)
  then show ?case by (auto simp: try_clone_def alloc_tx_def Let_def split: option.splits if_splits)
next
  case (try_recv s r ch)
  then show ?case by (auto simp: try_recv_def pop_def Let_def split: if_splits)
qed (simp_all add: poll_sizes recv_sizes drop_sender_def drop_receiver_def Let_def)

lemma reach_sizes: "chan_reach N S s \<Longrightarrow> ring_size (chan s) = N \<and> sender_limit (chan s) = S"
proof (induction rule: chan_reach.induct)
  case (start ch i ch')
  then show ?case
    by (auto simp: system_start_def channel_new_def split_def alloc_tx_def Let_def split: if_splits)
next
  case (step s s')
  then show ?case using step_sizes by metis
qed

subsection \<open>A run to test the properties on\<close>

text \<open>A channel of capacity 1 with at most 2 senders, after \<open>split\<close>, in four situations.\<close>

definition run0 :: "nat system" where
  "run0 = system_start
     \<lparr>slots = [None], head = 0, len = 0, rx_waker = None, tx_wakers = [None, None], tx_ids = 1,
      rx_alive = True, wake_log = []\<rparr>"

definition run_full :: "nat system" where
  "run_full = run0\<lparr>chan := (chan run0)\<lparr>slots := [Some 7], len := 1\<rparr>, sent := [7]\<rparr>"

definition run_parked :: "nat system" where
  "run_parked = run_full\<lparr>chan := (chan run_full)\<lparr>tx_wakers := [Some 3, None]\<rparr>,
     tx_parked := [0 \<mapsto> (3, 8, 0)], tx_last := [0 \<mapsto> 3]\<rparr>"

definition run_rx :: "nat system" where
  "run_rx = run0\<lparr>chan := (chan run0)\<lparr>rx_waker := Some 5\<rparr>, rx_parked := Some (5, 0),
     rx_last := Some 5\<rparr>"

lemmas run_defs = run_rx_def run_parked_def run_full_def run0_def system_start_def

lemma trailing_zeros_1: "trailing_zeros 1 = 0"
  by (rule trailing_zeros_lowest) (auto simp: bit_simps)

lemma trailing_zeros_odd: "bit w 0 \<Longrightarrow> trailing_zeros w = 0"
  by (rule trailing_zeros_lowest) auto

lemma run0_reach: "chan_reach 1 2 run0"
proof -
  have "channel_new 1 2 = Some (chan run0\<lparr>rx_alive := False, tx_ids := 0\<rparr>)"
    by (simp add: channel_new_def run_defs numeral_2_eq_2)
  moreover have "split (chan run0\<lparr>rx_alive := False, tx_ids := 0\<rparr>) = Some (0, chan run0)"
    by (simp add: split_def alloc_tx_def run_defs all_ids_def trailing_zeros_odd bit_simps)
  ultimately have "chan_reach 1 2 (system_start (chan run0))" by (rule chan_reach.start)
  then show ?thesis by (simp add: run_defs)
qed

lemma run_full_reach: "chan_reach 1 2 run_full"
proof -
  have "chan_step run0 (after_other_send run0 0 3 7 (Ready (Inr ())) (chan run_full))"
    by (rule chan_step.send [where v' = None])
      (simp_all add: run_defs live_ids_def send_poll_def push_def wake_rx_def wake_def bit_simps)
  then have "chan_step run0 run_full" by (simp add: after_other_send_def run_defs)
  with run0_reach show ?thesis by (rule chan_reach.step)
qed

lemma run_parked_reach: "chan_reach 1 2 run_parked"
proof -
  have "chan_step run_full (after_other_send run_full 0 3 8 Pending (chan run_parked))"
    by (rule chan_step.send [where v' = "Some 8"])
      (simp_all add: run_defs live_ids_def send_poll_def push_def register_def bit_simps)
  then have "chan_step run_full run_parked" by (simp add: after_other_send_def run_defs)
  with run_full_reach show ?thesis by (rule chan_reach.step)
qed

lemma run_rx_reach: "chan_reach 1 2 run_rx"
proof -
  have "chan_step run0 (after_other_recv run0 5 Pending (chan run_rx))"
    by (rule chan_step.recv)
      (simp_all add: run_defs recv_poll_def pop_def tx_alive_def register_def)
  then have "chan_step run0 run_rx" by (simp add: after_other_recv_def run_defs)
  with run0_reach show ?thesis by (rule chan_reach.step)
qed

subsection \<open>Properties\<close>

text \<open>The tasks an operation wakes: what it appends to the wake log.\<close>

abbreviation woken_by :: "'t channel \<Rightarrow> 't channel \<Rightarrow> task set" where
  "woken_by ch ch' \<equiv> set (drop (List.length (wake_log ch)) (wake_log ch'))"

text \<open>C1: in every reachable state of a channel, whatever the interleaving of sends, polls,
  cancellations, clones and drops, the values that senders were told were accepted are exactly
  those the receiver got, in the same order, followed by those still in the ring, and the ring
  never holds more than its capacity.\<close>

theorem channel_delivers_in_order:
  assumes "chan_reach N S s"
  shows "sent s = received s @ contents (chan s) \<and> List.length (contents (chan s)) \<le> N"
proof -
  have "system_ok s" using assms by (rule chan_reach_ok)
  with reach_sizes [OF assms] show ?thesis
    using system_okD(1,3) [of s] by (auto simp: ring_ok_def)
qed

theorem channel_delivers_in_order_witness:
  "chan_reach 1 2 run_full \<and> sent run_full = received run_full @ contents (chan run_full) \<and>
   contents (chan run_full) = [7]"
  using channel_delivers_in_order [OF run_full_reach] run_full_reach
  by (simp add: contents_def run_defs)

text \<open>C2: a send in flight loses its wakeup only to a poll of another task on the same sender. Let
  any number of sends be in flight in a reachable state. Each belongs to a live sender; and if the
  poll that registered last on that sender was by its task, then since its own last poll its task has
  been woken, or its waker is in the sender's cell while the ring is full and the receiver is alive,
  so that the next pop or the drop of the receiver wakes it. The send that parked last on a sender is
  always in this case. (C9 shows what happens to the others.)\<close>

theorem sender_wakeup_not_lost:
  assumes "chan_reach N S s" and "(i, t, v, n) \<in> sends_in_flight s"
    and "tx_last s i = Some t \<or> tx_parked s i = Some (t, v, n)"
  shows "i \<in> live_ids (chan s) \<and>
    (t \<in> set (drop n (wake_log (chan s))) \<or>
     tx_wakers (chan s) ! i = Some t \<and> len (chan s) = N \<and> rx_alive (chan s) \<and>
     t \<in> woken_by (chan s) (snd (pop (chan s))) \<and> t \<in> woken_by (chan s) (drop_receiver (chan s)))"
proof -
  have ok: "system_ok s" using assms(1) by (rule chan_reach_ok)
  note size = reach_sizes [OF assms(1)] and flight = system_ok_flight [OF ok]
  have i: "i \<in> live_ids (chan s)" "i < sender_limit (chan s)" using flight(1,2) assms(2) by simp_all
  have "tx_last s i = Some t" using assms(3) flight(5) by blast
  with assms(2) have w: "tx_waits (chan s) i t n" by (rule flight(4))
  have "t \<in> woken_by (chan s) (snd (pop (chan s))) \<and> t \<in> woken_by (chan s) (drop_receiver (chan s))"
    if "tx_wakers (chan s) ! i = Some t" "len (chan s) = ring_size (chan s)"
    using that nth_in_occupied [OF i(2) that(1)] system_okD(1) [OF ok]
    by (auto simp: pop_def drop_receiver_def Let_def ring_ok_def)
  with w i size show ?thesis by (auto simp: tx_waits_def)
qed

theorem sender_wakeup_not_lost_witness:
  "chan_reach 1 2 run_parked \<and> (0, 3, 8, 0) \<in> sends_in_flight run_parked \<and>
   tx_last run_parked 0 = Some 3 \<and>
   0 \<in> live_ids (chan run_parked) \<and> 3 \<in> woken_by (chan run_parked) (snd (pop (chan run_parked)))"
proof -
  have p: "(0, 3, 8, 0) \<in> sends_in_flight run_parked" "tx_last run_parked 0 = Some 3"
    by (simp_all add: run_defs sends_in_flight_def)
  have "wake_log (chan run_parked) = []" by (simp add: run_defs)
  then show ?thesis
    using sender_wakeup_not_lost [OF run_parked_reach p(1) disjI1 [OF p(2)]] run_parked_reach p by simp
qed

text \<open>C3: a receive in flight loses its wakeup only to a poll of another receive by another task. Let
  any number of receives be in flight in a reachable state. If the poll that registered last was by
  the task of a receive, then since its own last poll that task has been woken, or its waker is
  registered while the ring is empty and a sender is alive; then the next accepted push and the drop
  of the last sender wake it. The receive that parked last is always in this case. (C29 shows what
  happens to the others.)\<close>

theorem receiver_wakeup_not_lost:
  assumes "chan_reach N S s" and "(t, n) \<in> recvs_in_flight s"
    and "rx_last s = Some t \<or> rx_parked s = Some (t, n)"
  shows "t \<in> set (drop n (wake_log (chan s))) \<or>
     rx_waker (chan s) = Some t \<and> contents (chan s) = [] \<and> tx_alive (chan s) \<and>
     t \<in> woken_by (chan s) (snd (push (chan s) v)) \<and>
     (live_ids (chan s) = {i} \<longrightarrow> t \<in> woken_by (chan s) (drop_sender (chan s) i))"
proof -
  have ok: "system_ok s" using assms(1) by (rule chan_reach_ok)
  note flight = system_ok_flight [OF ok]
  have "rx_last s = Some t" using assms(3) flight(9) by blast
  with assms(2) have w: "rx_waits (chan s) t n" by (rule flight(8))
  have "t \<in> woken_by (chan s) (snd (push (chan s) v))"
    if "rx_waker (chan s) = Some t" "len (chan s) = 0"
    using that system_okD(1) [OF ok] by (auto simp: push_def Let_def ring_ok_def)
  moreover have "t \<in> woken_by (chan s) (drop_sender (chan s) i)"
    if "rx_waker (chan s) = Some t" "live_ids (chan s) = {i}"
  proof -
    have "\<not> tx_alive (drop_sender (chan s) i)"
      using that(2) by (simp add: tx_alive_iff drop_sender_ids)
    then show ?thesis using that(1) by (auto simp: drop_sender_def Let_def tx_alive_def split: if_splits)
  qed
  ultimately show ?thesis using w by (auto simp: rx_waits_def)
qed

theorem receiver_wakeup_not_lost_witness:
  "chan_reach 1 2 run_rx \<and> (5, 0) \<in> recvs_in_flight run_rx \<and> rx_last run_rx = Some 5 \<and>
   5 \<in> woken_by (chan run_rx) (snd (push (chan run_rx) 9))"
proof -
  have p: "(5, 0) \<in> recvs_in_flight run_rx" "rx_last run_rx = Some 5"
    by (simp_all add: run_defs recvs_in_flight_def)
  have "wake_log (chan run_rx) = []" by (simp add: run_defs)
  then show ?thesis
    using receiver_wakeup_not_lost [OF run_rx_reach p(1) disjI1 [OF p(2)], of 9 0] run_rx_reach p by simp
qed

text \<open>The two sides of the channel cannot wait for each other: in a reachable state where a
  sender and the receiver are both parked, one of the two tasks has been woken since its last
  poll.\<close>

theorem no_mutual_wait:
  assumes "chan_reach N S s" and "tx_parked s i = Some (t, v, n)" and "rx_parked s = Some (u, m)"
  shows "t \<in> set (drop n (wake_log (chan s))) \<or> u \<in> set (drop m (wake_log (chan s)))"
proof -
  have ok: "system_ok s" using assms(1) by (rule chan_reach_ok)
  have "0 < ring_size (chan s)" using system_okD(1) [OF ok] by (simp add: ring_ok_def)
  with system_okD(6) [OF ok assms(2)] system_okD(8) [OF ok assms(3)] show ?thesis
    by (auto simp: tx_waits_def rx_waits_def)
qed

text \<open>The receiver parks, sender 0 fills the ring (waking it) and parks on a second value.\<close>

definition run_both :: "nat system" where
  "run_both = run_rx\<lparr>chan := (chan run_rx)\<lparr>slots := [Some 7], len := 1, rx_waker := None,
       wake_log := [5], tx_wakers := [Some 3, None]\<rparr>,
     sent := [7], tx_parked := [0 \<mapsto> (3, 8, 1)], tx_last := [0 \<mapsto> 3]\<rparr>"

lemma run_both_reach: "chan_reach 1 2 run_both"
proof -
  define mid where "mid = run_rx\<lparr>chan := (chan run_rx)\<lparr>slots := [Some 7], len := 1, rx_waker := None,
       wake_log := [5]\<rparr>, sent := [7]\<rparr>"
  have "chan_step run_rx (after_other_send run_rx 0 3 7 (Ready (Inr ())) (chan mid))"
    by (rule chan_step.send [where v' = None])
      (simp_all add: mid_def run_defs live_ids_def send_poll_def push_def wake_rx_def wake_def bit_simps)
  then have "chan_step run_rx mid" by (simp add: after_other_send_def run_defs mid_def)
  with run_rx_reach have mid: "chan_reach 1 2 mid" by (rule chan_reach.step)
  have "chan_step mid (after_other_send mid 0 3 8 Pending (chan run_both))"
    by (rule chan_step.send [where v' = "Some 8"])
      (simp_all add: mid_def run_both_def run_defs live_ids_def send_poll_def push_def register_def bit_simps)
  then have "chan_step mid run_both" by (simp add: after_other_send_def run_defs mid_def run_both_def)
  with mid show ?thesis by (rule chan_reach.step)
qed

theorem no_mutual_wait_witness:
  "chan_reach 1 2 run_both \<and> tx_parked run_both 0 = Some (3, 8, 1) \<and> rx_parked run_both = Some (5, 0) \<and>
   (5::nat) \<in> set (drop 0 (wake_log (chan run_both)))"
proof -
  have p: "tx_parked run_both 0 = Some (3, 8, 1)" "rx_parked run_both = Some (5, 0)"
    by (simp_all add: run_both_def run_defs)
  have "wake_log (chan run_both) = [5]" by (simp add: run_both_def run_defs)
  then show ?thesis
    using no_mutual_wait [OF run_both_reach p] run_both_reach p by simp
qed

text \<open>C5: the ring of slots implements the abstract bounded queue. Any sequence of pushes and pops
  on a well-formed channel returns, operation by operation, what the list-based queue of the
  same capacity returns, and ends in a well-formed ring that holds the list's values.\<close>

theorem ring_refines_queue:
  assumes "ring_ok ch" and "run_queue push pop ch ops = (rs, ch')"
  shows "queue_spec (ring_size ch) (contents ch) ops = (rs, contents ch') \<and> ring_ok ch' \<and>
    ring_size ch' = ring_size ch"
  using assms by (rule fifo.run_refines)

theorem ring_refines_queue_witness:
  "ring_ok (chan run0) \<and>
   fst (run_queue push pop (chan run0) [Enq 1, Enq 2, Deq, Enq 3, Deq, Deq]) =
     [Accepted, Rejected 2, Delivered 1, Accepted, Delivered 3, Nothing]"
proof -
  have ok: "ring_ok (chan run0)" by (simp add: ring_ok_def run_defs)
  obtain rs ch' where run: "run_queue push pop (chan run0) [Enq 1, Enq 2, Deq, Enq 3, Deq, Deq] = (rs, ch')"
    by (meson surj_pair)
  have size: "ring_size (chan run0) = 1" "contents (chan run0) = []"
    by (simp_all add: run_defs contents_def)
  have "queue_spec 1 [] [Enq 1, Enq 2, Deq, Enq 3, Deq, Deq] = (rs, contents ch')"
    using ring_refines_queue [OF ok run] unfolding size by (rule conjunct1)
  then have "rs = [Accepted, Rejected 2, Delivered 1, Accepted, Delivered 3, Nothing]" by simp
  then show ?thesis using ok unfolding run by simp
qed

text \<open>C6: a receive reports the end of the stream exactly when it is over: in a reachable state, a
  poll of \<open>recv\<close> returns \<open>None\<close> if and only if every accepted value has been received and no
  sender is alive.\<close>

theorem recv_end_iff_closed:
  assumes "chan_reach N S s"
  shows "fst (recv_poll (chan s) t) = Ready None \<longleftrightarrow> sent s = received s \<and> live_ids (chan s) = {}"
proof -
  have ok: "system_ok s" using assms by (rule chan_reach_ok)
  obtain r ch where poll: "recv_poll (chan s) t = (r, ch)" by (meson surj_pair)
  have all: "sent s = received s \<longleftrightarrow> contents (chan s) = []" using system_okD(3) [OF ok] by simp
  show ?thesis
    unfolding poll fst_conv all using system_okD(1) [OF ok] poll
    by (cases rule: recv_poll_cases) (auto simp: tx_alive_iff)
qed

theorem recv_end_iff_closed_witness:
  "chan_reach 1 2 run0 \<and> fst (recv_poll (chan run0) 5) \<noteq> Ready None \<and>
   chan_reach 1 2 (run0\<lparr>chan := drop_sender (chan run0) 0\<rparr>) \<and>
   fst (recv_poll (chan (run0\<lparr>chan := drop_sender (chan run0) 0\<rparr>)) 5) = Ready None"
proof -
  have live: "0 \<in> live_ids (chan run0)" "live_ids (chan run0) = {0}"
    by (auto simp: live_ids_def run_defs bit_simps)
  have "chan_step run0 (run0\<lparr>chan := drop_sender (chan run0) 0\<rparr>)"
    by (rule chan_step.drop_tx [OF live(1)]) (simp_all add: run_defs)
  with run0_reach have dropped: "chan_reach 1 2 (run0\<lparr>chan := drop_sender (chan run0) 0\<rparr>)"
    by (rule chan_reach.step)
  have "sent run0 = []" "received run0 = []" by (simp_all add: run_defs)
  then show ?thesis
    using recv_end_iff_closed [OF run0_reach, of 5] recv_end_iff_closed [OF dropped, of 5] live
      run0_reach dropped by (simp add: drop_sender_ids)
qed

text \<open>C7: \<open>try_clone\<close> gives out a sender id below the limit that no live sender has, and refuses
  exactly when \<open>S\<close> senders are alive; nothing but the id mask changes. \<open>clone\<close> panics in
  exactly those states.\<close>

theorem clone_gives_fresh_id:
  assumes "chan_reach N S s"
  shows "case try_clone (chan s) of
      (Some i, ch) \<Rightarrow> i < S \<and> i \<notin> live_ids (chan s) \<and> live_ids ch = insert i (live_ids (chan s)) \<and>
        ch = (chan s)\<lparr>tx_ids := tx_ids ch\<rparr> \<and> card (live_ids (chan s)) < S \<and> clone (chan s) = Some (i, ch)
    | (None, ch) \<Rightarrow> ch = chan s \<and> card (live_ids (chan s)) = S \<and> clone (chan s) = None"
proof -
  have ok: "ids_ok (chan s)" using chan_reach_ok [OF assms] by (rule system_okD)
  note size = reach_sizes [OF assms]
  have room: "alloc_tx (chan s) \<noteq> None \<longleftrightarrow> card (live_ids (chan s)) < S"
    using ids.alloc_iff_room [OF ok] size by simp
  have most: "card (live_ids (chan s)) \<le> S" using ids.card_live [OF ok] size by simp
  show ?thesis
  proof (cases "alloc_tx (chan s)")
    case None
    with room most show ?thesis by (simp add: try_clone_def clone_def)
  next
    case (Some r)
    obtain i ch where r: "r = (i, ch)" by (cases r)
    note got = alloc_tx_Some [OF ok Some [unfolded r]]
    have "ch = (chan s)\<lparr>tx_ids := tx_ids ch\<rparr>" by (simp add: got(3))
    with room got(1,2,4) size Some r show ?thesis by (auto simp: try_clone_def clone_def)
  qed
qed

theorem clone_gives_fresh_id_witness:
  "chan_reach 1 2 run0 \<and> card (live_ids (chan run0)) < 2 \<and> fst (try_clone (chan run0)) = Some 1"
proof -
  have live: "live_ids (chan run0) = {0}" by (auto simp: live_ids_def run_defs bit_simps)
  obtain r ch where tc: "try_clone (chan run0) = (r, ch)" by (meson surj_pair)
  have "r \<noteq> None"
    using clone_gives_fresh_id [OF run0_reach] tc live by (auto split: option.splits)
  then obtain i where i: "r = Some i" by auto
  with clone_gives_fresh_id [OF run0_reach] tc live have "i < 2" "i \<noteq> 0" by auto
  then have "i = 1" by simp
  with run0_reach tc i live show ?thesis by simp
qed



end
