(* ===== verification/Channel_Wakeups.thy ===== *)
theory Channel_Wakeups
  imports Channel_Properties
begin

text \<open>
  The wakeups that are lost. \<open>Sender::send\<close> and \<open>Receiver::recv\<close> take \<open>&self\<close>, so several futures can be
  in flight on one handle, but the handle has one waker cell, which every poll that parks
  overwrites. A step wakes registered tasks only; so a task whose waker was overwritten sleeps on,
  whatever happens to the channel, until it polls again of its own accord.
\<close>

subsection \<open>The registered tasks\<close>

definition registered :: "'t channel \<Rightarrow> task set" where
  "registered ch = {t. Some t \<in> set (tx_wakers ch) \<or> rx_waker ch = Some t}"

text \<open>What one operation adds to the wake log, and that only registered tasks are in it.\<close>

definition wakes :: "'t channel \<Rightarrow> 't channel \<Rightarrow> bool" where
  "wakes ch ch' \<longleftrightarrow> (\<exists>ws. wake_log ch' = wake_log ch @ ws \<and> set ws \<subseteq> registered ch)"

lemma wakes_same: "wake_log ch' = wake_log ch \<Longrightarrow> wakes ch ch'"
  by (simp add: wakes_def)

lemma occupied_registered: "set (occupied (tx_wakers ch)) \<subseteq> registered ch"
  by (auto simp: occupied_def registered_def map_filter_def)

lemma wakes_push: "push ch v = (r, ch') \<Longrightarrow> wakes ch ch'"
  by (auto simp: push_def wakes_def registered_def Let_def split: if_splits option.splits)

lemma wakes_pop: "pop ch = (r, ch') \<Longrightarrow> wakes ch ch'"
  using occupied_registered [of ch] by (auto simp: pop_def wakes_def Let_def split: if_splits)

lemma wakes_send: "send_poll ch i t (Some v) = Some (r, v', ch') \<Longrightarrow> wakes ch ch'"
  using wakes_push [of ch v] wakes_same [of ch ch]
  by (fastforce simp: send_poll_def wakes_def split: if_splits prod.splits sum.splits)

lemma wakes_recv: "recv_poll ch t = (r, ch') \<Longrightarrow> wakes ch ch'"
  using wakes_pop [of ch]
  by (fastforce simp: recv_poll_def wakes_def split: if_splits prod.splits option.splits)

lemma wakes_try:
  "try_send ch v = (q, ch') \<Longrightarrow> wakes ch ch'" "try_recv ch = (r, ch') \<Longrightarrow> wakes ch ch'"
  "try_clone ch = (u, ch') \<Longrightarrow> wakes ch ch'"
  using wakes_push [of ch v q ch'] wakes_pop [of ch r ch'] wakes_same [of ch ch]
  by (auto simp: try_send_def try_recv_def try_clone_def alloc_tx_def Let_def wakes_same
      split: if_splits option.splits)

lemma wakes_drop: "wakes ch (drop_sender ch i)" "wakes ch (drop_receiver ch)"
proof -
  show "wakes ch (drop_sender ch i)"
    by (auto simp: drop_sender_def wakes_def registered_def Let_def split: option.splits)
  show "wakes ch (drop_receiver ch)"
    using occupied_registered [of ch] by (auto simp: drop_receiver_def wakes_def)
qed

lemma step_wakes: "chan_step s s' \<Longrightarrow> wakes (chan s) (chan s')"
  by (induction rule: chan_step.induct)
    (simp_all add: wakes_send wakes_recv wakes_try wakes_drop wakes_same)

lemma overwritten_cell:
  assumes "Some t \<in> set (ws[i := Some t'])" and "t' \<noteq> t"
  shows "Some t \<in> set (ws[i := None])"
proof -
  obtain j where j: "j < List.length ws" "ws[i := Some t'] ! j = Some t"
    using assms(1) by (auto simp: in_set_conv_nth)
  then have "j \<noteq> i" using assms(2) by auto
  then have "ws[i := None] ! j = Some t" using j by simp
  then show ?thesis using j(1) by (metis length_list_update nth_mem)
qed

text \<open>A run during which task \<open>t\<close> is not registered: as long as it does not poll a future that parks.\<close>

abbreviation runs_without :: "task \<Rightarrow> 't system \<Rightarrow> 't system \<Rightarrow> bool" where
  "runs_without t \<equiv> (\<lambda>s s'. chan_step s s' \<and> t \<notin> registered (chan s'))\<^sup>*\<^sup>*"

lemma asleep_forever:
  assumes "runs_without t s s'" and "t \<notin> registered (chan s)"
    and "n \<le> List.length (wake_log (chan s))" and "t \<notin> set (drop n (wake_log (chan s)))"
  shows "t \<notin> set (drop n (wake_log (chan s')))"
proof -
  have "t \<notin> registered (chan s') \<and> n \<le> List.length (wake_log (chan s')) \<and>
      t \<notin> set (drop n (wake_log (chan s')))"
    using assms
  proof (induction rule: rtranclp_induct)
    case (step s1 s2)
    then have "wakes (chan s1) (chan s2)" using step_wakes by blast
    then show ?case using step by (auto simp: wakes_def)
  qed simp
  then show ?thesis by blast
qed

subsection \<open>Properties\<close>

text \<open>C9: a second send on one sender loses the first one's wakeup. Let a send of task \<open>t\<close> be parked
  on sender \<open>i\<close> in a reachable state, not woken since, and let \<open>t\<close> be registered nowhere but in the
  sender's cell. Another task \<open>t'\<close> polls a second send on the same sender: it parks too and takes
  the cell. The next receive, by any task, makes room and wakes \<open>t'\<close>; but \<open>t\<close> was not woken and is
  registered nowhere, although its send is in flight and the receiver alive. It is never woken again,
  whatever happens to the channel, unless it polls without having been woken.\<close>

theorem second_send_loses_wakeup:
  assumes reach: "chan_reach N S s" and parked: "tx_parked s i = Some (t, v, n)"
    and asleep: "t \<notin> set (drop n (wake_log (chan s)))"
    and only: "t \<notin> registered ((chan s)\<lparr>tx_wakers := (tx_wakers (chan s))[i := None]\<rparr>)"
    and other: "t' \<noteq> t"
  shows "\<exists>ch1 x ch2 s2.
    send_poll (chan s) i t' (Some w) = Some (Pending, Some w, ch1) \<and>
    recv_poll ch1 u = (Ready (Some x), ch2) \<and>
    s2 = after_other_recv (after_other_send s i t' w Pending ch1) u (Ready (Some x)) ch2 \<and>
    chan_reach N S s2 \<and> (i, t, v, n) \<in> sends_in_flight s2 \<and> rx_alive (chan s2) \<and>
    len (chan s2) < N \<and> t' \<in> woken_by ch1 (chan s2) \<and> t \<notin> registered (chan s2) \<and>
    (\<forall>s3. runs_without t s2 s3 \<longrightarrow> t \<notin> set (drop n (wake_log (chan s3))))"
proof -
  have ok: "system_ok s" using reach by (rule chan_reach_ok)
  note size = reach_sizes [OF reach] and ring = system_okD(1) [OF ok]
  have live: "i \<in> live_ids (chan s)" and lim: "i < sender_limit (chan s)"
    and full: "len (chan s) = ring_size (chan s)" and alive: "rx_alive (chan s)"
    and n: "n \<le> List.length (wake_log (chan s))"
    using system_okD(4-6) [OF ok parked] asleep by (simp_all add: tx_waits_def)
  define ch1 where "ch1 = (chan s)\<lparr>tx_wakers := (tx_wakers (chan s))[i := Some t']\<rparr>"
  define s1 where "s1 = after_other_send s i t' w Pending ch1"
  have send: "send_poll (chan s) i t' (Some w) = Some (Pending, Some w, ch1)"
    using full alive by (simp add: send_poll_def push_full ch1_def)
  have reach1: "chan_reach N S s1"
    unfolding s1_def using chan_step.send [OF live send] by (rule chan_reach.step [OF reach])
  have ok1: "system_ok s1" using reach1 by (rule chan_reach_ok)
  have s1: "chan s1 = ch1" by (simp add: s1_def)
  have "0 < len ch1" using full ring by (simp add: ch1_def ring_ok_def)
  then obtain x xs where xs: "contents ch1 = x # xs" by (cases "contents ch1") simp_all
  have ring1: "ring_ok ch1" using system_okD(1) [OF ok1] by (simp add: s1)
  from pop_some [OF ring1 xs] obtain ch2 where pop: "pop ch1 = (Some x, ch2)" by blast
  have recv: "recv_poll ch1 u = (Ready (Some x), ch2)" by (simp add: recv_poll_def pop)
  define s2 where "s2 = after_other_recv s1 u (Ready (Some x)) ch2"
  have s2: "chan s2 = ch2" by (simp add: s2_def)
  have reach2: "chan_reach N S s2"
    unfolding s2_def using chan_step.recv [of s1 u] alive recv
    by (intro chan_reach.step [OF reach1]) (simp add: s1 ch1_def)
  have flight: "(i, t, v, n) \<in> sends_in_flight s2"
    using parked by (simp add: s2_def s1_def after_other_recv_def after_other_send_def sends_in_flight_def)
  note frame = pop_frame [OF pop]
  have room: "rx_alive ch2 \<and> len ch2 < N"
  proof -
    have "contents ch1 = x # contents ch2"
      using pop_contents [OF ring1 pop] by blast
    from arg_cong [OF this, of List.length] have "len ch1 = Suc (len ch2)" by simp
    then show ?thesis using full size alive by (simp add: frame ch1_def)
  qed
  have t': "t' \<in> woken_by ch1 ch2" using nth_in_occupied [of i "tx_wakers ch1" t'] lim by (simp add: frame ch1_def)
  have cell: "t \<notin> registered ch1"
    using overwritten_cell [OF _ other] only by (auto simp: registered_def ch1_def)
  then have gone: "t \<notin> registered ch2" by (auto simp: registered_def frame)
  have "t \<notin> set (drop n (wake_log ch2))" "n \<le> List.length (wake_log ch2)"
    using wakes_pop [OF pop] cell asleep n by (auto simp: wakes_def ch1_def)
  then have never: "\<forall>s3. runs_without t s2 s3 \<longrightarrow> t \<notin> set (drop n (wake_log (chan s3)))"
    using asleep_forever [of t s2] gone unfolding s2 by blast
  show ?thesis
    using send recv reach2 flight room t' gone never
    by (intro exI [of _ ch1] exI [of _ x] exI [of _ ch2] exI [of _ s2]) (simp add: s2 s2_def [symmetric] s1_def [symmetric])
qed

theorem second_send_loses_wakeup_witness:
  "chan_reach 1 2 run_parked \<and> tx_parked run_parked 0 = Some (3, 8, 0) \<and>
   (\<exists>s2 :: nat system. chan_reach 1 2 s2 \<and> (0, 3, 8, 0) \<in> sends_in_flight s2 \<and> len (chan s2) < 1 \<and>
      rx_alive (chan s2) \<and> 3 \<notin> registered (chan s2) \<and> 3 \<notin> set (wake_log (chan s2)))"
proof -
  have p: "tx_parked run_parked 0 = Some (3, 8, 0)" "3 \<notin> set (drop 0 (wake_log (chan run_parked)))"
    "3 \<notin> registered ((chan run_parked)\<lparr>tx_wakers := (tx_wakers (chan run_parked))[0 := None]\<rparr>)"
    by (simp_all add: run_defs registered_def)
  obtain s2 :: "nat system" where s2: "chan_reach 1 2 s2" "(0, 3, 8, 0) \<in> sends_in_flight s2" "len (chan s2) < 1"
      "rx_alive (chan s2)" "3 \<notin> registered (chan s2)"
      "\<forall>s3. runs_without 3 s2 s3 \<longrightarrow> 3 \<notin> set (drop 0 (wake_log (chan s3)))"
    using second_send_loses_wakeup [OF run_parked_reach p, of 4 9 5] by auto
  from s2(6) have "3 \<notin> set (drop 0 (wake_log (chan s2)))" by (rule allE) (erule mp, rule rtranclp.rtrancl_refl)
  then show ?thesis using s2(1-5) p(1) run_parked_reach by auto
qed

text \<open>C29: a second receive loses the first one's wakeup. Let a receive of task \<open>t\<close> be parked in a
  reachable state, not woken since, and let \<open>t\<close> be registered nowhere but in the receiver's cell.
  Another task \<open>t'\<close> polls a second receive: it parks too and takes the cell. The next value, which any
  live sender sends, is accepted and wakes \<open>t'\<close>; but \<open>t\<close> was not woken and is registered nowhere,
  although its receive is in flight and the value waits in the ring. It is never woken again,
  whatever happens to the channel, unless it polls without having been woken.\<close>

theorem second_recv_loses_wakeup:
  assumes reach: "chan_reach N S s" and parked: "rx_parked s = Some (t, n)"
    and asleep: "t \<notin> set (drop n (wake_log (chan s)))"
    and only: "t \<notin> registered ((chan s)\<lparr>rx_waker := None\<rparr>)"
    and other: "t' \<noteq> t" and live: "i \<in> live_ids (chan s)"
  shows "\<exists>ch1 ch2 s2.
    recv_poll (chan s) t' = (Pending, ch1) \<and>
    send_poll ch1 i u (Some x) = Some (Ready (Inr ()), None, ch2) \<and>
    s2 = after_other_send (after_other_recv s t' Pending ch1) i u x (Ready (Inr ())) ch2 \<and>
    chan_reach N S s2 \<and> (t, n) \<in> recvs_in_flight s2 \<and> contents (chan s2) = [x] \<and>
    t' \<in> woken_by ch1 (chan s2) \<and> t \<notin> registered (chan s2) \<and>
    (\<forall>s3. runs_without t s2 s3 \<longrightarrow> t \<notin> set (drop n (wake_log (chan s3))))"
proof -
  have ok: "system_ok s" using reach by (rule chan_reach_ok)
  have alive: "rx_alive (chan s)" and empty: "len (chan s) = 0" "tx_alive (chan s)"
    and n: "n \<le> List.length (wake_log (chan s))"
    using system_okD(7,8) [OF ok parked] asleep by (simp_all add: rx_waits_def)
  define ch1 where "ch1 = (chan s)\<lparr>rx_waker := Some t'\<rparr>"
  define s1 where "s1 = after_other_recv s t' Pending ch1"
  have recv: "recv_poll (chan s) t' = (Pending, ch1)"
    using empty by (simp add: recv_poll_def pop_empty ch1_def)
  have reach1: "chan_reach N S s1"
    unfolding s1_def using chan_step.recv [OF alive recv] by (rule chan_reach.step [OF reach])
  have s1: "chan s1 = ch1" by (simp add: s1_def)
  have ring1: "ring_ok ch1" using system_okD(1) [OF chan_reach_ok [OF reach1]] by (simp add: s1)
  have "len ch1 < ring_size ch1" using ring1 empty by (simp add: ch1_def ring_ok_def)
  from push_room [OF ring1 this] obtain ch2 where push: "push ch1 x = (Inr (), ch2)" by blast
  have alive1: "rx_alive ch1" using alive by (simp add: ch1_def)
  have send: "send_poll ch1 i u (Some x) = Some (Ready (Inr ()), None, ch2)"
    using alive1 by (simp add: send_poll_def push)
  define s2 where "s2 = after_other_send s1 i u x (Ready (Inr ())) ch2"
  have s2: "chan s2 = ch2" by (simp add: s2_def)
  have live1: "i \<in> live_ids (chan s1)" using live by (simp add: s1 ch1_def live_ids_def)
  have reach2: "chan_reach N S s2"
    unfolding s2_def using send by (intro chan_reach.step [OF reach1] chan_step.send [OF live1]) (simp add: s1)
  have flight: "(t, n) \<in> recvs_in_flight s2"
    using parked by (simp add: s2_def s1_def after_other_recv_def after_other_send_def recvs_in_flight_def)
  have "contents ch1 = []" using empty by (simp add: ch1_def)
  then have ring2: "contents ch2 = [x]" using push_contents [OF ring1 push] by simp
  note frame = push_frame [OF push]
  have t': "t' \<in> woken_by ch1 ch2" by (simp add: frame ch1_def)
  have cell: "t \<notin> registered ch1" using only other by (simp add: registered_def ch1_def)
  then have gone: "t \<notin> registered ch2" by (simp add: registered_def frame)
  have "t \<notin> set (drop n (wake_log ch2))" "n \<le> List.length (wake_log ch2)"
    using wakes_push [OF push] cell asleep n by (auto simp: wakes_def ch1_def)
  then have never: "\<forall>s3. runs_without t s2 s3 \<longrightarrow> t \<notin> set (drop n (wake_log (chan s3)))"
    using asleep_forever [of t s2] gone unfolding s2 by blast
  show ?thesis
    using send recv reach2 flight ring2 t' gone never
    by (intro exI [of _ ch1] exI [of _ ch2] exI [of _ s2]) (simp add: s2 s2_def [symmetric] s1_def [symmetric])
qed

theorem second_recv_loses_wakeup_witness:
  "chan_reach 1 2 run_rx \<and> rx_parked run_rx = Some (5, 0) \<and>
   (\<exists>s2 :: nat system. chan_reach 1 2 s2 \<and> (5, 0) \<in> recvs_in_flight s2 \<and> contents (chan s2) = [9] \<and>
      5 \<notin> registered (chan s2) \<and> 5 \<notin> set (wake_log (chan s2)))"
proof -
  have p: "rx_parked run_rx = Some (5, 0)" "5 \<notin> set (drop 0 (wake_log (chan run_rx)))"
    "5 \<notin> registered ((chan run_rx)\<lparr>rx_waker := None\<rparr>)" "6 \<noteq> (5 :: nat)" "0 \<in> live_ids (chan run_rx)"
    by (simp_all add: run_defs registered_def live_ids_def bit_simps)
  obtain s2 :: "nat system" where s2: "chan_reach 1 2 s2" "(5, 0) \<in> recvs_in_flight s2" "contents (chan s2) = [9]"
      "5 \<notin> registered (chan s2)"
      "\<forall>s3. runs_without 5 s2 s3 \<longrightarrow> 5 \<notin> set (drop 0 (wake_log (chan s3)))"
    using second_recv_loses_wakeup [OF run_rx_reach p, of 3 9] by auto
  from s2(5) have "5 \<notin> set (drop 0 (wake_log (chan s2)))" by (rule allE) (erule mp, rule rtranclp.rtrancl_refl)
  then show ?thesis using s2(1-4) p(1) run_rx_reach by auto
qed

end
