(* ===== verification/Decimal_Ops.thy ===== *)
theory Decimal_Ops
  imports Engine_Prelude
begin

text \<open>
  The decimal numbers of the \<open>rust_decimal\<close> crate, which the repository uses and does not
  contain: a record of the operations the code calls, passed to every definition that calls
  them. An operation that panics returns \<open>None\<close>. Equality on the type variable is \<open>Decimal\<close>'s
  numeric equality, the one its \<open>Eq\<close> and \<open>Hash\<close> give to the keys of a map.
\<close>

record 'd decimal =
  dec_zero :: 'd
  dec_new :: "i64 \<Rightarrow> u32 \<Rightarrow> 'd option"
  dec_from_f64 :: "f64 \<Rightarrow> 'd option"
  dec_add :: "'d \<Rightarrow> 'd \<Rightarrow> 'd option"
  dec_sub :: "'d \<Rightarrow> 'd \<Rightarrow> 'd option"
  dec_saturating_add :: "'d \<Rightarrow> 'd \<Rightarrow> 'd"
  dec_saturating_sub :: "'d \<Rightarrow> 'd \<Rightarrow> 'd"
  dec_cmp :: "'d \<Rightarrow> 'd \<Rightarrow> ordering"

subsection \<open>Documented behaviour\<close>

text \<open>\<open>Decimal::new\<close>: "This function panics if \<open>scale\<close> is > 28".\<close>

definition new_panics_above_max_scale :: "'d decimal \<Rightarrow> bool" where
  "new_panics_above_max_scale D \<longleftrightarrow> (\<forall>n scale. 28 < scale \<longrightarrow> dec_new D n scale = None)"

subsection \<open>A concrete instance\<close>

text \<open>
  Amounts in hundredths, with a 96-bit magnitude: an instance on which the documented
  behaviour can be evaluated.
\<close>

definition cents_fit :: "int \<Rightarrow> int option" where
  "cents_fit n = (if \<bar>n\<bar> < 2 ^ 96 then Some n else None)"

definition cents_clamp :: "int \<Rightarrow> int" where
  "cents_clamp n = max (1 - 2 ^ 96) (min (2 ^ 96 - 1) n)"

definition cents :: "int decimal" where
  "cents = \<lparr>dec_zero = 0,
     dec_new = (\<lambda>n scale. if 28 < scale then None else cents_fit (sint n * 100 div 10 ^ unat scale)),
     dec_from_f64 = (\<lambda>x. case x of F64_Fin r \<Rightarrow> cents_fit \<lfloor>r * 100\<rfloor> | _ \<Rightarrow> None),
     dec_add = (\<lambda>a b. cents_fit (a + b)),
     dec_sub = (\<lambda>a b. cents_fit (a - b)),
     dec_saturating_add = (\<lambda>a b. cents_clamp (a + b)),
     dec_saturating_sub = (\<lambda>a b. cents_clamp (a - b)),
     dec_cmp = (\<lambda>a b. if a < b then Less else if a = b then Equal else Greater)\<rparr>"

lemmas cents_defs = cents_def cents_fit_def cents_clamp_def

lemma cents_new_panics: "new_panics_above_max_scale cents"
  by (simp add: new_panics_above_max_scale_def cents_def)

end
