(* ===== verification/Market_Objects.thy ===== *)
theory Market_Objects
  imports Decimal_Ops
begin

text \<open>
  The market messages of \<open>objs/market-objects/src\<close>: the depth update every component passes
  on, the Binance websocket and snapshot payloads of \<open>lib.rs\<close>, the older objects of
  \<open>binance.rs\<close> and \<open>local.rs\<close>, and their conversions to depth updates. Parsing JSON is
  \<open>serde_json\<close>'s work: it is an argument of the conversions that call it.
\<close>

subsection \<open>Depth updates\<close>

record 'd depth_update =
  du_k :: u8
  du_p :: 'd
  du_q :: 'd
  du_l :: u8
  du_s :: bool

definition depth_update_default :: "'d decimal \<Rightarrow> 'd depth_update" where
  "depth_update_default D =
     \<lparr>du_k = 0, du_p = dec_zero D, du_q = dec_zero D, du_l = 0, du_s = False\<rparr>"

text \<open>The comment above the struct: "k: 0 ask, 1 bid".\<close>

definition documented_ask :: "'d depth_update \<Rightarrow> bool" where
  "documented_ask u \<longleftrightarrow> du_k u = 0"

definition documented_bid :: "'d depth_update \<Rightarrow> bool" where
  "documented_bid u \<longleftrightarrow> du_k u = 1"

subsection \<open>Websocket messages\<close>

text \<open>The variants of tungstenite's \<open>Message\<close> that the code matches on.\<close>

datatype message = Text string | Binary bytes | Ping bytes | Pong bytes | Close | Frame bytes

text \<open>
  The three \<open>From<Message>\<close> implementations have the same body: text is parsed, and both a
  parse error (\<open>expect\<close>) and any other message panic.
\<close>

definition from_message :: "(string \<Rightarrow> 'e + 'a) \<Rightarrow> message \<Rightarrow> 'a option" where
  "from_message from_str m =
     (case m of Text t \<Rightarrow> (case from_str t of Inl _ \<Rightarrow> None | Inr x \<Rightarrow> Some x) | _ \<Rightarrow> None)"

subsection \<open>Binance payloads of \<open>lib.rs\<close>\<close>

record 'd ws_order_book_update_singleton =
  su_p :: 'd
  su_q :: 'd

record 'd ws_order_book_updates =
  wu_bids :: "'d ws_order_book_update_singleton list"
  wu_asks :: "'d ws_order_book_update_singleton list"

record 'd binance_depth_update =
  bd_price :: 'd
  bd_quantity :: 'd

record 'd ws_depth_update =
  wd_e :: string
  wd_E :: f64
  wd_s :: f64
  wd_U :: f64
  wd_u :: f64
  wd_b :: "'d binance_depth_update list"
  wd_a :: "'d binance_depth_update list"

record 'd http_snapshot =
  hs_retcode :: "i32 option"
  hs_lastUpdateId :: u64
  hs_asks :: "'d binance_depth_update list"
  hs_bids :: "'d binance_depth_update list"

definition ws_order_book_updates_from ::
  "(string \<Rightarrow> 'e + 'd ws_order_book_updates) \<Rightarrow> message \<Rightarrow> 'd ws_order_book_updates option" where
  "ws_order_book_updates_from from_str value = from_message from_str value"

definition ws_depth_update_from ::
  "(string \<Rightarrow> 'e + 'd ws_depth_update) \<Rightarrow> message \<Rightarrow> 'd ws_depth_update option" where
  "ws_depth_update_from from_str value = from_message from_str value"

definition binance_depth_update_default :: "'d decimal \<Rightarrow> 'd binance_depth_update" where
  "binance_depth_update_default D = \<lparr>bd_price = dec_zero D, bd_quantity = dec_zero D\<rparr>"

definition ws_depth_update_default :: "'d decimal \<Rightarrow> 'd ws_depth_update" where
  "ws_depth_update_default D =
     \<lparr>wd_e = '''', wd_E = F64_Fin 0, wd_s = F64_Fin 0, wd_U = F64_Fin 0, wd_u = F64_Fin 0,
      wd_b = [binance_depth_update_default D], wd_a = [binance_depth_update_default D]\<rparr>"

text \<open>The three \<open>depths\<close> methods: the bid updates first, then the ask updates.\<close>

definition ws_order_book_updates_depths ::
  "'d ws_order_book_updates \<Rightarrow> u8 \<Rightarrow> 'd depth_update list \<times> 'd depth_update list" where
  "ws_order_book_updates_depths w location =
     (map (\<lambda>u. \<lparr>du_k = 0, du_p = su_p u, du_q = su_q u, du_l = location, du_s = False\<rparr>) (wu_bids w),
      map (\<lambda>u. \<lparr>du_k = 1, du_p = su_p u, du_q = su_q u, du_l = location, du_s = False\<rparr>) (wu_asks w))"

definition ws_depth_update_depths ::
  "'d ws_depth_update \<Rightarrow> u8 \<Rightarrow> 'd depth_update list \<times> 'd depth_update list" where
  "ws_depth_update_depths w location =
     (map (\<lambda>u. \<lparr>du_k = 0, du_p = bd_price u, du_q = bd_quantity u, du_l = location, du_s = False\<rparr>) (wd_b w),
      map (\<lambda>u. \<lparr>du_k = 1, du_p = bd_price u, du_q = bd_quantity u, du_l = location, du_s = False\<rparr>) (wd_a w))"

definition http_snapshot_depths ::
  "'d http_snapshot \<Rightarrow> u8 \<Rightarrow> 'd depth_update list \<times> 'd depth_update list" where
  "http_snapshot_depths h location =
     (map (\<lambda>u. \<lparr>du_k = 0, du_p = bd_price u, du_q = bd_quantity u, du_l = location, du_s = True\<rparr>) (hs_bids h),
      map (\<lambda>u. \<lparr>du_k = 1, du_p = bd_price u, du_q = bd_quantity u, du_l = location, du_s = True\<rparr>) (hs_asks h))"

subsection \<open>Display\<close>

text \<open>
  How a decimal and an \<open>f64\<close> print is an argument. \<open>join\<close> is \<open>[String]::join\<close>.
\<close>

definition binance_depth_update_fmt :: "('d \<Rightarrow> string) \<Rightarrow> 'd binance_depth_update \<Rightarrow> string" where
  "binance_depth_update_fmt show_dec u =
     ''{ price: '' @ show_dec (bd_price u) @ '', quantity: '' @ show_dec (bd_quantity u) @ '' }''"

fun join :: "string \<Rightarrow> string list \<Rightarrow> string" where
  "join sep [] = ''''"
| "join sep [x] = x"
| "join sep (x # xs) = x @ sep @ join sep xs"

definition ws_depth_update_fmt ::
  "('d \<Rightarrow> string) \<Rightarrow> (f64 \<Rightarrow> string) \<Rightarrow> 'd ws_depth_update \<Rightarrow> string" where
  "ws_depth_update_fmt show_dec show_f64 w =
     ''WSDepthUpdateBinance { e: '' @ wd_e w @ '', E: '' @ show_f64 (wd_E w) @
     '', s: '' @ show_f64 (wd_s w) @ '', U: '' @ show_f64 (wd_U w) @ '', u: '' @ show_f64 (wd_u w) @
     '', b: ['' @ join '', '' (map (binance_depth_update_fmt show_dec) (wd_b w)) @
     ''], a: ['' @ join '', '' (map (binance_depth_update_fmt show_dec) (wd_a w)) @ ''] }''"

subsection \<open>The Bybit payloads\<close>

record ws_order_book_update_bybit =
  yb_price :: f64
  yb_quantity :: f64

record bybit_data =
  yd_s :: string
  yd_b :: "ws_order_book_update_bybit list"
  yd_a :: "ws_order_book_update_bybit list"
  yd_u :: u32
  yd_seq :: u32

record ws_depth_update_bybit =
  yw_topic :: string
  yw_type :: string
  yw_ts :: u64
  yw_data :: bybit_data

definition ws_depth_update_bybit_from ::
  "(string \<Rightarrow> 'e + ws_depth_update_bybit) \<Rightarrow> message \<Rightarrow> ws_depth_update_bybit option" where
  "ws_depth_update_bybit_from from_str value = from_message from_str value"

record bybit_snapshot_data =
  ys_s :: string
  ys_t :: u64
  ys_a :: "ws_order_book_update_bybit list"
  ys_b :: "ws_order_book_update_bybit list"

record http_snapshot_bybit =
  yh_retMsg :: "string option"
  yh_topic :: string
  yh_ts :: u64
  yh_type :: string
  yh_data :: bybit_snapshot_data

subsection \<open>The objects of \<open>binance.rs\<close> and \<open>local.rs\<close>\<close>

record local_depth_update =
  lu_k :: u8
  lu_p :: f64
  lu_q :: f64
  lu_l :: u8

record order_book_update_binance =
  ob_b :: f64
  ob_B :: f64
  ob_a :: f64
  ob_A :: f64

record order_book_depth_update_binance =
  od_e :: f64
  od_E :: f64
  od_s :: f64
  od_U :: f64
  od_u :: f64
  od_b :: "f64 binance_depth_update list"
  od_a :: "f64 binance_depth_update list"

definition split_update :: "order_book_update_binance \<Rightarrow> local_depth_update \<times> local_depth_update" where
  "split_update u =
     (\<lparr>lu_k = 0, lu_p = ob_b u, lu_q = ob_B u, lu_l = 1\<rparr>,
      \<lparr>lu_k = 1, lu_p = ob_a u, lu_q = ob_A u, lu_l = 1\<rparr>)"

text \<open>The snapshot of \<open>binance.rs\<close>, whose prices and quantities are \<open>f64\<close>.\<close>

record http_snapshot_f64 =
  hf_retcode :: "i32 option"
  hf_lastUpdateId :: u64
  hf_asks :: "f64 binance_depth_update list"
  hf_bids :: "f64 binance_depth_update list"

definition orders :: "http_snapshot_f64 \<Rightarrow> local_depth_update list \<times> local_depth_update list" where
  "orders h =
     (map (\<lambda>item. \<lparr>lu_k = 0, lu_p = bd_price item, lu_q = bd_quantity item, lu_l = 1\<rparr>) (hf_asks h),
      map (\<lambda>item. \<lparr>lu_k = 1, lu_p = bd_price item, lu_q = bd_quantity item, lu_l = 1\<rparr>) (hf_bids h))"

text \<open>\<open>TryFrom<Message>\<close> of \<open>local.rs\<close> reports what the conversions above panic on.\<close>

datatype 'e try_from_error = Json 'e | InvalidData string

definition local_try_from ::
  "(string \<Rightarrow> 'e + local_depth_update) \<Rightarrow> message \<Rightarrow> 'e try_from_error + local_depth_update" where
  "local_try_from from_str m =
     (case m of
        Text t \<Rightarrow> (case from_str t of Inl e \<Rightarrow> Inl (Json e) | Inr u \<Rightarrow> Inr u)
      | _ \<Rightarrow> Inl (InvalidData ''not a text message given when appyling DepthUpdate try_from''))"

end
