(* ===== verification/Book_Level.thy ===== *)
theory Book_Level
  imports Market_Objects
begin

text \<open>
  The price levels of \<open>orderbook/src/level.rs\<close>: the struct the macro \<open>new_liquidity_level\<close>
  generates for ten exchanges, its constructor and its four operations, with the bit masks of
  the liquid flag as the source writes them.
\<close>

definition DEFAULT_DECIMAL_PRECISION :: u32 where "DEFAULT_DECIMAL_PRECISION = 100"
definition DEFAULT_EXCHANGE_COUNT :: nat where "DEFAULT_EXCHANGE_COUNT = 10"
definition LIQUID :: u8 where "LIQUID = 0b000010000"
definition UNLIQUID :: u8 where "UNLIQUID = 0b11110111"

lemmas level_consts = DEFAULT_DECIMAL_PRECISION_def DEFAULT_EXCHANGE_COUNT_def LIQUID_def UNLIQUID_def

record 'd liquidity_node =
  node_q :: 'd
  node_l :: u8

record 'd level =
  lv_liquid :: u8
  lv_price :: 'd
  lv_nodes :: "'d liquidity_node list"

text \<open>
  \<open>Level::new\<close>: an array of equal nodes, then the loop that gives node \<open>i\<close> the location \<open>i\<close>.
  Each node's quantity is another \<open>Decimal::new(0, 100)\<close>; \<open>None\<close> is its panic.
\<close>

fun label_nodes :: "'d decimal \<Rightarrow> nat list \<Rightarrow> 'd liquidity_node list \<Rightarrow> 'd liquidity_node list option" where
  "label_nodes D [] nodes = Some nodes"
| "label_nodes D (i # is) nodes =
     do { z \<leftarrow> dec_new D 0 DEFAULT_DECIMAL_PRECISION;
          label_nodes D is (nodes[i := \<lparr>node_q = z, node_l = of_nat i\<rparr>]) }"

definition level_new :: "'d decimal \<Rightarrow> 'd \<Rightarrow> 'd level option" where
  "level_new D price_level =
     do { z \<leftarrow> dec_new D 0 DEFAULT_DECIMAL_PRECISION;
          nodes \<leftarrow> label_nodes D [0..<DEFAULT_EXCHANGE_COUNT]
            (replicate DEFAULT_EXCHANGE_COUNT \<lparr>node_q = z, node_l = 0\<rparr>);
          Some \<lparr>lv_liquid = LIQUID, lv_price = price_level, lv_nodes = nodes\<rparr> }"

text \<open>
  \<open>associative\<close> applies \<open>+=\<close> to a node and a decimal. The repository has no such \<open>AddAssign\<close>,
  so it is an argument; an exchange outside the array panics.
\<close>

definition associative ::
  "('d liquidity_node \<Rightarrow> 'd \<Rightarrow> 'd liquidity_node option) \<Rightarrow> 'd level \<Rightarrow> 'd \<Rightarrow> u8 \<Rightarrow> 'd level option" where
  "associative add_assign lv num exchange =
     (let e = unat exchange
      in if e < List.length (lv_nodes lv)
         then map_option (\<lambda>n. lv\<lparr>lv_nodes := (lv_nodes lv)[e := n]\<rparr>) (add_assign (lv_nodes lv ! e) num)
         else None)"

definition level_set :: "'d level \<Rightarrow> 'd level" where
  "level_set lv = lv\<lparr>lv_liquid := lv_liquid lv OR LIQUID\<rparr>"

definition level_unset :: "'d level \<Rightarrow> 'd level" where
  "level_unset lv = lv\<lparr>lv_liquid := lv_liquid lv AND UNLIQUID\<rparr>"

definition level_liquid :: "'d level \<Rightarrow> bool" where
  "level_liquid lv \<longleftrightarrow> lv_liquid lv = LIQUID"

lemmas level_op_defs [book_defs] =
  level_new_def associative_def level_set_def level_unset_def level_liquid_def

subsection \<open>The shape of a level\<close>

text \<open>One node per exchange, labelled with its index, so a location is found at most once.\<close>

definition nodes_ok :: "'d liquidity_node list \<Rightarrow> bool" where
  "nodes_ok ns \<longleftrightarrow> map node_l ns = map of_nat [0..<DEFAULT_EXCHANGE_COUNT]"

lemma label_nodes_spec:
  "dec_new D 0 DEFAULT_DECIMAL_PRECISION = Some z \<Longrightarrow>
   \<exists>ns. label_nodes D is nodes = Some ns \<and> List.length ns = List.length nodes \<and>
     (\<forall>i < List.length nodes. ns ! i = (if i \<in> set is then \<lparr>node_q = z, node_l = of_nat i\<rparr> else nodes ! i))"
proof (induction "is" arbitrary: nodes)
  case (Cons j js)
  obtain ns where ns: "label_nodes D js (nodes[j := \<lparr>node_q = z, node_l = of_nat j\<rparr>]) = Some ns"
    "List.length ns = List.length nodes"
    "\<forall>i < List.length nodes. ns ! i =
       (if i \<in> set js then \<lparr>node_q = z, node_l = of_nat i\<rparr>
        else nodes[j := \<lparr>node_q = z, node_l = of_nat j\<rparr>] ! i)"
    using Cons.IH [OF Cons.prems, of "nodes[j := \<lparr>node_q = z, node_l = of_nat j\<rparr>]"] by auto
  with Cons.prems show ?case by (auto simp: nth_list_update)
qed simp

lemma level_new_Some:
  assumes "dec_new D 0 DEFAULT_DECIMAL_PRECISION = Some z"
  shows "level_new D p = Some \<lparr>lv_liquid = LIQUID, lv_price = p,
    lv_nodes = map (\<lambda>i. \<lparr>node_q = z, node_l = of_nat i\<rparr>) [0..<DEFAULT_EXCHANGE_COUNT]\<rparr>"
proof -
  let ?init = "replicate DEFAULT_EXCHANGE_COUNT \<lparr>node_q = z, node_l = 0\<rparr>"
  obtain ns where ns: "label_nodes D [0..<DEFAULT_EXCHANGE_COUNT] ?init = Some ns"
    "List.length ns = DEFAULT_EXCHANGE_COUNT"
    "\<forall>i < DEFAULT_EXCHANGE_COUNT. ns ! i = \<lparr>node_q = z, node_l = of_nat i\<rparr>"
    using label_nodes_spec [OF assms, of "[0..<DEFAULT_EXCHANGE_COUNT]" ?init] by auto
  then have "ns = map (\<lambda>i. \<lparr>node_q = z, node_l = of_nat i\<rparr>) [0..<DEFAULT_EXCHANGE_COUNT]"
    by (intro nth_equalityI) simp_all
  with ns(1) assms show ?thesis by (simp add: level_new_def)
qed

lemma level_new_None: "dec_new D 0 DEFAULT_DECIMAL_PRECISION = None \<Longrightarrow> level_new D p = None"
  by (simp add: level_new_def)

lemma level_new_iff: "level_new D p \<noteq> None \<longleftrightarrow> dec_new D 0 DEFAULT_DECIMAL_PRECISION \<noteq> None"
  using level_new_Some [of D] level_new_None [of D] by (cases "dec_new D 0 DEFAULT_DECIMAL_PRECISION") auto

subsection \<open>The liquid flag\<close>

lemma flag_masks: "LIQUID AND UNLIQUID = LIQUID" "LIQUID OR LIQUID = LIQUID"
  by (simp_all add: level_consts)

lemma liquid_set: "level_liquid lv \<Longrightarrow> level_liquid (level_set lv)"
  by (simp add: level_liquid_def level_set_def)

lemma liquid_unset: "level_liquid lv \<Longrightarrow> level_liquid (level_unset lv)"
  by (simp add: level_liquid_def level_unset_def flag_masks)

lemma liquid_associative: "associative f lv num e = Some lv' \<Longrightarrow> level_liquid lv' = level_liquid lv"
  by (auto simp: associative_def level_liquid_def Let_def split: if_splits)

text \<open>What a level can become under the three operations that change one.\<close>

inductive level_steps :: "('d liquidity_node \<Rightarrow> 'd \<Rightarrow> 'd liquidity_node option) \<Rightarrow>
    'd level \<Rightarrow> 'd level \<Rightarrow> bool" for f lv where
  refl: "level_steps f lv lv"
| set: "level_steps f lv lv' \<Longrightarrow> level_steps f lv (level_set lv')"
| unset: "level_steps f lv lv' \<Longrightarrow> level_steps f lv (level_unset lv')"
| assoc: "level_steps f lv lv' \<Longrightarrow> associative f lv' num e = Some lv'' \<Longrightarrow> level_steps f lv lv''"

lemma level_new_liquid: "level_new D p = Some lv \<Longrightarrow> level_liquid lv"
  by (auto simp: level_new_def level_liquid_def split: bind_splits)

lemma steps_liquid: "level_steps f lv lv' \<Longrightarrow> level_liquid lv \<Longrightarrow> level_liquid lv'"
  by (induction rule: level_steps.induct) (auto simp: liquid_set liquid_unset liquid_associative)

end
