(* ===== verification/Book_Pointer.thy ===== *)
theory Book_Pointer
  imports Book_Level
begin

text \<open>
  The pointer of \<open>orderbook/src/pointer.rs\<close>, which is to follow the best liquid level of one
  side of the book. \<open>traverse\<close> loops without a bound, so it is a partial function: \<open>None\<close> is
  "does not return".
\<close>

datatype side = Bid | Ask

record 'd pointer =
  pt_tick :: 'd
  pt_side :: side
  pt_level :: 'd

datatype pointer_error = TraverseFailedInvalidLevel

definition pointer_new :: "'d decimal \<Rightarrow> 'd \<Rightarrow> side \<Rightarrow> 'd pointer" where
  "pointer_new D tick sd = \<lparr>pt_tick = tick, pt_side = sd, pt_level = dec_zero D\<rparr>"

text \<open>
  The loop. Both branches of the source compute a neighbouring level
  (\<open>i.saturating_sub(self.tick)\<close>, \<open>i.saturating_add(self.tick)\<close>) as a statement: the result
  is dropped and the next round looks \<open>i\<close> up again.
\<close>

partial_function (option) traverse_loop ::
  "('d \<Rightarrow> 'd) \<Rightarrow> ('d \<rightharpoonup> 'd level) \<Rightarrow> 'd \<Rightarrow> (pointer_error + 'd) option" where
  "traverse_loop neighbour book i =
     (case book i of
        Some lv \<Rightarrow>
          (if level_liquid lv then Some (Inr i)
           else (let dropped = neighbour i in traverse_loop neighbour book i))
      | None \<Rightarrow> Some (Inl TraverseFailedInvalidLevel))"

definition traverse ::
  "'d decimal \<Rightarrow> 'd pointer \<Rightarrow> ('d \<rightharpoonup> 'd level) \<Rightarrow> ((pointer_error + unit) \<times> 'd pointer) option" where
  "traverse D p book =
     map_option (\<lambda>r. case r of Inl e \<Rightarrow> (Inl e, p) | Inr i \<Rightarrow> (Inr (), p\<lparr>pt_level := i\<rparr>))
       (case pt_side p of
          Bid \<Rightarrow> traverse_loop (\<lambda>i. dec_saturating_sub D i (pt_tick p)) book (pt_level p)
        | Ask \<Rightarrow> traverse_loop (\<lambda>i. dec_saturating_add D i (pt_tick p)) book (pt_level p))"

lemma traverse_loop_stuck:
  assumes stuck: "book i = Some lv" "\<not> level_liquid lv"
  shows "traverse_loop nb book i = None"
proof (rule ccontr)
  assume "traverse_loop nb book i \<noteq> None"
  then obtain r where ret: "traverse_loop nb book i = Some r" by auto
  have "\<not> (\<exists>lv. book i = Some lv \<and> \<not> level_liquid lv)"
  proof (rule traverse_loop.raw_induct
      [where P = "\<lambda>nb b i r. \<not> (\<exists>lv. b i = Some lv \<and> \<not> level_liquid lv)", OF _ ret])
    fix f nb and b :: "'a \<rightharpoonup> 'a level" and i r
    assume IH: "\<And>nb b i r. f nb b i = Some r \<Longrightarrow> \<not> (\<exists>lv. b i = Some lv \<and> \<not> level_liquid lv)"
      and eq: "(case b i of None \<Rightarrow> Some (Inl TraverseFailedInvalidLevel)
        | Some lv \<Rightarrow> if level_liquid lv then Some (Inr i) else let dropped = nb i in f nb b i) = Some r"
    show "\<not> (\<exists>lv. b i = Some lv \<and> \<not> level_liquid lv)"
    proof
      assume "\<exists>lv. b i = Some lv \<and> \<not> level_liquid lv"
      with eq have "f nb b i = Some r" by (auto simp: Let_def)
      with IH \<open>\<exists>lv. b i = Some lv \<and> \<not> level_liquid lv\<close> show False by blast
    qed
  qed
  with stuck show False by blast
qed

text \<open>The loop in closed form: it returns at its first round or never.\<close>

lemma traverse_loop_eq:
  "traverse_loop nb book i =
     (case book i of
        None \<Rightarrow> Some (Inl TraverseFailedInvalidLevel)
      | Some lv \<Rightarrow> (if level_liquid lv then Some (Inr i) else None))"
  using traverse_loop_stuck [of book i] traverse_loop.simps [of nb book i]
  by (auto split: option.splits)

lemma traverse_eq:
  "traverse D p book =
     (case book (pt_level p) of
        None \<Rightarrow> Some (Inl TraverseFailedInvalidLevel, p)
      | Some lv \<Rightarrow> (if level_liquid lv then Some (Inr (), p) else None))"
  by (simp add: traverse_def traverse_loop_eq split: option.split side.split)

end
