(* ===== verification/Orderbook.thy ===== *)
theory Orderbook
  imports Book_Pointer
begin

text \<open>
  The order book of \<open>orderbook/src/orderbook.rs\<close>: its construction around the mid price and the
  updates of its two sides. A \<open>FxHashMap\<close> is a map. \<open>zero_mid\<close>, a name the updates use and the
  repository nowhere defines, is a parameter of both.
\<close>

datatype order_book_error = NoLevel | NegativeLiquidity | MaxTraversedReached

record orderbook_config =
  oc_exchange_count :: i64
  oc_depth :: i64
  oc_mid_price :: f64
  oc_tick_size :: f64
  oc_ticker :: string

record 'd order_book =
  ob_asks :: "'d \<rightharpoonup> 'd level"
  ob_bids :: "'d \<rightharpoonup> 'd level"
  ob_tick_size :: f64

subsection \<open>Construction\<close>

text \<open>
  The body of the four loops for \<open>i = 1, \<dots>, n\<close>: step the price, build the level, insert it. The
  iteration \<open>i = 0\<close> is written out in \<open>build_orderbook\<close>: the first and third loop insert the mid
  level, the other two skip it. The variables that only remember the outermost price are never read
  and are left out.
\<close>

fun insert_levels ::
  "'d decimal \<Rightarrow> ('d \<Rightarrow> 'd option) \<Rightarrow> nat \<Rightarrow> 'd \<Rightarrow> ('d \<rightharpoonup> 'd level) \<Rightarrow> ('d \<rightharpoonup> 'd level) option" where
  "insert_levels D move 0 cur m = Some m"
| "insert_levels D move (Suc n) cur m =
     do { cur' \<leftarrow> move cur;
          lv \<leftarrow> level_new D cur';
          insert_levels D move n cur' (m(cur' \<mapsto> lv)) }"

definition build_orderbook ::
  "'d decimal \<Rightarrow> 'd \<Rightarrow> 'd \<Rightarrow> u64 \<Rightarrow> (('d \<rightharpoonup> 'd level) \<times> ('d \<rightharpoonup> 'd level)) option" where
  "build_orderbook D tick_size mid_level depth =
     (let n = unat depth;
          up = (\<lambda>c. dec_add D c tick_size);
          down = (\<lambda>c. dec_sub D c tick_size)
      in do { lv \<leftarrow> level_new D mid_level;
              asks \<leftarrow> insert_levels D up n mid_level [mid_level \<mapsto> lv];
              asks \<leftarrow> insert_levels D down n mid_level asks;
              lv \<leftarrow> level_new D mid_level;
              bids \<leftarrow> insert_levels D down n mid_level [mid_level \<mapsto> lv];
              bids \<leftarrow> insert_levels D up n mid_level bids;
              Some (asks, bids) })"

text \<open>\<open>config.depth as u64\<close> keeps the 64 bits of the \<open>i64\<close>.\<close>

definition order_book_new :: "'d decimal \<Rightarrow> orderbook_config \<Rightarrow> 'd order_book option" where
  "order_book_new D config =
     do { tick \<leftarrow> dec_from_f64 D (oc_tick_size config);
          mid \<leftarrow> dec_from_f64 D (oc_mid_price config);
          (asks, bids) \<leftarrow> build_orderbook D tick mid (oc_depth config);
          Some \<lparr>ob_asks = asks, ob_bids = bids, ob_tick_size = oc_tick_size config\<rparr> }"

subsection \<open>Updates\<close>

text \<open>
  The closures that the two updates map over the node that \<open>find\<close> returned: the \<open>Result\<close> and the
  node after it. The sum may panic (\<open>None\<close>).
\<close>

definition ask_closure ::
  "'d decimal \<Rightarrow> bool \<Rightarrow> 'd depth_update \<Rightarrow> 'd pointer \<Rightarrow> 'd liquidity_node \<Rightarrow>
   ((order_book_error + unit) \<times> 'd liquidity_node) option" where
  "ask_closure D zero_mid u ptr node =
     (case dec_add D (node_q node) (du_p u) of
        None \<Rightarrow> None
      | Some liquidity \<Rightarrow>
          Some (case dec_cmp D liquidity (pt_level ptr) of
                  Less \<Rightarrow> (Inl NegativeLiquidity, node)
                | Equal \<Rightarrow> (if zero_mid then (Inr (), node\<lparr>node_q := liquidity\<rparr>)
                            else (Inr (), node\<lparr>node_q := liquidity\<rparr>))
                | Greater \<Rightarrow> (Inr (), node\<lparr>node_q := liquidity\<rparr>)))"

definition bid_closure ::
  "'d decimal \<Rightarrow> bool \<Rightarrow> 'd depth_update \<Rightarrow> 'd pointer \<Rightarrow> 'd liquidity_node \<Rightarrow>
   ((order_book_error + unit) \<times> 'd liquidity_node) option" where
  "bid_closure D zero_mid u ptr node =
     (case dec_add D (node_q node) (du_p u) of
        None \<Rightarrow> None
      | Some liquidity \<Rightarrow>
          Some (case dec_cmp D liquidity (pt_level ptr) of
                  Less \<Rightarrow> (Inl NegativeLiquidity, node)
                | Equal \<Rightarrow> (if zero_mid then (Inr (), node\<lparr>node_q := liquidity\<rparr>)
                            else (Inr (), node\<lparr>node_q := liquidity\<rparr>))
                | Greater \<Rightarrow> (Inr (), node\<lparr>node_q := liquidity\<rparr>)))"

text \<open>
  The updates themselves. What \<open>map\<close> returns, the closure's \<open>Result\<close> in an \<open>Option\<close>, is a
  statement followed by a semicolon: it is dropped, and \<open>Ok(())\<close> is returned after it.
\<close>

definition ask_update ::
  "'d decimal \<Rightarrow> bool \<Rightarrow> 'd order_book \<Rightarrow> 'd depth_update \<Rightarrow> 'd pointer \<Rightarrow>
   ((order_book_error + unit) \<times> 'd order_book) option" where
  "ask_update D zero_mid ob u ptr =
     (case ob_asks ob (du_p u) of
        None \<Rightarrow> Some (Inl NoLevel, ob)
      | Some lv \<Rightarrow>
          (case position (\<lambda>node. node_l node = du_l u) (lv_nodes lv) of
             None \<Rightarrow> Some (Inr (), ob)
           | Some i \<Rightarrow>
               (case ask_closure D zero_mid u ptr (lv_nodes lv ! i) of
                  None \<Rightarrow> None
                | Some (dropped, node) \<Rightarrow>
                    Some (Inr (), ob\<lparr>ob_asks := (ob_asks ob)
                      (du_p u \<mapsto> lv\<lparr>lv_nodes := (lv_nodes lv)[i := node]\<rparr>)\<rparr>))))"

definition bid_update ::
  "'d decimal \<Rightarrow> bool \<Rightarrow> 'd order_book \<Rightarrow> 'd depth_update \<Rightarrow> 'd pointer \<Rightarrow>
   ((order_book_error + unit) \<times> 'd order_book) option" where
  "bid_update D zero_mid ob u ptr =
     (case ob_bids ob (du_p u) of
        None \<Rightarrow> Some (Inl NoLevel, ob)
      | Some lv \<Rightarrow>
          (case position (\<lambda>node. node_l node = du_l u) (lv_nodes lv) of
             None \<Rightarrow> Some (Inr (), ob)
           | Some i \<Rightarrow>
               (case bid_closure D zero_mid u ptr (lv_nodes lv ! i) of
                  None \<Rightarrow> None
                | Some (dropped, node) \<Rightarrow>
                    Some (Inr (), ob\<lparr>ob_bids := (ob_bids ob)
                      (du_p u \<mapsto> lv\<lparr>lv_nodes := (lv_nodes lv)[i := node]\<rparr>)\<rparr>))))"

lemmas update_defs [book_defs] = ask_update_def bid_update_def ask_closure_def bid_closure_def

subsection \<open>The contract of a side of the book\<close>

text \<open>
  What is put in order by an update of one side: the levels of that side, nothing else. The
  contract names the side by the levels it reads and the write that replaces them.
\<close>

definition side_ok :: "('d \<rightharpoonup> 'd level) \<Rightarrow> bool" where
  "side_ok m \<longleftrightarrow> (\<forall>p lv. m p = Some lv \<longrightarrow>
     lv_price lv = p \<and> level_liquid lv \<and> nodes_ok (lv_nodes lv))"

text \<open>
  What a side of the book stands for: the quantity of each exchange at each price point. On that
  view an update adds the price of the depth to one entry, unless the sum is below the
  pointer's level; \<open>None\<close> is an overflowing sum.
\<close>

definition quantities :: "('d \<rightharpoonup> 'd level) \<Rightarrow> 'd \<Rightarrow> u8 \<rightharpoonup> 'd" where
  "quantities m p l =
     (case m p of
        None \<Rightarrow> None
      | Some lv \<Rightarrow>
          if unat l < List.length (lv_nodes lv) then Some (node_q (lv_nodes lv ! unat l)) else None)"

definition add_price ::
  "'d decimal \<Rightarrow> 'd \<Rightarrow> 'd depth_update \<Rightarrow> ('d \<Rightarrow> u8 \<rightharpoonup> 'd) \<Rightarrow> ('d \<Rightarrow> u8 \<rightharpoonup> 'd) option" where
  "add_price D level u f =
     (case f (du_p u) (du_l u) of
        None \<Rightarrow> Some f
      | Some q \<Rightarrow>
          (case dec_add D q (du_p u) of
             None \<Rightarrow> None
           | Some x \<Rightarrow>
               Some (if dec_cmp D x level = Less then f
                     else f(du_p u := (f (du_p u))(du_l u \<mapsto> x)))))"

lemma quantities_write:
  assumes "m p = Some lv" "unat l < List.length (lv_nodes lv)"
  shows "quantities (m(p \<mapsto> lv\<lparr>lv_nodes := (lv_nodes lv)[unat l := (lv_nodes lv ! unat l)\<lparr>node_q := x\<rparr>]\<rparr>)) =
    (quantities m)(p := (quantities m p)(l \<mapsto> x))"
proof (intro ext)
  fix p' l'
  show "quantities (m(p \<mapsto> lv\<lparr>lv_nodes := (lv_nodes lv)[unat l := (lv_nodes lv ! unat l)\<lparr>node_q := x\<rparr>]\<rparr>)) p' l' =
      ((quantities m)(p := (quantities m p)(l \<mapsto> x))) p' l'"
    using assms by (cases "p' = p"; cases "l' = l")
      (auto simp: quantities_def nth_list_update word_unat_eq_iff)
qed

locale book_side =
  fixes levels :: "'b \<Rightarrow> ('d \<rightharpoonup> 'd level)"
    and other :: "'b \<Rightarrow> ('d \<rightharpoonup> 'd level)"
    and put :: "('d \<rightharpoonup> 'd level) \<Rightarrow> 'b \<Rightarrow> 'b"
    and closure :: "'d decimal \<Rightarrow> bool \<Rightarrow> 'd depth_update \<Rightarrow> 'd pointer \<Rightarrow> 'd liquidity_node \<Rightarrow>
      ((order_book_error + unit) \<times> 'd liquidity_node) option"
    and update :: "'d decimal \<Rightarrow> bool \<Rightarrow> 'b \<Rightarrow> 'd depth_update \<Rightarrow> 'd pointer \<Rightarrow>
      ((order_book_error + unit) \<times> 'b) option"
  assumes levels_put: "levels (put m b) = m"
    and other_put: "other (put m b) = other b"
    and closure_sum: "closure D z u ptr n =
        map_option (\<lambda>x. if dec_cmp D x (pt_level ptr) = Less then (Inl NegativeLiquidity, n)
            else (Inr (), n\<lparr>node_q := x\<rparr>))
          (dec_add D (node_q n) (du_p u))"
    and update_absent: "levels b (du_p u) = None \<Longrightarrow> update D z b u ptr = Some (Inl NoLevel, b)"
    and update_unlabelled: "levels b (du_p u) = Some lv \<Longrightarrow>
      position (\<lambda>node. node_l node = du_l u) (lv_nodes lv) = None \<Longrightarrow>
      update D z b u ptr = Some (Inr (), b)"
    and update_node: "levels b (du_p u) = Some lv \<Longrightarrow>
      position (\<lambda>node. node_l node = du_l u) (lv_nodes lv) = Some i \<Longrightarrow>
      update D z b u ptr =
        map_option (\<lambda>(_, node). (Inr (), put ((levels b)
            (du_p u \<mapsto> lv\<lparr>lv_nodes := (lv_nodes lv)[i := node]\<rparr>)) b))
          (closure D z u ptr (lv_nodes lv ! i))"
begin

lemma update_cases:
  assumes "update D z b u ptr = Some (r, b')"
  obtains (absent) "levels b (du_p u) = None" "r = Inl NoLevel" "b' = b"
  | (unlabelled) lv where "levels b (du_p u) = Some lv" "r = Inr ()" "b' = b"
      "position (\<lambda>node. node_l node = du_l u) (lv_nodes lv) = None"
  | (node) lv i res n where "levels b (du_p u) = Some lv" "r = Inr ()"
      "position (\<lambda>node. node_l node = du_l u) (lv_nodes lv) = Some i"
      "closure D z u ptr (lv_nodes lv ! i) = Some (res, n)"
      "b' = put ((levels b)(du_p u \<mapsto> lv\<lparr>lv_nodes := (lv_nodes lv)[i := n]\<rparr>)) b"
proof (cases "levels b (du_p u)")
  case None
  with assms show ?thesis by (intro absent) (simp_all add: update_absent)
next
  case (Some lv)
  show ?thesis
  proof (cases "position (\<lambda>node. node_l node = du_l u) (lv_nodes lv)")
    case None
    with Some assms show ?thesis by (intro unlabelled [OF Some]) (simp_all add: update_unlabelled)
  next
    case (Some i)
    with \<open>levels b (du_p u) = Some lv\<close> assms show ?thesis
      by (auto simp: update_node intro: node)
  qed
qed

lemma result:
  "update D z b u ptr = Some (r, b') \<Longrightarrow>
     r = (if levels b (du_p u) = None then Inl NoLevel else Inr ())"
  by (erule update_cases) auto

lemma frame:
  assumes "update D z b u ptr = Some (r, b')"
  shows "other b' = other b" and "dom (levels b') = dom (levels b)"
    and "p \<noteq> du_p u \<Longrightarrow> levels b' p = levels b p"
  using assms by (auto elim!: update_cases simp: levels_put other_put split: if_splits)

lemma closure_node_l:
  "closure D z u ptr n = Some (res, n') \<Longrightarrow> node_l n' = node_l n"
  by (auto simp: closure_sum split: if_splits)

lemma level_frame:
  assumes "update D z b u ptr = Some (r, b')" and "levels b p = Some lv"
  shows "\<exists>lv'. levels b' p = Some lv' \<and> lv_price lv' = lv_price lv \<and> lv_liquid lv' = lv_liquid lv \<and>
    map node_l (lv_nodes lv') = map node_l (lv_nodes lv) \<and>
    (\<forall>j < List.length (lv_nodes lv). node_l (lv_nodes lv ! j) \<noteq> du_l u \<longrightarrow>
       lv_nodes lv' ! j = lv_nodes lv ! j)"
  using assms(1)
proof (cases rule: update_cases)
  case (node lv0 i res n)
  show ?thesis
  proof (cases "p = du_p u")
    case True
    with node(1) assms(2) have lv0: "lv0 = lv" by simp
    note at = position_Some [OF node(3)]
    have "map node_l ((lv_nodes lv)[i := n]) = map node_l (lv_nodes lv)"
      using closure_node_l [OF node(4)] at lv0 by (simp add: map_update list_update_same_conv)
    moreover have "(lv_nodes lv)[i := n] ! j = lv_nodes lv ! j"
      if "j < List.length (lv_nodes lv)" "node_l (lv_nodes lv ! j) \<noteq> du_l u" for j
      using that at lv0 by (cases "j = i") auto
    ultimately show ?thesis using True node(5) lv0 by (auto simp: levels_put)
  qed (use node(5) assms(2) in \<open>simp add: levels_put\<close>)
qed (use assms(2) in simp_all)

lemma keeps_side_ok:
  assumes "side_ok (levels b)" and upd: "update D z b u ptr = Some (r, b')"
  shows "side_ok (levels b')"
  unfolding side_ok_def
proof (intro allI impI)
  fix p lv' assume lv': "levels b' p = Some lv'"
  then obtain lv where lv: "levels b p = Some lv" using frame(2) [OF upd] by blast
  from level_frame [OF upd lv] lv' assms(1) lv
  show "lv_price lv' = p \<and> level_liquid lv' \<and> nodes_ok (lv_nodes lv')"
    by (auto simp: side_ok_def level_liquid_def nodes_ok_def)
qed

text \<open>
  Neither the quantity of the update nor \<open>zero_mid\<close> has an effect: the sum is taken with the price,
  and both arms for \<open>Equal\<close> store it.
\<close>

lemma closure_ignores:
  "closure D z (u\<lparr>du_q := q\<rparr>) ptr n = closure D z u ptr n" "closure D z u ptr n = closure D True u ptr n"
  by (simp_all add: closure_sum)

lemma ignores_quantity: "update D z b (u\<lparr>du_q := q\<rparr>) ptr = update D z b u ptr"
proof (cases "levels b (du_p u)")
  case (Some lv)
  then show ?thesis
    using update_unlabelled [of b u lv] update_unlabelled [of b "u\<lparr>du_q := q\<rparr>" lv]
      update_node [of b u lv] update_node [of b "u\<lparr>du_q := q\<rparr>" lv]
    by (cases "position (\<lambda>node. node_l node = du_l u) (lv_nodes lv)")
       (simp_all add: closure_ignores(1))
qed (simp add: update_absent)

lemma ignores_zero_mid: "update D z b u ptr = update D True b u ptr"
proof (cases "levels b (du_p u)")
  case (Some lv)
  then show ?thesis
    using update_unlabelled [of b u lv] update_node [of b u lv] closure_ignores(2) [of D z u ptr]
    by (cases "position (\<lambda>node. node_l node = du_l u) (lv_nodes lv)") simp_all
qed (simp add: update_absent)

text \<open>On a well-formed side, the node of an exchange is the one at the exchange's index.\<close>

lemma node_position:
  assumes ok: "side_ok (levels b)" and lv: "levels b (du_p u) = Some lv"
  shows "List.length (lv_nodes lv) = DEFAULT_EXCHANGE_COUNT"
    and "position (\<lambda>node. node_l node = du_l u) (lv_nodes lv) =
      (if unat (du_l u) < DEFAULT_EXCHANGE_COUNT then Some (unat (du_l u)) else None)"
proof -
  let ?i = "unat (du_l u)" and ?P = "\<lambda>node. node_l node = du_l u"
  have labels: "map node_l (lv_nodes lv) = map of_nat [0..<DEFAULT_EXCHANGE_COUNT]"
    using ok lv by (simp add: side_ok_def nodes_ok_def)
  then show size: "List.length (lv_nodes lv) = DEFAULT_EXCHANGE_COUNT"
    by (metis length_map length_upt diff_zero)
  have label: "node_l (lv_nodes lv ! j) = of_nat j" if "j < DEFAULT_EXCHANGE_COUNT" for j
    using that labels size by (metis nth_map nth_upt add_0 length_map length_upt diff_zero)
  have small: "unat (of_nat j :: u8) = j" if "j < DEFAULT_EXCHANGE_COUNT" for j
    using that by (simp add: unat_of_nat level_consts)
  show "position ?P (lv_nodes lv) = (if ?i < DEFAULT_EXCHANGE_COUNT then Some ?i else None)"
  proof (cases "position ?P (lv_nodes lv)")
    case None
    have "\<not> ?i < DEFAULT_EXCHANGE_COUNT"
    proof
      assume i: "?i < DEFAULT_EXCHANGE_COUNT"
      then have "lv_nodes lv ! ?i \<in> set (lv_nodes lv)" using size by simp
      with None label [OF i] show False by (auto simp: position_None)
    qed
    with None show ?thesis by simp
  next
    case (Some j)
    note at = position_Some [OF Some]
    then have "of_nat j = du_l u" "j < DEFAULT_EXCHANGE_COUNT" using label size by auto
    then have "j = ?i" "?i < DEFAULT_EXCHANGE_COUNT" using small by metis+
    with Some show ?thesis by simp
  qed
qed

text \<open>The one node an update writes, on a well-formed side.\<close>

lemma writes_node:
  assumes ok: "side_ok (levels b)" and lv: "levels b (du_p u) = Some lv"
    and loc: "unat (du_l u) < DEFAULT_EXCHANGE_COUNT"
    and sum: "dec_add D (node_q (lv_nodes lv ! unat (du_l u))) (du_p u) = Some x"
  shows "update D z b u ptr = Some (Inr (), put ((levels b)(du_p u \<mapsto>
    (if dec_cmp D x (pt_level ptr) = Less then lv
     else lv\<lparr>lv_nodes := (lv_nodes lv)[unat (du_l u) := (lv_nodes lv ! unat (du_l u))\<lparr>node_q := x\<rparr>]\<rparr>))) b)"
proof -
  have "position (\<lambda>node. node_l node = du_l u) (lv_nodes lv) = Some (unat (du_l u))"
    using node_position(2) [OF ok lv] loc by simp
  from update_node [OF lv this, of D z ptr] sum show ?thesis
    by (auto simp: closure_sum split: ordering.split)
qed

text \<open>
  The refinement: read through \<open>quantities\<close>, an update of a well-formed side is \<open>add_price\<close>.
\<close>

lemma refines_add_price:
  assumes ok: "side_ok (levels b)"
  shows "map_option (\<lambda>(r, b'). quantities (levels b')) (update D z b u ptr) =
    add_price D (pt_level ptr) u (quantities (levels b))"
proof (cases "levels b (du_p u)")
  case None
  then show ?thesis by (simp add: update_absent add_price_def quantities_def)
next
  case (Some lv)
  note pos = node_position [OF ok Some]
  show ?thesis
  proof (cases "unat (du_l u) < DEFAULT_EXCHANGE_COUNT")
    case False
    with pos have "update D z b u ptr = Some (Inr (), b)" by (simp add: update_unlabelled [OF Some])
    with False pos Some show ?thesis by (simp add: add_price_def quantities_def)
  next
    case True
    let ?q = "node_q (lv_nodes lv ! unat (du_l u))"
    have q: "quantities (levels b) (du_p u) (du_l u) = Some ?q"
      using Some True pos(1) by (simp add: quantities_def)
    show ?thesis
    proof (cases "dec_add D ?q (du_p u)")
      case None
      with pos(2) True have "update D z b u ptr = None"
        by (simp add: update_node [OF Some] closure_sum)
      with None q show ?thesis by (simp add: add_price_def)
    next
      case (Some x)
      note w = writes_node [OF ok \<open>levels b (du_p u) = Some lv\<close> True Some, of z ptr]
      have same: "(levels b)(du_p u \<mapsto> lv) = levels b"
        using \<open>levels b (du_p u) = Some lv\<close> by (rule map_upd_triv)
      show ?thesis
        using q Some quantities_write [of "levels b" "du_p u" lv "du_l u" x] \<open>levels b (du_p u) = Some lv\<close> True pos(1)
        by (simp add: w add_price_def levels_put same)
    qed
  qed
qed

end

interpretation asks: book_side ob_asks ob_bids "\<lambda>m ob. ob\<lparr>ob_asks := m\<rparr>" ask_closure ask_update
  by unfold_locales (auto simp: ask_update_def ask_closure_def split: option.splits ordering.splits)

interpretation bids: book_side ob_bids ob_asks "\<lambda>m ob. ob\<lparr>ob_bids := m\<rparr>" bid_closure bid_update
  by unfold_locales (auto simp: bid_update_def bid_closure_def split: option.splits ordering.splits)

end
