(* ===== verification/Book_Properties.thy ===== *)
theory Book_Properties
  imports Orderbook
begin

text \<open>
  The properties of the order book: that it cannot be constructed, what an update may change and
  what it does change, the liquid flag, and the pointer; with the lemmas on construction they rest
  on.
\<close>

subsection \<open>Construction\<close>

text \<open>Every level in a built map is the one \<open>Level::new\<close> makes for its key.\<close>

lemma insert_levels_made:
  "insert_levels D move n cur m = Some m' \<Longrightarrow> (\<And>p lv. m p = Some lv \<Longrightarrow> level_new D p = Some lv) \<Longrightarrow>
   m' p = Some lv \<Longrightarrow> level_new D p = Some lv"
proof (induction n arbitrary: cur m)
  case (Suc n)
  from Suc.prems(1) obtain cur' lv' where step: "level_new D cur' = Some lv'"
    "insert_levels D move n cur' (m(cur' \<mapsto> lv')) = Some m'"
    by (auto split: bind_splits)
  show ?case by (rule Suc.IH [OF step(2)]) (use Suc.prems(2,3) step(1) in \<open>auto split: if_splits\<close>)
qed simp

lemma build_made:
  assumes "build_orderbook D tick mid depth = Some (asks, bids)"
  shows "asks p = Some lv \<Longrightarrow> level_new D p = Some lv" and "bids p = Some lv \<Longrightarrow> level_new D p = Some lv"
proof -
  obtain lv0 a b where first: "level_new D mid = Some lv0"
    "insert_levels D (\<lambda>c. dec_add D c tick) (unat depth) mid [mid \<mapsto> lv0] = Some a"
    "insert_levels D (\<lambda>c. dec_sub D c tick) (unat depth) mid a = Some asks"
    "insert_levels D (\<lambda>c. dec_sub D c tick) (unat depth) mid [mid \<mapsto> lv0] = Some b"
    "insert_levels D (\<lambda>c. dec_add D c tick) (unat depth) mid b = Some bids"
    using assms by (auto simp: build_orderbook_def Let_def split: bind_splits)
  have start: "\<And>p lv. [mid \<mapsto> lv0] p = Some lv \<Longrightarrow> level_new D p = Some lv"
    using first(1) by (auto split: if_splits)
  show "level_new D p = Some lv" if "asks p = Some lv"
    using insert_levels_made [OF first(3) insert_levels_made [OF first(2) start] that] .
  show "level_new D p = Some lv" if "bids p = Some lv"
    using insert_levels_made [OF first(5) insert_levels_made [OF first(4) start] that] .
qed

lemma level_new_ok:
  assumes "level_new D p = Some lv"
  shows "lv_price lv = p \<and> level_liquid lv \<and> nodes_ok (lv_nodes lv)"
proof -
  from assms obtain z where z: "dec_new D 0 DEFAULT_DECIMAL_PRECISION = Some z"
    using level_new_iff [of D p] by auto
  have "map (node_l \<circ> (\<lambda>i. \<lparr>node_q = z, node_l = of_nat i\<rparr>)) [0..<DEFAULT_EXCHANGE_COUNT] =
      map of_nat [0..<DEFAULT_EXCHANGE_COUNT]" by simp
  with level_new_Some [OF z, of p] assms show ?thesis
    by (simp add: level_liquid_def nodes_ok_def comp_def)
qed

text \<open>A level as \<open>Level::new\<close> makes it, around a given zero.\<close>

definition fresh_level :: "'d \<Rightarrow> 'd \<Rightarrow> 'd level" where
  "fresh_level z p = \<lparr>lv_liquid = LIQUID, lv_price = p,
     lv_nodes = map (\<lambda>i. \<lparr>node_q = z, node_l = of_nat i\<rparr>) [0..<DEFAULT_EXCHANGE_COUNT]\<rparr>"

subsection \<open>Properties of construction\<close>

lemma order_book_new_None:
  assumes "new_panics_above_max_scale D"
  shows "order_book_new D config = None"
proof -
  have "dec_new D 0 DEFAULT_DECIMAL_PRECISION = None"
    using assms by (simp add: new_panics_above_max_scale_def level_consts)
  then have "level_new D p = None" for p by (rule level_new_None)
  then have "build_orderbook D tick mid n = None" for tick mid n
    by (simp add: build_orderbook_def Let_def)
  then show ?thesis by (simp add: order_book_new_def split: Option.bind_split)
qed

text \<open>C10: no order book can be constructed. \<open>Level::new\<close> asks \<open>Decimal::new\<close> for the scale 100, and
  \<open>Decimal::new\<close> is documented to panic above 28; so \<open>OrderBook::new\<close> panics for every
  configuration.\<close>

theorem order_book_new_panics:
  assumes "new_panics_above_max_scale D"
  shows "order_book_new D config = None"
  using assms by (rule order_book_new_None)

theorem order_book_new_panics_witness:
  "new_panics_above_max_scale cents \<and>
   order_book_new cents \<lparr>oc_exchange_count = 1, oc_depth = 5000, oc_mid_price = F64_Fin 2500,
     oc_tick_size = F64_Fin (1 / 100), oc_ticker = ''OPENAI/USD''\<rparr> = None"
  using order_book_new_panics [OF cents_new_panics] cents_new_panics by blast

text \<open>C11: the liquid flag cannot be cleared. \<open>unset\<close> masks out bit 3 of a flag whose liquid bit is
  bit 4, so a level that is liquid, as \<open>new\<close> makes it, stays liquid under any sequence of \<open>set\<close>,
  \<open>unset\<close> and \<open>associative\<close>, one that ends in \<open>unset\<close> included.\<close>

theorem level_stays_liquid:
  assumes "level_liquid lv" and "level_steps f lv lv'"
  shows "level_liquid lv' \<and> level_liquid (level_unset lv')"
  using steps_liquid [OF assms(2,1)] liquid_unset by blast

theorem level_stays_liquid_witness:
  "level_liquid (fresh_level 0 (7 :: int)) \<and>
   level_steps (\<lambda>n x. Some n) (fresh_level 0 7) (level_unset (level_set (fresh_level 0 (7 :: int)))) \<and>
   level_liquid (level_unset (level_set (fresh_level 0 (7 :: int))))"
proof -
  have l: "level_liquid (fresh_level 0 (7 :: int))" by (simp add: fresh_level_def level_liquid_def)
  have "level_steps (\<lambda>n x. Some n) (fresh_level 0 7) (level_unset (level_set (fresh_level 0 (7 :: int))))"
    by (intro level_steps.intros)
  with level_stays_liquid [OF l this] l show ?thesis by blast
qed

subsection \<open>Properties of the updates\<close>

text \<open>C12: what an update reports. When it returns, an update of either side returns \<open>NoLevel\<close>
  exactly when its price is not a level of that side, and \<open>Ok\<close> otherwise: the
  \<open>NegativeLiquidity\<close> that the closure returns reaches no caller.\<close>

theorem update_result:
  "(ask_update D z ob u ptr = Some (r, ob') \<longrightarrow>
      r = (if ob_asks ob (du_p u) = None then Inl NoLevel else Inr ()) \<and> r \<noteq> Inl NegativeLiquidity) \<and>
   (bid_update D z ob u ptr = Some (r, ob') \<longrightarrow>
      r = (if ob_bids ob (du_p u) = None then Inl NoLevel else Inr ()) \<and> r \<noteq> Inl NegativeLiquidity)"
  using asks.result [of D z ob u ptr r ob'] bids.result [of D z ob u ptr r ob'] by (auto split: if_splits)

text \<open>A small book: one level per side at price 2700, made for ten exchanges.\<close>

definition small_book :: "int order_book" where
  "small_book = \<lparr>ob_asks = [2700 \<mapsto> fresh_level 0 2700], ob_bids = [2700 \<mapsto> fresh_level 0 2700],
     ob_tick_size = F64_Fin (1 / 100)\<rparr>"

definition small_update :: "int depth_update" where
  "small_update = \<lparr>du_k = 0, du_p = 2700, du_q = 5, du_l = 1, du_s = False\<rparr>"

definition origin :: "int pointer" where
  "origin = pointer_new cents 1 Ask"

lemma fresh_level_ok: "nodes_ok (lv_nodes (fresh_level z p))" "level_liquid (fresh_level z p)"
  "lv_price (fresh_level z p) = p"
  by (simp_all add: fresh_level_def nodes_ok_def level_liquid_def comp_def)

lemma small_book_ok: "side_ok (ob_asks small_book)" "side_ok (ob_bids small_book)"
  by (simp_all add: side_ok_def small_book_def fresh_level_ok)

theorem update_result_witness:
  "\<exists>ob'. ask_update cents True small_book small_update origin = Some (Inr (), ob') \<and>
     ask_update cents True small_book (small_update\<lparr>du_p := 1\<rparr>) origin = Some (Inl NoLevel, small_book)"
proof -
  have "\<exists>ob'. ask_update cents True small_book small_update origin = Some (Inr (), ob')"
    by (simp add: ask_update_def small_book_def small_update_def origin_def pointer_new_def
        fresh_level_def level_consts upt_conv_Cons ask_closure_def cents_defs)
  then obtain ob' where "ask_update cents True small_book small_update origin = Some (Inr (), ob')" ..
  moreover have "ask_update cents True small_book (small_update\<lparr>du_p := 1\<rparr>) origin =
      Some (Inl NoLevel, small_book)"
    by (simp add: ask_update_def small_book_def small_update_def)
  ultimately show ?thesis
    using update_result [of cents True small_book small_update origin "Inr ()" ob'] by blast
qed

text \<open>An update touches one node of one level of its own side. The other side, the set of
  price points, every other price, the price and the flag of the updated level, and every
  node of another exchange are as before.\<close>

theorem ask_update_frame:
  assumes "ask_update D z ob u ptr = Some (r, ob')"
  shows "ob_bids ob' = ob_bids ob \<and> dom (ob_asks ob') = dom (ob_asks ob) \<and>
    (\<forall>p. p \<noteq> du_p u \<longrightarrow> ob_asks ob' p = ob_asks ob p) \<and>
    (\<forall>lv. ob_asks ob (du_p u) = Some lv \<longrightarrow> (\<exists>lv'. ob_asks ob' (du_p u) = Some lv' \<and>
       lv_price lv' = lv_price lv \<and> lv_liquid lv' = lv_liquid lv \<and>
       (\<forall>j < List.length (lv_nodes lv). node_l (lv_nodes lv ! j) \<noteq> du_l u \<longrightarrow>
          lv_nodes lv' ! j = lv_nodes lv ! j)))"
  using asks.frame [OF assms] asks.level_frame [OF assms, of "du_p u"] by blast

theorem ask_update_frame_witness:
  "\<exists>ob'. ask_update cents False small_book small_update origin = Some (Inr (), ob') \<and>
     ob_bids ob' = ob_bids small_book \<and> dom (ob_asks ob') = {2700}"
proof -
  have "\<exists>ob'. ask_update cents False small_book small_update origin = Some (Inr (), ob')"
    by (simp add: ask_update_def small_book_def small_update_def origin_def pointer_new_def
        fresh_level_def level_consts upt_conv_Cons ask_closure_def cents_defs)
  then obtain ob' where upd: "ask_update cents False small_book small_update origin = Some (Inr (), ob')" ..
  have "dom (ob_asks small_book) = {2700}" by (simp add: small_book_def)
  with upd ask_update_frame [OF upd] show ?thesis by metis
qed

text \<open>The book with its sides exchanged, and a sequence of updates of both sides.\<close>

definition swap_sides :: "'d order_book \<Rightarrow> 'd order_book" where
  "swap_sides ob = ob\<lparr>ob_asks := ob_bids ob, ob_bids := ob_asks ob\<rparr>"

datatype 'd book_op = Ask_Op "'d depth_update" "'d pointer" | Bid_Op "'d depth_update" "'d pointer"

fun book_updates :: "'d decimal \<Rightarrow> bool \<Rightarrow> 'd order_book \<Rightarrow> 'd book_op list \<Rightarrow> 'd order_book option" where
  "book_updates D z ob [] = Some ob"
| "book_updates D z ob (Ask_Op u ptr # ops) =
     (case ask_update D z ob u ptr of None \<Rightarrow> None | Some (_, ob') \<Rightarrow> book_updates D z ob' ops)"
| "book_updates D z ob (Bid_Op u ptr # ops) =
     (case bid_update D z ob u ptr of None \<Rightarrow> None | Some (_, ob') \<Rightarrow> book_updates D z ob' ops)"

text \<open>The updates of one side of such a sequence, as updates of the asks.\<close>

fun asks_of :: "'d book_op list \<Rightarrow> 'd book_op list" where
  "asks_of [] = []"
| "asks_of (Ask_Op u ptr # ops) = Ask_Op u ptr # asks_of ops"
| "asks_of (Bid_Op u ptr # ops) = asks_of ops"

fun bids_of :: "'d book_op list \<Rightarrow> 'd book_op list" where
  "bids_of [] = []"
| "bids_of (Ask_Op u ptr # ops) = bids_of ops"
| "bids_of (Bid_Op u ptr # ops) = Ask_Op u ptr # bids_of ops"

text \<open>An update of the asks depends on the asks only; an update of the bids does what it would.\<close>

lemma ask_on_asks:
  assumes "ob_asks a = ob_asks ob"
  shows "ask_update D z a u ptr =
    map_option (\<lambda>(r, ob'). (r, a\<lparr>ob_asks := ob_asks ob'\<rparr>)) (ask_update D z ob u ptr)"
  using assms by (auto simp: ask_update_def split: option.split)

lemma ask_on_bids:
  assumes "ob_asks b = ob_bids ob"
  shows "ask_update D z b u ptr =
    map_option (\<lambda>(r, ob'). (r, b\<lparr>ob_asks := ob_bids ob'\<rparr>)) (bid_update D z ob u ptr)"
  using assms by (auto simp: ask_update_def bid_update_def ask_closure_def bid_closure_def split: option.split)

lemma update_writes_side:
  "ask_update D z ob u ptr = Some (r, ob') \<Longrightarrow> ob' = ob\<lparr>ob_asks := ob_asks ob'\<rparr>"
  "bid_update D z ob u ptr = Some (r, ob') \<Longrightarrow> ob' = ob\<lparr>ob_bids := ob_bids ob'\<rparr>"
  by (auto simp: ask_update_def bid_update_def split: option.splits)

lemma updates_split:
  assumes "ob_asks a = ob_asks ob" and "ob_asks b = ob_bids ob"
  shows "book_updates D z ob ops =
    (case (book_updates D z a (asks_of ops), book_updates D z b (bids_of ops)) of
       (Some a', Some b') \<Rightarrow> Some (ob\<lparr>ob_asks := ob_asks a', ob_bids := ob_asks b'\<rparr>)
     | _ \<Rightarrow> None)"
  using assms
proof (induction ops arbitrary: ob a b)
  case (Cons op ops)
  show ?case
  proof (cases op)
    case op: (Ask_Op u ptr)
    show ?thesis
    proof (cases "ask_update D z ob u ptr")
      case None
      then show ?thesis using ask_on_asks [OF Cons.prems(1), of D z u ptr] by (simp add: op)
    next
      case (Some r)
      obtain res m where r: "r = (res, ob\<lparr>ob_asks := m\<rparr>)"
        using update_writes_side(1) [of D z ob u ptr] Some by (cases r) blast
      show ?thesis
        using ask_on_asks [OF Cons.prems(1), of D z u ptr] Some Cons.prems(2)
          Cons.IH [of "a\<lparr>ob_asks := m\<rparr>" "ob\<lparr>ob_asks := m\<rparr>" b]
        by (simp add: op r split: option.split)
    qed
  next
    case op: (Bid_Op u ptr)
    show ?thesis
    proof (cases "bid_update D z ob u ptr")
      case None
      then show ?thesis
        using ask_on_bids [OF Cons.prems(2), of D z u ptr] by (simp add: op split: option.split)
    next
      case (Some r)
      obtain res m where r: "r = (res, ob\<lparr>ob_bids := m\<rparr>)"
        using update_writes_side(2) [of D z ob u ptr] Some by (cases r) blast
      show ?thesis
        using ask_on_bids [OF Cons.prems(2), of D z u ptr] Some Cons.prems(1)
          Cons.IH [of a "ob\<lparr>ob_bids := m\<rparr>" "b\<lparr>ob_asks := m\<rparr>"]
        by (simp add: op r split: option.split)
    qed
  qed
qed simp

text \<open>C14: the two sides of the book are independent and obey one routine. Any interleaving of ask and
  bid updates, each with its own pointer, panics exactly when the updates of one of the sides, taken
  alone and in their order, panic; otherwise it leaves in the asks what the ask updates alone leave
  there, and in the bids what the bid updates leave when they are made by \<open>ask_update\<close> on the book
  with its sides exchanged; the tick size is as before.\<close>

theorem sides_independent_and_alike:
  "book_updates D z ob ops =
    (case (book_updates D z ob (asks_of ops), book_updates D z (swap_sides ob) (bids_of ops)) of
       (Some a, Some b) \<Rightarrow>
         Some \<lparr>ob_asks = ob_asks a, ob_bids = ob_asks b, ob_tick_size = ob_tick_size ob\<rparr>
     | _ \<Rightarrow> None)"
proof -
  have shape: "ob\<lparr>ob_asks := x, ob_bids := y\<rparr> =
      \<lparr>ob_asks = x, ob_bids = y, ob_tick_size = ob_tick_size ob\<rparr>" for x y by simp
  show ?thesis
    by (subst updates_split [of ob ob "swap_sides ob"]) (simp_all only: shape, simp_all add: swap_sides_def)
qed

text \<open>C15: well-formed sides (levels filed under their price, liquid, with one node per exchange)
  stay well formed under updates of either side.\<close>

theorem updates_keep_book_ok:
  assumes "side_ok (ob_asks ob)" and "side_ok (ob_bids ob)"
    and "ask_update D z ob u ptr = Some (r, ob1)" and "bid_update D z' ob1 u' ptr' = Some (r', ob2)"
  shows "side_ok (ob_asks ob2) \<and> side_ok (ob_bids ob2)"
  using asks.keeps_side_ok [OF assms(1,3)] asks.frame(1) [OF assms(3)]
    bids.keeps_side_ok [OF _ assms(4)] bids.frame(1) [OF assms(4)] assms(2) by simp

theorem updates_keep_book_ok_witness:
  "\<exists>ob1 ob2. ask_update cents True small_book small_update origin = Some (Inr (), ob1) \<and>
     bid_update cents True ob1 (small_update\<lparr>du_p := 1\<rparr>) origin = Some (Inl NoLevel, ob2) \<and>
     side_ok (ob_asks ob2) \<and> side_ok (ob_bids ob2)"
proof -
  have "\<exists>ob1. ask_update cents True small_book small_update origin = Some (Inr (), ob1) \<and>
      ob_bids ob1 = ob_bids small_book"
    by (simp add: ask_update_def small_book_def small_update_def origin_def pointer_new_def
        fresh_level_def level_consts upt_conv_Cons ask_closure_def cents_defs)
  then obtain ob1 where u1: "ask_update cents True small_book small_update origin = Some (Inr (), ob1)"
    "ob_bids ob1 = ob_bids small_book" by blast
  have u2: "bid_update cents True ob1 (small_update\<lparr>du_p := 1\<rparr>) origin = Some (Inl NoLevel, ob1)"
    using u1(2) by (simp add: bid_update_def small_book_def small_update_def)
  show ?thesis using updates_keep_book_ok [OF small_book_ok u1(1) u2] u1(1) u2 by blast
qed

text \<open>What an update stores. On a well-formed side, for an exchange of the book and a sum that
  does not overflow, the node of that exchange at that price becomes its old quantity plus the
  price of the update, unless that sum is below the pointer's level, when the book is left as it
  was.\<close>

theorem ask_update_stores_price_sum:
  assumes "side_ok (ob_asks ob)" and "ob_asks ob (du_p u) = Some lv"
    and "unat (du_l u) < DEFAULT_EXCHANGE_COUNT"
    and "dec_add D (node_q (lv_nodes lv ! unat (du_l u))) (du_p u) = Some x"
  shows "ask_update D z ob u ptr = Some (Inr (),
    if dec_cmp D x (pt_level ptr) = Less then ob
    else ob\<lparr>ob_asks := (ob_asks ob)(du_p u \<mapsto> lv\<lparr>lv_nodes :=
      (lv_nodes lv)[unat (du_l u) := (lv_nodes lv ! unat (du_l u))\<lparr>node_q := x\<rparr>]\<rparr>)\<rparr>)"
proof -
  have "(ob_asks ob)(du_p u \<mapsto> lv) = ob_asks ob" using assms(2) by (simp add: map_upd_triv)
  then show ?thesis using asks.writes_node [OF assms, of z ptr] by simp
qed

theorem ask_update_stores_price_sum_witness:
  "map_option (\<lambda>(r, ob'). map_option (\<lambda>lv. node_q (lv_nodes lv ! 1)) (ob_asks ob' 2700))
     (ask_update cents False small_book small_update origin) = Some (Some 2700)"
proof -
  have lv: "ob_asks small_book (du_p small_update) = Some (fresh_level 0 2700)"
    by (simp add: small_book_def small_update_def)
  have loc: "unat (du_l small_update) < DEFAULT_EXCHANGE_COUNT"
    by (simp add: small_update_def level_consts)
  have sum: "dec_add cents (node_q (lv_nodes (fresh_level 0 2700) ! unat (du_l small_update)))
      (du_p small_update) = Some 2700"
    by (simp add: small_update_def fresh_level_def level_consts cents_defs)
  show ?thesis
    unfolding ask_update_stores_price_sum [OF small_book_ok(1) lv loc sum]
    by (simp add: origin_def pointer_new_def cents_defs small_update_def fresh_level_def level_consts)
qed

text \<open>C16: the updates implement an abstract book. Read as the quantity of each exchange at each
  price, a well-formed side is changed by an update exactly as \<open>add_price\<close> says: the price of the
  depth (not its quantity) is added to one entry, unless the sum is below the pointer's level;
  the update panics exactly when the sum overflows; and the other side is not touched.\<close>

theorem updates_refine_add_price:
  assumes "side_ok (ob_asks ob)" and "side_ok (ob_bids ob)"
  shows "map_option (\<lambda>(r, ob'). (quantities (ob_asks ob'), ob_bids ob')) (ask_update D z ob u ptr) =
      map_option (\<lambda>f. (f, ob_bids ob)) (add_price D (pt_level ptr) u (quantities (ob_asks ob))) \<and>
    map_option (\<lambda>(r, ob'). (quantities (ob_bids ob'), ob_asks ob')) (bid_update D z ob u ptr) =
      map_option (\<lambda>f. (f, ob_asks ob)) (add_price D (pt_level ptr) u (quantities (ob_bids ob)))"
proof
  show "map_option (\<lambda>(r, ob'). (quantities (ob_asks ob'), ob_bids ob')) (ask_update D z ob u ptr) =
      map_option (\<lambda>f. (f, ob_bids ob)) (add_price D (pt_level ptr) u (quantities (ob_asks ob)))"
    using asks.refines_add_price [OF assms(1), of D z u ptr, symmetric] asks.frame(1) [of D z ob u ptr]
    by (cases "ask_update D z ob u ptr") auto
  show "map_option (\<lambda>(r, ob'). (quantities (ob_bids ob'), ob_asks ob')) (bid_update D z ob u ptr) =
      map_option (\<lambda>f. (f, ob_asks ob)) (add_price D (pt_level ptr) u (quantities (ob_bids ob)))"
    using bids.refines_add_price [OF assms(2), of D z u ptr, symmetric] bids.frame(1) [of D z ob u ptr]
    by (cases "bid_update D z ob u ptr") auto
qed

theorem updates_refine_add_price_witness:
  "\<exists>f. map_option (\<lambda>(r, ob'). (quantities (ob_asks ob'), ob_bids ob'))
      (ask_update cents False small_book small_update origin) = Some (f, ob_bids small_book) \<and>
    f 2700 1 = Some 2700"
proof -
  have "unat (1 :: u8) = 1" by simp
  then have "quantities (ob_asks small_book) 2700 1 = Some 0"
    by (simp add: quantities_def small_book_def fresh_level_def level_consts)
  then have "add_price cents (pt_level origin) small_update (quantities (ob_asks small_book)) =
      Some ((quantities (ob_asks small_book))(2700 := (quantities (ob_asks small_book) 2700)(1 \<mapsto> 2700)))"
    by (simp add: add_price_def small_update_def cents_defs origin_def pointer_new_def)
  then show ?thesis
    using updates_refine_add_price [OF small_book_ok, of cents False small_update origin]
    by (intro exI [of _ "(quantities (ob_asks small_book))
        (2700 := (quantities (ob_asks small_book) 2700)(1 \<mapsto> 2700))"]) simp
qed

text \<open>The quantity of a depth update is never used. Two updates that differ in it only have the
  same effect and the same result on either side; the undefined flag \<open>zero_mid\<close> has no effect
  either.\<close>

theorem update_ignores_quantity:
  "ask_update D z ob (u\<lparr>du_q := q\<rparr>) ptr = ask_update D z' ob u ptr \<and>
   bid_update D z ob (u\<lparr>du_q := q\<rparr>) ptr = bid_update D z' ob u ptr"
proof
  show "ask_update D z ob (u\<lparr>du_q := q\<rparr>) ptr = ask_update D z' ob u ptr"
    using asks.ignores_zero_mid [of D z ob u ptr] asks.ignores_zero_mid [of D z' ob u ptr]
    by (simp only: asks.ignores_quantity)
  show "bid_update D z ob (u\<lparr>du_q := q\<rparr>) ptr = bid_update D z' ob u ptr"
    using bids.ignores_zero_mid [of D z ob u ptr] bids.ignores_zero_mid [of D z' ob u ptr]
    by (simp only: bids.ignores_quantity)
qed

subsection \<open>Properties of the pointer\<close>

text \<open>C18: \<open>traverse\<close> never moves the pointer. It returns \<open>Ok\<close> at once when the pointer's level is a
  liquid level of the book, the error when it is no level, and does not return at all when it is
  a level without liquidity, which is the one case the loop is written for.\<close>

theorem traverse_never_moves:
  "traverse D p book =
     (case book (pt_level p) of
        None \<Rightarrow> Some (Inl TraverseFailedInvalidLevel, p)
      | Some lv \<Rightarrow> (if level_liquid lv then Some (Inr (), p) else None))"
  by (rule traverse_eq)

text \<open>On a well-formed side of a book, which the constructor's levels make and updates keep,
  \<open>traverse\<close> returns: every level is liquid, so the loop ends in its first round, with \<open>Ok\<close> exactly when the pointer's level is a
  price point.\<close>

theorem traverse_returns_on_book:
  assumes "side_ok book"
  shows "traverse D p book =
    Some (if pt_level p \<in> dom book then Inr () else Inl TraverseFailedInvalidLevel, p)"
  using assms by (auto simp: traverse_eq side_ok_def split: option.split)

theorem traverse_returns_on_book_witness:
  "side_ok (ob_asks small_book) \<and>
   traverse cents origin (ob_asks small_book) = Some (Inl TraverseFailedInvalidLevel, origin) \<and>
   traverse cents (origin\<lparr>pt_level := 2700\<rparr>) (ob_asks small_book) =
     Some (Inr (), origin\<lparr>pt_level := 2700\<rparr>)"
proof -
  have "dom (ob_asks small_book) = {2700}" by (simp add: small_book_def)
  moreover have "pt_level origin = 0" by (simp add: origin_def pointer_new_def cents_def)
  ultimately show ?thesis
    using traverse_returns_on_book [OF small_book_ok(1), of cents origin]
      traverse_returns_on_book [OF small_book_ok(1), of cents "origin\<lparr>pt_level := 2700\<rparr>"] small_book_ok(1)
    by simp
qed

text \<open>Any number of traversals of any books, as the engine would make them after each update.\<close>

fun traversals :: "'d decimal \<Rightarrow> 'd pointer \<Rightarrow> ('d \<rightharpoonup> 'd level) list \<Rightarrow> 'd pointer option" where
  "traversals D p [] = Some p"
| "traversals D p (book # books) =
     (case traverse D p book of None \<Rightarrow> None | Some (_, p') \<Rightarrow> traversals D p' books)"

lemma traversals_stay: "traversals D p books = Some p' \<Longrightarrow> p' = p"
  by (induction books arbitrary: p)
     (auto simp: traverse_eq split: option.splits if_splits prod.splits)

text \<open>A new pointer stays at zero. Whatever sequence of books it traverses, when all the calls
  return its level is \<open>Decimal::ZERO\<close>, so the updates compare the stored sums with zero and never
  with a price of the book.\<close>

theorem pointer_stays_at_zero:
  assumes "traversals D (pointer_new D tick sd) books = Some p"
  shows "pt_level p = dec_zero D \<and> pt_tick p = tick \<and> pt_side p = sd"
  using traversals_stay [OF assms] by (simp add: pointer_new_def)

theorem pointer_stays_at_zero_witness:
  "\<exists>p. traversals cents (pointer_new cents 1 Ask) [ob_asks small_book, ob_bids small_book] = Some p \<and>
     pt_level p = 0"
proof -
  have "\<exists>p. traversals cents (pointer_new cents 1 Ask) [ob_asks small_book, ob_bids small_book] = Some p"
    by (simp add: traverse_eq small_book_def pointer_new_def cents_def)
  then obtain p where "traversals cents (pointer_new cents 1 Ask) [ob_asks small_book, ob_bids small_book] = Some p" ..
  with pointer_stays_at_zero [OF this] show ?thesis by (auto simp: cents_def)
qed

text \<open>
  What the constructor would leave if \<open>Decimal::new\<close> took the scale of \<open>Level::new\<close> (C10): a built
  book is well formed.
\<close>

lemma built_book_ok:
  assumes "order_book_new D config = Some ob"
  shows "side_ok (ob_asks ob) \<and> side_ok (ob_bids ob)"
proof -
  obtain tick mid where b: "build_orderbook D tick mid (oc_depth config) =
      Some (ob_asks ob, ob_bids ob)"
    using assms by (auto simp: order_book_new_def split: bind_splits prod.splits)
  show ?thesis
    unfolding side_ok_def
    using level_new_ok [OF build_made(1) [OF b]] level_new_ok [OF build_made(2) [OF b]] by blast
qed

end
