(* ===== verification/Engine_Errors.thy ===== *)
theory Engine_Errors
  imports Market_Objects
begin

text \<open>
  The error types of \<open>objs/errors/src/lib.rs\<close>, \<open>exchange/src/errors.rs\<close> and
  \<open>depth-driver/src/errors.rs\<close>, the messages they display, and the conversion of an exchange's
  error to the driver's. \<open>'w\<close> stands for tungstenite's error, \<open>'j\<close> for \<open>serde_json\<close>'s, and
  what they display is an argument.
\<close>

datatype error_hot_path =
    Serialization string
  | QuoterGRPCError string
  | QuoteServerSinkError string
  | HotExchangeStreamSnapshot string
  | OrderBookDealSendFail

datatype 'w error_initial_state =
    InitExchangeWSError 'w
  | InitMessageSerialization string
  | InitWSConnection string
  | InitSnapshot string
  | InitExchangeController

datatype 'j exchange_stream_error =
    ExchangeNoSnapshot string
  | ExchangeWSError string
  | ExchangeWSReconnectError string
  | ExchangeStreamSnapshot string
  | ReceivedNonTextMessageFromExchange
  | WSConnection string
  | Snapshot string
  | ExchangeController
  | HttpRequest string
  | DepthPool string
  | Deserialization 'j

fun hot_path_display :: "error_hot_path \<Rightarrow> string" where
  "hot_path_display (Serialization m) = ''Serialization error: '' @ m"
| "hot_path_display (QuoterGRPCError m) = ''Quoter GRPC Error: '' @ m"
| "hot_path_display (QuoteServerSinkError m) = ''Quote Server Sink Error: '' @ m"
| "hot_path_display (HotExchangeStreamSnapshot m) = ''Exchange Stream Snapshot Error: '' @ m"
| "hot_path_display OrderBookDealSendFail = ''Deal send failed''"

fun stream_error_display :: "('j \<Rightarrow> string) \<Rightarrow> 'j exchange_stream_error \<Rightarrow> string" where
  "stream_error_display show_json (ExchangeNoSnapshot m) = ''Exchange No Snapshot: '' @ m"
| "stream_error_display show_json (ExchangeWSError m) = ''Exchange WS Error: '' @ m"
| "stream_error_display show_json (ExchangeWSReconnectError m) = ''Exchange WS Reconnect Error: '' @ m"
| "stream_error_display show_json (ExchangeStreamSnapshot m) = ''HTTP Snapshot error: '' @ m"
| "stream_error_display show_json ReceivedNonTextMessageFromExchange =
     ''Received non-text message from exchange''"
| "stream_error_display show_json (WSConnection m) = ''WS Connection Error: '' @ m"
| "stream_error_display show_json (Snapshot m) = ''Exchange Snapshot error: '' @ m"
| "stream_error_display show_json ExchangeController = ''Exchange Controller Error''"
| "stream_error_display show_json (HttpRequest m) = ''HTTP request error: '' @ m"
| "stream_error_display show_json (DepthPool m) = ''Depth pool error: '' @ m"
| "stream_error_display show_json (Deserialization e) =
     ''Snapshot deserialization error: '' @ show_json e"

fun initial_state_display :: "('w \<Rightarrow> string) \<Rightarrow> 'w error_initial_state \<Rightarrow> string" where
  "initial_state_display show_ws (InitExchangeWSError e) = ''Exchange WS Error: '' @ show_ws e"
| "initial_state_display show_ws (InitMessageSerialization m) = ''Message Serialization Error: '' @ m"
| "initial_state_display show_ws (InitWSConnection m) = ''WS Connection Error: '' @ m"
| "initial_state_display show_ws (InitSnapshot m) = ''Exchange Snapshot error: '' @ m"
| "initial_state_display show_ws InitExchangeController = ''Exchange Controller Error''"

text \<open>\<open>impl From<ExchangeStreamError> for ErrorInitialState\<close>, in the order of its arms.\<close>

fun initial_state_of ::
  "('j \<Rightarrow> string) \<Rightarrow> 'j exchange_stream_error \<Rightarrow> 'w error_initial_state" where
  "initial_state_of show_json ExchangeController = InitExchangeController"
| "initial_state_of show_json (WSConnection m) = InitWSConnection m"
| "initial_state_of show_json (Snapshot m) = InitSnapshot m"
| "initial_state_of show_json (ExchangeNoSnapshot m) = InitSnapshot m"
| "initial_state_of show_json (ExchangeStreamSnapshot m) = InitSnapshot m"
| "initial_state_of show_json (Deserialization e) = InitMessageSerialization (show_json e)"
| "initial_state_of show_json other = InitWSConnection (stream_error_display show_json other)"

text \<open>\<open>ErrorWithSource\<close> and \<open>DepthDriverError\<close>: declared, and not used by any other code.\<close>

datatype ('w, 'j, 'io, 'dyn) error_with_source =
    SrcNetwork 'w
  | SrcSerialization 'j
  | SrcIo 'io string
  | SrcCustom string 'dyn

datatype depth_driver_error = RuntimeFailed

end
