(* ===== verification/Exchange_Env.thy ===== *)
theory Exchange_Env
  imports Engine_Errors
begin

text \<open>
  What the exchange client uses and the repository does not contain, as one record passed to
  the definitions that call it: \<open>arrayvec\<close>'s bounded vector (its state is the list of its
  elements), the depth pool's \<open>insert\<close> and \<open>release\<close> (the \<open>depth-pool\<close> crate of the
  repository does not define them) and \<open>market_objects::book::parse_binance_book\<close> (the
  module is missing). Their documented behaviour is stated as named predicates.
\<close>

datatype pool_error = Exhausted | OtherPoolError string

text \<open>
  The state that the callback of \<open>parse_binance_book\<close> captures: the target buffer, the pool and
  the flag \<open>full\<close>; \<open>None\<close> once the callback has panicked.
\<close>

type_synonym ('sl, 'pool) ingest_state = "('sl list \<times> 'pool \<times> bool) option"

type_synonym ('d, 'sl, 'pool) ingest_callback =
  "'d depth_update \<Rightarrow> ('sl, 'pool) ingest_state \<Rightarrow> bool \<times> ('sl, 'pool) ingest_state"

record ('d, 'sl, 'pool, 'j) env =
  av_is_full :: "'sl list \<Rightarrow> bool"
  av_push :: "'sl list \<Rightarrow> 'sl \<Rightarrow> 'sl list option"
  av_pop :: "'sl list \<Rightarrow> ('sl \<times> 'sl list) option"
  av_drain :: "nat \<Rightarrow> 'sl list \<Rightarrow> 'sl list \<times> 'sl list"
  pool_insert :: "'pool \<Rightarrow> 'd depth_update \<Rightarrow> (pool_error + 'sl) \<times> 'pool"
  pool_release :: "'pool \<Rightarrow> 'sl \<Rightarrow> 'pool"
  parse_binance_book :: "bytes \<Rightarrow> u8 \<Rightarrow> bool \<Rightarrow> ('d, 'sl, 'pool) ingest_callback \<Rightarrow>
    ('sl, 'pool) ingest_state \<Rightarrow> ('j + unit) \<times> ('sl, 'pool) ingest_state"
  json_display :: "'j \<Rightarrow> string"

subsection \<open>Documented behaviour\<close>

text \<open>
  \<open>ArrayVec\<close> of capacity \<open>cap\<close>: \<open>push\<close> appends and panics when full, \<open>pop\<close> takes the last
  element, \<open>drain(n..)\<close> removes and yields the elements from index \<open>n\<close> on.
\<close>

definition arrayvec_laws :: "('d, 'sl, 'pool, 'j) env \<Rightarrow> nat \<Rightarrow> bool" where
  "arrayvec_laws X cap \<longleftrightarrow>
     (\<forall>xs. av_is_full X xs \<longleftrightarrow> List.length xs = cap) \<and>
     (\<forall>xs x. av_push X xs x = (if List.length xs < cap then Some (xs @ [x]) else None)) \<and>
     (\<forall>xs. av_pop X xs = (if xs = [] then None else Some (last xs, butlast xs))) \<and>
     (\<forall>n xs. av_drain X n xs = (drop n xs, take n xs))"

text \<open>
  The pool: \<open>live\<close> is the set of slots taken from it and not released. An insert that succeeds
  takes a slot that is not live, one that fails takes none.
\<close>

definition pool_laws :: "('d, 'sl, 'pool, 'j) env \<Rightarrow> ('pool \<Rightarrow> 'sl set) \<Rightarrow> bool" where
  "pool_laws X live \<longleftrightarrow>
     (\<forall>p u s p'. pool_insert X p u = (Inr s, p') \<longrightarrow> s \<notin> live p \<and> live p' = insert s (live p)) \<and>
     (\<forall>p u e p'. pool_insert X p u = (Inl e, p') \<longrightarrow> live p' = live p) \<and>
     (\<forall>p s. live (pool_release X p s) = live p - {s})"

text \<open>
  The parser hands the depths it reads to the callback one by one and stops with an error when
  the callback returns \<open>false\<close>. \<open>emits\<close> are the depths of a payload up to its end or its first
  syntax error, \<open>ends\<close> is how a payload that was not stopped ends.
\<close>

fun feed :: "('d depth_update \<Rightarrow> 'st \<Rightarrow> bool \<times> 'st) \<Rightarrow> 'd depth_update list \<Rightarrow> 'st \<Rightarrow> bool \<times> 'st" where
  "feed cb [] st = (True, st)"
| "feed cb (u # us) st =
     (case cb u st of (True, st') \<Rightarrow> feed cb us st' | (False, st') \<Rightarrow> (False, st'))"

definition parser_laws ::
  "('d, 'sl, 'pool, 'j) env \<Rightarrow> (bytes \<Rightarrow> u8 \<Rightarrow> bool \<Rightarrow> 'd depth_update list) \<Rightarrow>
   (bytes \<Rightarrow> 'j + unit) \<Rightarrow> 'j \<Rightarrow> bool" where
  "parser_laws X emits ends stopped \<longleftrightarrow>
     (\<forall>json loc snap cb st. parse_binance_book X json loc snap cb st =
        (case feed cb (emits json loc snap) st of
           (True, st') \<Rightarrow> (ends json, st') | (False, st') \<Rightarrow> (Inl stopped, st')))"

lemma arrayvec_simps:
  assumes "arrayvec_laws X cap"
  shows "av_is_full X xs \<longleftrightarrow> List.length xs = cap"
    and "av_push X xs x = (if List.length xs < cap then Some (xs @ [x]) else None)"
    and "av_pop X xs = (if xs = [] then None else Some (last xs, butlast xs))"
    and "av_drain X n xs = (drop n xs, take n xs)"
  using assms unfolding arrayvec_laws_def by blast+

subsection \<open>A concrete instance\<close>

text \<open>
  Slots and the pool as numbers: a pool is a capacity and the set of live slots as a list, a
  slot is the least free number. A payload is the list of its bytes; each byte other than \<open>!\<close>
  is a depth of that price, and \<open>!\<close> is a syntax error.
\<close>

definition sample_insert ::
  "nat \<times> nat list \<Rightarrow> int depth_update \<Rightarrow> (pool_error + nat) \<times> (nat \<times> nat list)" where
  "sample_insert p u =
     (case p of (cap, used) \<Rightarrow>
        (case find (\<lambda>s. s \<notin> set used) [0..<cap] of
           None \<Rightarrow> (Inl Exhausted, (cap, used))
         | Some s \<Rightarrow> (Inr s, (cap, s # used))))"

definition sample_emits :: "bytes \<Rightarrow> u8 \<Rightarrow> bool \<Rightarrow> int depth_update list" where
  "sample_emits json loc snap =
     map (\<lambda>c. \<lparr>du_k = 0, du_p = of_char c, du_q = 1, du_l = loc, du_s = snap\<rparr>)
       (takeWhile (\<lambda>c. c \<noteq> CHR ''!'') json)"

definition sample_ends :: "bytes \<Rightarrow> string + unit" where
  "sample_ends json = (if CHR ''!'' \<in> set json then Inl ''syntax'' else Inr ())"

definition sample_env :: "nat \<Rightarrow> (int, nat, nat \<times> nat list, string) env" where
  "sample_env cap = \<lparr>
     av_is_full = (\<lambda>xs. List.length xs = cap),
     av_push = (\<lambda>xs x. if List.length xs < cap then Some (xs @ [x]) else None),
     av_pop = (\<lambda>xs. if xs = [] then None else Some (last xs, butlast xs)),
     av_drain = (\<lambda>n xs. (drop n xs, take n xs)),
     pool_insert = sample_insert,
     pool_release = (\<lambda>p s. (fst p, removeAll s (snd p))),
     parse_binance_book = (\<lambda>json loc snap cb st.
       case feed cb (sample_emits json loc snap) st of
         (True, st') \<Rightarrow> (sample_ends json, st') | (False, st') \<Rightarrow> (Inl ''stopped'', st')),
     json_display = (\<lambda>e. e)\<rparr>"

abbreviation sample_live :: "nat \<times> nat list \<Rightarrow> nat set" where
  "sample_live p \<equiv> set (snd p)"

lemma sample_laws:
  "arrayvec_laws (sample_env cap) cap" "pool_laws (sample_env cap) sample_live"
  "parser_laws (sample_env cap) sample_emits sample_ends ''stopped''"
proof -
  show "arrayvec_laws (sample_env cap) cap"
    by (simp add: arrayvec_laws_def sample_env_def)
  show "pool_laws (sample_env cap) sample_live"
    by (auto simp: pool_laws_def sample_env_def sample_insert_def find_Some_iff
        split: prod.splits option.splits)
  show "parser_laws (sample_env cap) sample_emits sample_ends ''stopped''"
    by (simp add: parser_laws_def sample_env_def)
qed

end
