(* ===== verification/Exchange_Ingest.thy ===== *)
theory Exchange_Ingest
  imports Exchange_Env
begin

text \<open>
  \<open>ingest_book\<close> of \<open>exchange/src/stream.rs\<close>: an order book payload goes straight into depth
  pool slots appended to a buffer, and on any failure the slots taken for it are released.
\<close>

definition DEPTH_BUFFER_SIZE :: nat where "DEPTH_BUFFER_SIZE = 1000"

datatype 'j ingest_error = Full | Parse 'j

fun ingest_error_display :: "('j \<Rightarrow> string) \<Rightarrow> 'j ingest_error \<Rightarrow> string" where
  "ingest_error_display show_json Full = ''depth buffer or depth pool is full''"
| "ingest_error_display show_json (Parse e) = ''failed to parse order book message: '' @ show_json e"

text \<open>The closure passed to the parser.\<close>

definition ingest_depth :: "('d, 'sl, 'pool, 'j) env \<Rightarrow> ('d, 'sl, 'pool) ingest_callback" where
  "ingest_depth X u st =
     (case st of
        None \<Rightarrow> (False, None)
      | Some (target, pool, full) \<Rightarrow>
          if av_is_full X target then (False, Some (target, pool, True))
          else (case pool_insert X pool u of
                  (Inr slot, pool') \<Rightarrow>
                    (case av_push X target slot of
                       Some target' \<Rightarrow> (True, Some (target', pool', full))
                     | None \<Rightarrow> (False, None))
                | (Inl Exhausted, pool') \<Rightarrow> (False, Some (target, pool', True))
                | (Inl (OtherPoolError m), pool') \<Rightarrow> (False, Some (target, pool', full))))"

fun release_all :: "('d, 'sl, 'pool, 'j) env \<Rightarrow> 'pool \<Rightarrow> 'sl list \<Rightarrow> 'pool" where
  "release_all X pool [] = pool"
| "release_all X pool (slot # slots) = release_all X (pool_release X pool slot) slots"

text \<open>\<open>None\<close> is a panic inside the closure. The result holds the pool and the target after.\<close>

definition ingest_book ::
  "('d, 'sl, 'pool, 'j) env \<Rightarrow> bytes \<Rightarrow> u8 \<Rightarrow> bool \<Rightarrow> 'pool \<Rightarrow> 'sl list \<Rightarrow>
   (('j ingest_error + unit) \<times> 'pool \<times> 'sl list) option" where
  "ingest_book X json location snapshot pool target =
     (let start = List.length target;
          (parsed, st) = parse_binance_book X json location snapshot (ingest_depth X)
            (Some (target, pool, False))
      in case st of
           None \<Rightarrow> None
         | Some (target', pool', full) \<Rightarrow>
             (case parsed of
                Inl e \<Rightarrow>
                  (let (drained, kept) = av_drain X start target'
                   in Some (Inl (if full then Full else Parse e), release_all X pool' drained, kept))
              | Inr _ \<Rightarrow> Some (Inr (), pool', target')))"

subsection \<open>What the closure does to its state\<close>

text \<open>
  Between two calls of the closure: the target has grown by slots that are live now and were
  not when the payload started, as many as depths were accepted, within the capacity.
\<close>

definition ingest_inv ::
  "('pool \<Rightarrow> 'sl set) \<Rightarrow> nat \<Rightarrow> 'sl list \<Rightarrow> 'pool \<Rightarrow> ('sl, 'pool) ingest_state \<Rightarrow> nat \<Rightarrow> bool" where
  "ingest_inv live cap target pool st n \<longleftrightarrow>
     (\<exists>slots pool' full. st = Some (target @ slots, pool', full) \<and> List.length slots = n \<and>
        distinct slots \<and> set slots \<inter> live pool = {} \<and> live pool' = live pool \<union> set slots \<and>
        List.length (target @ slots) \<le> cap)"

lemma ingest_invE:
  assumes "ingest_inv live cap target pool st n"
  obtains slots pool' full where "st = Some (target @ slots, pool', full)" "List.length slots = n"
    "distinct slots" "set slots \<inter> live pool = {}" "live pool' = live pool \<union> set slots"
    "List.length (target @ slots) \<le> cap"
  using assms by (auto simp: ingest_inv_def)

lemma ingest_inv_start:
  "List.length target \<le> cap \<Longrightarrow> ingest_inv live cap target pool (Some (target, pool, False)) 0"
  unfolding ingest_inv_def
  by (rule exI [of _ "[]"], rule exI [of _ pool], rule exI [of _ False]) simp

lemma ingest_depth_inv:
  assumes laws: "arrayvec_laws X cap" "pool_laws X live"
    and inv: "ingest_inv live cap target pool st n" and cb: "ingest_depth X u st = (ok, st')"
  shows "ingest_inv live cap target pool st' (if ok then Suc n else n)"
proof -
  from inv obtain slots pool1 full where st: "st = Some (target @ slots, pool1, full)"
    "List.length slots = n" "distinct slots" "set slots \<inter> live pool = {}"
    "live pool1 = live pool \<union> set slots" "List.length (target @ slots) \<le> cap"
    by (rule ingest_invE)
  show ?thesis
  proof (cases "List.length (target @ slots) = cap")
    case True
    then have "av_is_full X (target @ slots)" by (simp only: arrayvec_simps [OF laws(1)])
    with cb st show ?thesis by (auto simp: ingest_depth_def ingest_inv_def)
  next
    case False
    then have room: "\<not> av_is_full X (target @ slots)" "List.length (target @ slots) < cap"
      using st(6) by (simp_all only: arrayvec_simps [OF laws(1)]) simp
    obtain r pool2 where ins: "pool_insert X pool1 u = (r, pool2)" by (meson surj_pair)
    show ?thesis
    proof (cases r)
      case (Inl e)
      have "live pool2 = live pool1" using laws(2) ins Inl by (auto simp: pool_laws_def)
      with cb st ins Inl room(1) show ?thesis
        by (cases e) (auto simp: ingest_depth_def ingest_inv_def)
    next
      case (Inr s)
      have s: "s \<notin> live pool1" "live pool2 = insert s (live pool1)"
        using laws(2) ins Inr by (auto simp: pool_laws_def)
      have "av_push X (target @ slots) s = Some (target @ slots @ [s])"
        using room(2) by (simp add: arrayvec_simps [OF laws(1)])
      with cb st ins Inr room(1) have "st' = Some (target @ (slots @ [s]), pool2, full)" "ok"
        by (auto simp: ingest_depth_def)
      with s st room(2) show ?thesis unfolding ingest_inv_def by (auto intro!: exI [of _ "slots @ [s]"])
    qed
  qed
qed

lemma feed_inv:
  assumes laws: "arrayvec_laws X cap" "pool_laws X live"
  shows "ingest_inv live cap target pool st n \<Longrightarrow> feed (ingest_depth X) us st = (ok, st') \<Longrightarrow>
    \<exists>m. ingest_inv live cap target pool st' m \<and> m \<le> n + List.length us \<and>
      (ok \<longrightarrow> m = n + List.length us)"
proof (induction us arbitrary: st n)
  case Nil
  then show ?case by auto
next
  case (Cons u us)
  obtain ok1 st1 where cb: "ingest_depth X u st = (ok1, st1)" by (meson surj_pair)
  note inv = ingest_depth_inv [OF laws Cons.prems(1) cb]
  show ?case
  proof (cases ok1)
    case True
    with inv have "ingest_inv live cap target pool st1 (Suc n)" by simp
    moreover have "feed (ingest_depth X) us st1 = (ok, st')" using Cons.prems(2) cb True by simp
    ultimately obtain m where "ingest_inv live cap target pool st' m" "m \<le> Suc n + List.length us"
      "ok \<longrightarrow> m = Suc n + List.length us" using Cons.IH by blast
    then show ?thesis by auto
  next
    case False
    with inv have "ingest_inv live cap target pool st1 n" by simp
    with Cons.prems(2) cb False show ?thesis by auto
  qed
qed

lemma release_all_live:
  "pool_laws X live \<Longrightarrow> live (release_all X pool slots) = live pool - set slots"
  by (induction slots arbitrary: pool) (auto simp: pool_laws_def)

text \<open>The two outcomes of \<open>ingest_book\<close>, from the laws.\<close>

lemma ingest_book_cases:
  assumes laws: "arrayvec_laws X cap" "pool_laws X live" "parser_laws X emits ends stopped"
    and room: "List.length target \<le> cap"
  obtains (ok) slots pool' where
      "ingest_book X json loc snap pool target = Some (Inr (), pool', target @ slots)"
      "List.length slots = List.length (emits json loc snap)" "distinct slots"
      "set slots \<inter> live pool = {}" "live pool' = live pool \<union> set slots"
      "List.length (target @ slots) \<le> cap" "ends json = Inr ()"
  | (err) e pool' where "ingest_book X json loc snap pool target = Some (Inl e, pool', target)"
      "live pool' = live pool"
proof -
  obtain fin st where run: "feed (ingest_depth X) (emits json loc snap) (Some (target, pool, False)) = (fin, st)"
    by (meson surj_pair)
  from feed_inv [OF laws(1,2) ingest_inv_start [OF room] run] obtain m where
    inv: "ingest_inv live cap target pool st m" and m: "fin \<longrightarrow> m = List.length (emits json loc snap)"
    by auto
  from inv obtain slots pool1 full where st: "st = Some (target @ slots, pool1, full)"
    "List.length slots = m" "distinct slots" "set slots \<inter> live pool = {}"
    "live pool1 = live pool \<union> set slots" "List.length (target @ slots) \<le> cap"
    by (rule ingest_invE)
  have parse: "parse_binance_book X json loc snap (ingest_depth X) (Some (target, pool, False)) =
      (if fin then ends json else Inl stopped, st)"
    using laws(3) run by (cases fin) (auto simp: parser_laws_def)
  show ?thesis
  proof (cases "if fin then ends json else Inl stopped")
    case (Inr x)
    then have d: "fin" "ends json = Inr ()" by (auto split: if_splits)
    show ?thesis
    proof (rule ok)
      show "ingest_book X json loc snap pool target = Some (Inr (), pool1, target @ slots)"
        unfolding ingest_book_def parse by (simp add: Inr st(1))
      show "List.length slots = List.length (emits json loc snap)" using st(2) m d(1) by simp
    qed (use st d in simp_all)
  next
    case (Inl e)
    have drain: "av_drain X (List.length target) (target @ slots) = (slots, target)"
      by (simp add: arrayvec_simps [OF laws(1)])
    have "live (release_all X pool1 slots) = live pool"
      using st(4,5) by (auto simp: release_all_live [OF laws(2)])
    moreover have "ingest_book X json loc snap pool target =
        Some (Inl (if full then Full else Parse e), release_all X pool1 slots, target)"
      unfolding ingest_book_def parse by (simp add: Inl st(1) drain)
    ultimately show ?thesis by (intro err)
  qed
qed

end
