(* ===== verification/Float64.thy ===== *)
theory Float64
  imports Engine_Prelude "HOL-Library.Log_Nat"
begin

text \<open>
  Arithmetic on Rust's \<open>f64\<close>: the exact result of an operation, rounded to the nearest IEEE 754
  binary64 value, ties to even. The two zeros are one value, so a division by zero takes the sign
  of the dividend, and the square root of zero is zero.
\<close>

subsection \<open>Rounding\<close>

definition half_even :: "rat \<Rightarrow> int" where
  "half_even x =
     (let f = \<lfloor>x\<rfloor>; d = x - of_int f
      in if d < 1 / 2 \<or> d = 1 / 2 \<and> even f then f else f + 1)"

text \<open>The exponent of the power of two below \<open>\<bar>r\<bar>\<close>, for \<open>r \<noteq> 0\<close>.\<close>

definition log2_floor :: "rat \<Rightarrow> int" where
  "log2_floor r =
     (case quotient_of r of
        (p, q) \<Rightarrow> (let e = bitlen \<bar>p\<bar> - bitlen q
                  in if 2 powi e \<le> \<bar>r\<bar> then e else e - 1))"

text \<open>The exponent of the last place: 53 significant bits, and none below \<open>2 powi - 1074\<close>.\<close>

definition last_place :: "rat \<Rightarrow> int" where
  "last_place r = max (- 1074) (log2_floor r - 52)"

definition nearest :: "rat \<Rightarrow> rat" where
  "nearest r = (let u = 2 powi last_place r in of_int (half_even (r / u)) * u)"

definition f64_round :: "rat \<Rightarrow> f64" where
  "f64_round r =
     (let v = nearest r
      in if 2 ^ 1024 \<le> v then F64_PosInf else if v \<le> - (2 ^ 1024) then F64_NegInf else F64_Fin v)"

subsection \<open>How far rounding moves a value\<close>

lemma half_even_close: "\<bar>of_int (half_even x) - x\<bar> \<le> 1 / 2"
proof -
  have "of_int \<lfloor>x\<rfloor> \<le> x" "x < of_int \<lfloor>x\<rfloor> + 1" by linarith+
  then show ?thesis by (simp add: half_even_def Let_def abs_if) linarith
qed

lemma half_even_of_int [simp]: "half_even (of_int n) = n"
  by (simp add: half_even_def)

lemma bitlen_powi:
  assumes "0 < p"
  shows "2 powi (bitlen p - 1) \<le> (of_int p :: rat)" and "(of_int p :: rat) < 2 powi bitlen p"
proof -
  have b: "2 ^ nat (bitlen p - 1) \<le> p" "p < 2 ^ nat (bitlen p)" using bitlen_bounds [OF assms] by auto
  have pos: "0 < bitlen p" using assms bitlen_nonneg [of p] bitlen_eq_zero_iff [of p] by linarith
  have "(2 :: rat) powi (bitlen p - 1) = of_int (2 ^ nat (bitlen p - 1))"
    using pos by (simp add: power_int_def)
  then show "2 powi (bitlen p - 1) \<le> (of_int p :: rat)" using b(1) by (simp only: of_int_le_iff)
  have "(2 :: rat) powi bitlen p = of_int (2 ^ nat (bitlen p))"
    using pos by (simp add: power_int_def)
  then show "(of_int p :: rat) < 2 powi bitlen p" using b(2) by (simp only: of_int_less_iff)
qed

lemma log2_floor_bounds:
  assumes "r \<noteq> 0"
  shows "2 powi log2_floor r \<le> \<bar>r\<bar>" and "\<bar>r\<bar> < 2 powi (log2_floor r + 1)"
proof -
  obtain p q where pq: "quotient_of r = (p, q)" by fastforce
  then have q: "0 < q" and r: "r = of_int p / of_int q"
    by (simp_all add: quotient_of_denom_pos quotient_of_div)
  then have p: "0 < \<bar>p\<bar>" using assms by auto
  let ?e = "bitlen \<bar>p\<bar> - bitlen q"
  have abs: "\<bar>r\<bar> = of_int \<bar>p\<bar> / of_int q" using q r by simp
  have "\<bar>r\<bar> < 2 powi bitlen \<bar>p\<bar> / 2 powi (bitlen q - 1)"
    unfolding abs using bitlen_powi [OF p] bitlen_powi [OF q] q
    by (intro frac_less) auto
  also have "\<dots> = 2 powi (?e + 1)"
    by (simp add: power_int_diff power_int_add)
  finally have up: "\<bar>r\<bar> < 2 powi (?e + 1)" .
  have "2 powi (?e - 1) = (2 powi (bitlen \<bar>p\<bar> - 1) / 2 powi bitlen q :: rat)"
    by (simp add: power_int_diff)
  also have "\<dots> \<le> \<bar>r\<bar>"
    unfolding abs using bitlen_powi [OF p] bitlen_powi [OF q] q
    by (intro frac_le) auto
  finally have low: "2 powi (?e - 1) \<le> \<bar>r\<bar>" .
  show "2 powi log2_floor r \<le> \<bar>r\<bar>" "\<bar>r\<bar> < 2 powi (log2_floor r + 1)"
    using up low by (auto simp: log2_floor_def pq Let_def)
qed

lemma nearest_zero [simp]: "nearest 0 = 0"
  by (simp add: nearest_def half_even_def)

lemma last_place_le:
  assumes "r \<noteq> 0"
  shows "2 powi last_place r \<le> \<bar>r\<bar> / 2 ^ 52 + 1 / 2 ^ 1074"
proof (cases "- 1074 \<le> log2_floor r - 52")
  case True
  then have "2 powi last_place r = (2 powi log2_floor r / 2 ^ 52 :: rat)"
    by (simp add: last_place_def max_absorb2 power_int_diff)
  also have "\<dots> \<le> \<bar>r\<bar> / 2 ^ 52" using log2_floor_bounds(1) [OF assms] by (intro divide_right_mono) auto
  finally show ?thesis by (rule order_trans) simp
next
  case False
  then have "2 powi last_place r = (2 powi (- 1074) :: rat)"
    by (simp add: last_place_def max_absorb1)
  also have "\<dots> = 1 / 2 ^ 1074" by (simp only: power_int_minus power_int_numeral inverse_eq_divide)
  finally show ?thesis by simp
qed

lemma nearest_close: "\<bar>nearest r - r\<bar> \<le> \<bar>r\<bar> / 2 ^ 53 + 1 / 2 ^ 1075"
proof (cases "r = 0")
  case False
  let ?u = "2 powi last_place r :: rat"
  have u: "0 < ?u" by simp
  have "nearest r - r = (of_int (half_even (r / ?u)) - r / ?u) * ?u"
    using u by (simp add: nearest_def Let_def left_diff_distrib)
  then have "\<bar>nearest r - r\<bar> \<le> 1 / 2 * ?u"
    using mult_right_mono [OF half_even_close [of "r / ?u"], of ?u] u by (simp only: abs_mult abs_of_pos less_imp_le)
  also have "1 / 2 * ?u \<le> 1 / 2 * (\<bar>r\<bar> / 2 ^ 52 + 1 / 2 ^ 1074)"
    using last_place_le [OF False] by (rule mult_left_mono) simp
  finally show ?thesis by (simp only: distrib_left times_divide_times_eq power_Suc [symmetric] mult_1 numeral_eq_Suc pred_numeral_simps)
qed simp

lemma f64_round_finite:
  assumes "\<bar>r\<bar> \<le> 2 ^ 1000"
  shows "f64_round r = F64_Fin (nearest r)"
proof -
  have "\<bar>r\<bar> / 2 ^ 53 \<le> \<bar>r\<bar> / 1" by (rule divide_left_mono) simp_all
  moreover have "(1 :: rat) / 2 ^ 1075 \<le> 1" "(2 :: rat) ^ 1000 + 2 ^ 1000 + 1 < 2 ^ 1024" by simp_all
  ultimately have "\<bar>nearest r\<bar> < 2 ^ 1024" using nearest_close [of r] assms by linarith
  then show ?thesis by (simp add: f64_round_def Let_def abs_if split: if_splits)
qed

subsection \<open>Operations\<close>

definition f64_neg :: "f64 \<Rightarrow> f64" where
  "f64_neg x =
     (case x of F64_NaN \<Rightarrow> F64_NaN | F64_NegInf \<Rightarrow> F64_PosInf | F64_PosInf \<Rightarrow> F64_NegInf
      | F64_Fin r \<Rightarrow> F64_Fin (- r))"

definition f64_add :: "f64 \<Rightarrow> f64 \<Rightarrow> f64" where
  "f64_add x y =
     (case (x, y) of
        (F64_Fin a, F64_Fin b) \<Rightarrow> f64_round (a + b)
      | (F64_Fin a, _) \<Rightarrow> y
      | (_, F64_Fin b) \<Rightarrow> x
      | _ \<Rightarrow> (if x = y then x else F64_NaN))"

definition f64_sub :: "f64 \<Rightarrow> f64 \<Rightarrow> f64" where
  "f64_sub x y = f64_add x (f64_neg y)"

text \<open>The sign of a value, zero for NaN, and the infinity of a sign.\<close>

definition f64_sign :: "f64 \<Rightarrow> rat" where
  "f64_sign x = (case x of F64_NaN \<Rightarrow> 0 | F64_NegInf \<Rightarrow> -1 | F64_PosInf \<Rightarrow> 1 | F64_Fin r \<Rightarrow> sgn r)"

definition signed_inf :: "rat \<Rightarrow> f64" where
  "signed_inf s = (if 0 < s then F64_PosInf else if s < 0 then F64_NegInf else F64_NaN)"

definition f64_mul :: "f64 \<Rightarrow> f64 \<Rightarrow> f64" where
  "f64_mul x y =
     (case (x, y) of
        (F64_Fin a, F64_Fin b) \<Rightarrow> f64_round (a * b)
      | _ \<Rightarrow> signed_inf (f64_sign x * f64_sign y))"

definition f64_div :: "f64 \<Rightarrow> f64 \<Rightarrow> f64" where
  "f64_div x y =
     (case (x, y) of
        (F64_NaN, _) \<Rightarrow> F64_NaN
      | (_, F64_NaN) \<Rightarrow> F64_NaN
      | (F64_Fin a, F64_Fin b) \<Rightarrow> (if b = 0 then signed_inf (sgn a) else f64_round (a / b))
      | (F64_Fin a, _) \<Rightarrow> F64_Fin 0
      | (_, F64_Fin b) \<Rightarrow> signed_inf (f64_sign x * (if b < 0 then -1 else 1))
      | _ \<Rightarrow> F64_NaN)"

definition f64_max :: "f64 \<Rightarrow> f64 \<Rightarrow> f64" where
  "f64_max x y =
     (case (x, y) of
        (F64_NaN, _) \<Rightarrow> y
      | (_, F64_NaN) \<Rightarrow> x
      | (F64_NegInf, _) \<Rightarrow> y
      | (_, F64_NegInf) \<Rightarrow> x
      | (F64_PosInf, _) \<Rightarrow> F64_PosInf
      | (_, F64_PosInf) \<Rightarrow> F64_PosInf
      | (F64_Fin a, F64_Fin b) \<Rightarrow> F64_Fin (max a b))"

definition f64_abs :: "f64 \<Rightarrow> f64" where
  "f64_abs x =
     (case x of F64_NaN \<Rightarrow> F64_NaN | F64_NegInf \<Rightarrow> F64_PosInf | F64_PosInf \<Rightarrow> F64_PosInf
      | F64_Fin r \<Rightarrow> F64_Fin \<bar>r\<bar>)"

text \<open>\<open>f64::round\<close>: half-way cases away from zero; the result is an \<open>f64\<close> without rounding.\<close>

definition round_half_away :: "rat \<Rightarrow> int" where
  "round_half_away r = (if r < 0 then - \<lfloor>- r + 1 / 2\<rfloor> else \<lfloor>r + 1 / 2\<rfloor>)"

definition f64_nearest_int :: "f64 \<Rightarrow> f64" where
  "f64_nearest_int x = (case x of F64_Fin r \<Rightarrow> F64_Fin (of_int (round_half_away r)) | _ \<Rightarrow> x)"

text \<open>\<open>f64::sqrt\<close>: the integer square root of the significand, and a step to the nearer value.\<close>

fun isqrt :: "nat \<Rightarrow> nat" where
  "isqrt n =
     (if n = 0 then 0
      else let s = 2 * isqrt (n div 4) in if (s + 1) * (s + 1) \<le> n then s + 1 else s)"

declare isqrt.simps [simp del]

definition f64_sqrt :: "f64 \<Rightarrow> f64" where
  "f64_sqrt x =
     (case x of
        F64_PosInf \<Rightarrow> F64_PosInf
      | F64_Fin r \<Rightarrow>
          (if r < 0 then F64_NaN
           else if r = 0 then F64_Fin 0
           else let e = log2_floor r div 2 - 52;
                    y = r / 4 powi e;
                    m = isqrt (nat \<lfloor>y\<rfloor>);
                    h = of_nat m + 1 / 2
                in F64_Fin (of_nat (if y < h * h \<or> y = h * h \<and> even m then m else m + 1) * 2 powi e))
      | _ \<Rightarrow> F64_NaN)"

lemma isqrt_bounds: "isqrt n * isqrt n \<le> n \<and> n < (isqrt n + 1) * (isqrt n + 1)"
proof (induction n rule: isqrt.induct)
  case (1 n)
  show ?case
  proof (cases "n = 0")
    case False
    let ?s = "isqrt (n div 4)"
    have "?s * ?s \<le> n div 4" "n div 4 < (?s + 1) * (?s + 1)" using 1 False by auto
    then have "4 * (?s * ?s) \<le> n" "n < 4 * ((?s + 1) * (?s + 1))" by linarith+
    then show ?thesis using False by (subst (1 2 3 4) isqrt.simps) (simp add: Let_def algebra_simps)
  qed (simp add: isqrt.simps)
qed

subsection \<open>Hundredths\<close>

lemma round_half_away_near:
  assumes "\<bar>r - of_int k\<bar> < 1 / 2"
  shows "round_half_away r = k"
proof -
  have "r - of_int k < 1 / 2" "of_int k - r < 1 / 2" using assms by linarith+
  then have "\<lfloor>- r + 1 / 2\<rfloor> = - k" "\<lfloor>r + 1 / 2\<rfloor> = k" by (intro floor_unique; simp; linarith)+
  then show ?thesis by (simp add: round_half_away_def)
qed

text \<open>An amount in hundredths, as an \<open>f64\<close>.\<close>

definition hundredths :: "int \<Rightarrow> f64" where
  "hundredths n = f64_round (of_int n / 100)"

lemma nearest_error:
  assumes "\<bar>r\<bar> \<le> b" and "b / 2 ^ 53 + 1 / 2 ^ 1075 \<le> e"
  shows "\<bar>nearest r - r\<bar> \<le> e"
proof -
  have "\<bar>r\<bar> / 2 ^ 53 \<le> b / 2 ^ 53" using assms(1) by (rule divide_right_mono) simp
  then show ?thesis using nearest_close [of r] assms(2) by linarith
qed

lemma f64_round_bounded: "\<bar>r\<bar> \<le> b \<Longrightarrow> b \<le> 2 ^ 1000 \<Longrightarrow> f64_round r = F64_Fin (nearest r)"
  by (rule f64_round_finite) linarith

text \<open>
  Adding about a hundredth and rounding to hundredths is exact up to the final rounding: the
  errors of the sum and the product stay far below one half.
\<close>

lemma hundredths_step:
  assumes "\<bar>n\<bar> \<le> 1000000000000" and "\<bar>d\<bar> \<le> 1" and t: "\<bar>t - of_int d / 100\<bar> \<le> 1 / 100000"
  shows "f64_div (f64_nearest_int (f64_mul (f64_add (hundredths n) (F64_Fin t)) (F64_Fin 100))) (F64_Fin 100) =
    hundredths (n + d)"
proof -
  let ?x = "nearest (of_int n / 100)"
  let ?y = "nearest (?x + t)"
  let ?z = "nearest (?y * 100)"
  have "\<bar>of_int n :: rat\<bar> \<le> of_int 1000000000000" "\<bar>of_int d :: rat\<bar> \<le> of_int 1"
    using assms unfolding of_int_abs [symmetric] of_int_le_iff by simp_all
  then have n: "\<bar>of_int n / 100 :: rat\<bar> \<le> 10000000000" and d: "\<bar>of_int d / 100 :: rat\<bar> \<le> 1 / 100"
    by (simp_all add: abs_divide)
  have x: "\<bar>?x - of_int n / 100\<bar> \<le> 1 / 100000" by (rule nearest_error [OF n]) simp
  have xt: "\<bar>?x + t\<bar> \<le> 20000000000" using x t n d by linarith
  have y: "\<bar>?y - (?x + t)\<bar> \<le> 1 / 10000" by (rule nearest_error [OF xt]) simp
  have y100: "\<bar>?y * 100\<bar> \<le> 3000000000000" using y xt by linarith
  have z: "\<bar>?z - ?y * 100\<bar> \<le> 1 / 100" by (rule nearest_error [OF y100]) simp
  have "\<bar>?z - of_int (n + d)\<bar> < 1 / 2" using x t y z unfolding of_int_add by linarith
  then have "round_half_away ?z = n + d" by (rule round_half_away_near)
  moreover have "f64_round (?y * 100) = F64_Fin ?z" by (rule f64_round_bounded [OF y100]) simp
  moreover have "f64_round (?x + t) = F64_Fin ?y" by (rule f64_round_bounded [OF xt]) simp
  moreover have "hundredths n = F64_Fin ?x"
    unfolding hundredths_def using f64_round_bounded [OF n] by simp
  ultimately show ?thesis
    by (simp add: f64_add_def f64_mul_def f64_nearest_int_def f64_div_def hundredths_def [of "n + d"])
qed

lemma hundredth_literal:
  shows "f64_round (1 / 100) = F64_Fin (nearest (1 / 100))" and "\<bar>nearest (1 / 100) - 1 / 100\<bar> \<le> 1 / 100000"
proof -
  show "f64_round (1 / 100) = F64_Fin (nearest (1 / 100))" by (rule f64_round_finite) simp
  have "\<bar>1 / 100 :: rat\<bar> \<le> 1 / 100" by simp
  then show "\<bar>nearest (1 / 100) - 1 / 100\<bar> \<le> 1 / 100000" by (rule nearest_error) simp
qed

lemma hundredths_up:
  "\<bar>n\<bar> \<le> 1000000000000 \<Longrightarrow>
    f64_div (f64_nearest_int (f64_mul (f64_add (hundredths n) (f64_round (1 / 100))) (F64_Fin 100))) (F64_Fin 100) =
      hundredths (n + 1)"
  unfolding hundredth_literal(1) using hundredth_literal(2) by (intro hundredths_step) simp_all

lemma hundredths_down:
  "\<bar>n\<bar> \<le> 1000000000000 \<Longrightarrow>
    f64_div (f64_nearest_int (f64_mul (f64_sub (hundredths n) (f64_round (1 / 100))) (F64_Fin 100))) (F64_Fin 100) =
      hundredths (n - 1)"
  using hundredths_step [of n "- 1" "- nearest (1 / 100)"] hundredth_literal(2)
  unfolding hundredth_literal(1) f64_sub_def by (simp add: f64_neg_def abs_minus_commute)

text \<open>Reading an amount back in hundredths gives the number it was made from.\<close>

lemma hundredths_read_back:
  assumes "\<bar>n\<bar> \<le> 1000000000000"
  shows "\<exists>r. hundredths n = F64_Fin r \<and> round_half_away (r * 100) = n"
proof -
  have "\<bar>of_int n :: rat\<bar> \<le> of_int 1000000000000" using assms unfolding of_int_abs [symmetric] of_int_le_iff .
  then have n: "\<bar>of_int n / 100 :: rat\<bar> \<le> 10000000000" by (simp add: abs_divide)
  have "\<bar>nearest (of_int n / 100) - of_int n / 100\<bar> \<le> 1 / 100000" by (rule nearest_error [OF n]) simp
  then have "\<bar>nearest (of_int n / 100) * 100 - of_int n\<bar> < 1 / 2" by linarith
  then have "round_half_away (nearest (of_int n / 100) * 100) = n" by (rule round_half_away_near)
  moreover have "hundredths n = F64_Fin (nearest (of_int n / 100))"
    unfolding hundredths_def using f64_round_bounded [OF n] by simp
  ultimately show ?thesis by blast
qed

end
