(* ===== verification/Engine_Config.thy ===== *)
theory Engine_Config
  imports Orderbook Float64
begin

text \<open>
  \<open>objs/config/src/lib.rs\<close>: the configuration records and the function that reads them from a
  YAML file. The file system and \<open>serde_yaml\<close> are arguments. \<open>OrderbookConfig\<close> is the record
  \<open>orderbook_config\<close> of the theory \<open>Orderbook\<close>.
\<close>

record exchange_config =
  ec_client_name :: string
  ec_exchange_name :: u8
  ec_http_client :: bool
  ec_snapshot_enabled :: bool
  ec_snapshot_uri :: string
  ec_ws_uri :: string
  ec_ws_poll_rate_milliseconds :: u8
  ec_ws_presequenced_depth_buffer :: u64
  ec_depth :: u64
  ec_buffer_size :: u64
  ec_watched_pair :: string
  ec_ignore_snapshot_websocket :: "bool option"

record grpc_server_config =
  gc_host_uri :: string

record config =
  cf_io_thread_percentage :: f64
  cf_exchanges :: "exchange_config list"
  cf_orderbook :: orderbook_config
  cf_grpc_server :: grpc_server_config

definition orderbook_config_default :: orderbook_config where
  "orderbook_config_default =
     \<lparr>oc_exchange_count = 1, oc_depth = 5000, oc_mid_price = F64_Fin 2500,
      oc_tick_size = f64_round (1 / 100), oc_ticker = ''OPENAI/USD''\<rparr>"

text \<open>\<open>open\<close> and \<open>read_to_string\<close> of the file system, \<open>serde_yaml::from_str\<close>, each with its error.\<close>

definition read_yaml_config ::
  "(string \<Rightarrow> 'e + 'file) \<Rightarrow> ('file \<Rightarrow> 'e + string) \<Rightarrow> (string \<Rightarrow> 'e + config) \<Rightarrow>
   string \<Rightarrow> 'e + config" where
  "read_yaml_config file_open read_to_string from_str path =
     (case file_open path of
        Inl e \<Rightarrow> Inl e
      | Inr file \<Rightarrow>
          (case read_to_string file of
             Inl e \<Rightarrow> Inl e
           | Inr contents \<Rightarrow> (case from_str contents of Inl e \<Rightarrow> Inl e | Inr config \<Rightarrow> Inr config)))"

end
