(* ===== verification/Exchange_Stream.thy ===== *)
theory Exchange_Stream
  imports Exchange_Ingest Engine_Config
begin

text \<open>
  \<open>ExchangeStream\<close> of \<open>exchange/src/stream.rs\<close>: its state, its construction and connection,
  the snapshot request, and its \<open>Stream\<close> implementation \<open>poll_next\<close>. A panic is \<open>None\<close>.
\<close>

subsection \<open>State\<close>

text \<open>What the websocket reader yields, in order: a message, an error, or the end.\<close>

datatype 'w ws_event = WsMessage message | WsFail 'w | WsEnd

text \<open>kanal's \<open>SendError\<close>, and the answer of its \<open>try_send\<close>: \<open>Inr False\<close> is a full channel.\<close>

datatype send_error = Closed | ReceiveClosed

type_synonym send_answer = "send_error + bool"

text \<open>
  The reader is the list of events that are ready on the socket; when it is empty the socket is
  pending. The producer is the list of the slots the channel has accepted so far. The
  connection, the watch receiver and the HTTP client carry no state of their own.
\<close>

record ('sl, 'pool, 'w) exchange_stream =
  es_client_name :: string
  es_exchange_name :: u8
  es_snapshot_enabled :: bool
  es_websocket_depth_buffer :: "'sl list"
  es_pull_retry_count :: u8
  es_http_snapshot_uri :: string
  es_buffer_websocket_depths :: bool
  es_ws_subscribe :: bool
  es_ws_poll_rate :: u64
  es_stream_count :: u8
  es_websocket_uri :: string
  es_watched_pair :: string
  es_buffer :: "'sl list"
  es_snapshot_sync :: "unit option"
  es_depth_update_buffer :: "'sl list"
  es_ws_connection_orderbook :: "unit option"
  es_ws_connection_orderbook_reader :: "'w ws_event list option"
  es_depths_producer :: "'sl list"
  es_depth_pool :: "'pool"
  es_http_client :: "unit option"

datatype 'w ws_stream_state =
  WSError 'w | SenderError | FailedStream | FailedDeserialize | BufferFull | Success | WaitingForDepth

subsection \<open>Construction and connection\<close>

text \<open>\<open>client_new\<close> is what \<open>cyper::Client::new\<close> returns, its error as displayed.\<close>

definition exchange_stream_new ::
  "exchange_config \<Rightarrow> 'sl list \<Rightarrow> 'pool \<Rightarrow> unit \<Rightarrow> bool \<Rightarrow> string + unit \<Rightarrow>
   'j exchange_stream_error + ('sl, 'pool, 'w) exchange_stream" where
  "exchange_stream_new exchange_config orders_producer depth_pool snapshot_sync http_client_option
     client_new =
     (let exchange = (\<lambda>http_client. \<lparr>
        es_client_name = ec_client_name exchange_config,
        es_exchange_name = ec_exchange_name exchange_config,
        es_snapshot_enabled = ec_snapshot_enabled exchange_config,
        es_websocket_depth_buffer = [],
        es_pull_retry_count = 5,
        es_http_snapshot_uri = ec_snapshot_uri exchange_config,
        es_buffer_websocket_depths = False,
        es_ws_subscribe = False,
        es_ws_poll_rate = ucast (ec_ws_poll_rate_milliseconds exchange_config),
        es_stream_count = 0,
        es_websocket_uri = ec_ws_uri exchange_config,
        es_watched_pair = ec_watched_pair exchange_config,
        es_buffer = [],
        es_snapshot_sync = Some snapshot_sync,
        es_depth_update_buffer = [],
        es_ws_connection_orderbook = None,
        es_ws_connection_orderbook_reader = None,
        es_depths_producer = orders_producer,
        es_depth_pool = depth_pool,
        es_http_client = http_client\<rparr>)
      in if ec_snapshot_enabled exchange_config
         then (case client_new of
                 Inl e \<Rightarrow> Inl (HttpRequest e)
               | Inr client \<Rightarrow> Inr (exchange (Some client)))
         else Inr (exchange None))"

text \<open>
  \<open>start\<close> and \<open>reconnect\<close> differ in the error they return. The connection's result is an
  argument: its error as displayed, or the sink and the events of the new reader.
\<close>

definition stream_start ::
  "string + 'sink \<times> 'w ws_event list \<Rightarrow> ('sl, 'pool, 'w) exchange_stream \<Rightarrow>
   ('j exchange_stream_error + 'sink) \<times> ('sl, 'pool, 'w) exchange_stream" where
  "stream_start conn this =
     (case conn of
        Inr (sink, stream) \<Rightarrow> (Inr sink, this\<lparr>es_ws_connection_orderbook_reader := Some stream\<rparr>)
      | Inl ws_error \<Rightarrow> (Inl (WSConnection ws_error), this))"

definition stream_reconnect ::
  "string + 'sink \<times> 'w ws_event list \<Rightarrow> ('sl, 'pool, 'w) exchange_stream \<Rightarrow>
   ('j exchange_stream_error + 'sink) \<times> ('sl, 'pool, 'w) exchange_stream" where
  "stream_reconnect conn this =
     (case conn of
        Inr (sink, stream) \<Rightarrow> (Inr sink, this\<lparr>es_ws_connection_orderbook_reader := Some stream\<rparr>)
      | Inl ws_error \<Rightarrow> (Inl (ExchangeWSReconnectError ws_error), this))"

subsection \<open>The snapshot request\<close>

text \<open>
  What the network answers to one request: the request builder, the response with its status
  (and the status as displayed), its body; each error as displayed.
\<close>

record http_answer =
  ha_get :: "string + unit"
  ha_send :: "string + nat \<times> string"
  ha_bytes :: "string + bytes"

definition orderbook_snapshot ::
  "http_answer \<Rightarrow> ('sl, 'pool, 'w) exchange_stream \<Rightarrow> ('j exchange_stream_error + bytes) option" where
  "orderbook_snapshot answer this =
     (if \<not> (es_exchange_name this = 1 \<or> es_exchange_name this = 2)
      then Some (Inl (Snapshot ''Failed to create snapshot''))
      else (case es_http_client this of
              None \<Rightarrow> None
            | Some _ \<Rightarrow>
                Some (case ha_get answer of
                        Inl e \<Rightarrow> Inl (HttpRequest e)
                      | Inr _ \<Rightarrow>
                          (case ha_send answer of
                             Inl err \<Rightarrow> Inl (Snapshot err)
                           | Inr (status, shown) \<Rightarrow>
                               if status \<noteq> 200
                               then Inl (ExchangeStreamSnapshot
                                 (''failed to get snapshot through http. received error code: ''
                                  @ shown))
                               else (case ha_bytes answer of
                                       Inl e \<Rightarrow> Inl (HttpRequest e)
                                     | Inr body \<Rightarrow> Inr body)))))"

definition pull_depths ::
  "('d, 'sl, 'pool, 'j) env \<Rightarrow> http_answer \<Rightarrow> ('sl, 'pool, 'w) exchange_stream \<Rightarrow>
   (('j exchange_stream_error + 'sl list) \<times> ('sl, 'pool, 'w) exchange_stream) option" where
  "pull_depths X answer this =
     (case orderbook_snapshot answer this of
        None \<Rightarrow> None
      | Some (Inl e) \<Rightarrow> Some (Inl e, this)
      | Some (Inr body) \<Rightarrow>
          (case ingest_book X body (es_exchange_name this) True (es_depth_pool this) [] of
             None \<Rightarrow> None
           | Some (Inl e, pool, _) \<Rightarrow>
               Some (Inl (Snapshot (ingest_error_display (json_display X) e)),
                 this\<lparr>es_depth_pool := pool\<rparr>)
           | Some (Inr _, pool, depths) \<Rightarrow> Some (Inr depths, this\<lparr>es_depth_pool := pool\<rparr>)))"

subsection \<open>Polling\<close>

text \<open>The first part of \<open>poll_next\<close>: one buffered slot is offered to the channel.\<close>

definition send_buffered ::
  "('d, 'sl, 'pool, 'j) env \<Rightarrow> send_answer \<Rightarrow> ('sl, 'pool, 'w) exchange_stream \<Rightarrow>
   ('w ws_stream_state option \<times> ('sl, 'pool, 'w) exchange_stream) option" where
  "send_buffered X answer this =
     (case av_pop X (es_buffer this) of
        None \<Rightarrow> Some (None, this)
      | Some (slot, rest) \<Rightarrow>
          (let popped = this\<lparr>es_buffer := rest\<rparr>
           in case answer of
                Inr True \<Rightarrow>
                  Some (None, popped\<lparr>es_depths_producer := es_depths_producer popped @ [slot]\<rparr>)
              | Inr False \<Rightarrow>
                  (case av_push X rest slot of
                     None \<Rightarrow> None
                   | Some buffer \<Rightarrow> Some (Some SenderError, popped\<lparr>es_buffer := buffer\<rparr>))
              | Inl Closed \<Rightarrow>
                  Some (Some SenderError,
                    popped\<lparr>es_depth_pool := pool_release X (es_depth_pool popped) slot\<rparr>)
              | Inl ReceiveClosed \<Rightarrow>
                  Some (Some SenderError,
                    popped\<lparr>es_depth_pool := pool_release X (es_depth_pool popped) slot\<rparr>)))"

fun is_pong :: "message \<Rightarrow> bool" where
  "is_pong (Pong _) = True"
| "is_pong _ = False"

fun is_ping :: "message \<Rightarrow> bool" where
  "is_ping (Ping _) = True"
| "is_ping _ = False"

text \<open>
  The match arms of exchanges 1 and 2 for one message. \<open>None\<close> in the first component goes on
  with the loop, \<open>Some r\<close> returns \<open>r\<close> from \<open>poll_next\<close>. They differ in the buffer they fill.
\<close>

definition message_arm_1 ::
  "('d, 'sl, 'pool, 'j) env \<Rightarrow> message \<Rightarrow> ('sl, 'pool, 'w) exchange_stream \<Rightarrow>
   ('w ws_stream_state option \<times> ('sl, 'pool, 'w) exchange_stream) option" where
  "message_arm_1 X ws_message this =
     (if es_stream_count this \<noteq> 1 then Some (Some Success, this\<lparr>es_stream_count := 1\<rparr>)
      else if is_pong ws_message \<or> is_ping ws_message then Some (None, this)
      else (case ws_message of
              Text text \<Rightarrow>
                (case ingest_book X text 1 False (es_depth_pool this) (es_buffer this) of
                   None \<Rightarrow> None
                 | Some (ingested, pool, buffer) \<Rightarrow>
                     (let after = this\<lparr>es_depth_pool := pool, es_buffer := buffer\<rparr>
                      in case ingested of
                           Inr _ \<Rightarrow> Some (None, after)
                         | Inl Full \<Rightarrow> Some (Some BufferFull, after)
                         | Inl (Parse e) \<Rightarrow> Some (None, after)))
            | _ \<Rightarrow> Some (None, this)))"

definition message_arm_2 ::
  "('d, 'sl, 'pool, 'j) env \<Rightarrow> message \<Rightarrow> ('sl, 'pool, 'w) exchange_stream \<Rightarrow>
   ('w ws_stream_state option \<times> ('sl, 'pool, 'w) exchange_stream) option" where
  "message_arm_2 X ws_message this =
     (if es_stream_count this \<noteq> 1 then Some (Some Success, this\<lparr>es_stream_count := 1\<rparr>)
      else if is_pong ws_message \<or> is_ping ws_message then Some (None, this)
      else (case ws_message of
              Text text \<Rightarrow>
                (case ingest_book X text 1 False (es_depth_pool this) (es_depth_update_buffer this) of
                   None \<Rightarrow> None
                 | Some (ingested, pool, buffer) \<Rightarrow>
                     (let after = this\<lparr>es_depth_pool := pool, es_depth_update_buffer := buffer\<rparr>
                      in case ingested of
                           Inr _ \<Rightarrow> Some (None, after)
                         | Inl Full \<Rightarrow> Some (Some BufferFull, after)
                         | Inl (Parse e) \<Rightarrow> Some (None, after)))
            | _ \<Rightarrow> Some (None, this)))"

text \<open>The \<open>while let\<close> loop over the ready events; \<open>_ => break\<close> for any other exchange.\<close>

fun read_loop ::
  "('d, 'sl, 'pool, 'j) env \<Rightarrow> 'w ws_event list \<Rightarrow> ('sl, 'pool, 'w) exchange_stream \<Rightarrow>
   ('w ws_stream_state \<times> ('sl, 'pool, 'w) exchange_stream) option" where
  "read_loop X [] this = Some (WaitingForDepth, this\<lparr>es_ws_connection_orderbook_reader := Some []\<rparr>)"
| "read_loop X (event # events) this =
     (let left = (\<lambda>t. t\<lparr>es_ws_connection_orderbook_reader := Some events\<rparr>)
      in case event of
           WsMessage ws_message \<Rightarrow>
             (if es_exchange_name this = 1 \<or> es_exchange_name this = 2
              then (case (if es_exchange_name this = 1 then message_arm_1 X ws_message this
                          else message_arm_2 X ws_message this) of
                      None \<Rightarrow> None
                    | Some (None, this') \<Rightarrow> read_loop X events this'
                    | Some (Some r, this') \<Rightarrow> Some (r, left this'))
              else Some (WaitingForDepth, left this))
         | WsFail ws_error \<Rightarrow> Some (WSError ws_error, left this)
         | WsEnd \<Rightarrow> Some (WaitingForDepth, left this))"

definition poll_next ::
  "('d, 'sl, 'pool, 'j) env \<Rightarrow> send_answer \<Rightarrow> ('sl, 'pool, 'w) exchange_stream \<Rightarrow>
   ('w ws_stream_state option poll \<times> ('sl, 'pool, 'w) exchange_stream) option" where
  "poll_next X answer this =
     (case send_buffered X answer this of
        None \<Rightarrow> None
      | Some (Some r, this') \<Rightarrow> Some (Ready (Some r), this')
      | Some (None, this') \<Rightarrow>
          (case es_ws_connection_orderbook_reader this' of
             None \<Rightarrow> Some (Ready (Some FailedStream), this')
           | Some orderbooks \<Rightarrow>
               (case read_loop X orderbooks this' of
                  None \<Rightarrow> None
                | Some (r, this'') \<Rightarrow> Some (Ready (Some r), this''))))"

end
