(* ===== verification/Exchange_Run.thy ===== *)
theory Exchange_Run
  imports Exchange_Stream
begin

text \<open>
  The asynchronous operations of \<open>ExchangeStream\<close> that drive \<open>poll_next\<close>: \<open>run\<close>,
  \<open>run_snapshot\<close>, \<open>run_with_snapshot\<close>, \<open>push_buffered_ws_depths\<close> and \<open>sequence_depths\<close>. What the
  environment does is an argument: for each poll the answer of the channel and the events that
  became ready on the socket before it, for each snapshot request the network's answer.
\<close>

type_synonym 'w poll_input = "send_answer \<times> 'w ws_event list"

definition arrive ::
  "'w ws_event list \<Rightarrow> ('sl, 'pool, 'w) exchange_stream \<Rightarrow> ('sl, 'pool, 'w) exchange_stream" where
  "arrive events this =
     this\<lparr>es_ws_connection_orderbook_reader :=
       map_option (\<lambda>ready. ready @ events) (es_ws_connection_orderbook_reader this)\<rparr>"

text \<open>
  \<open>self.next().await\<close>. \<open>None\<close> is a panic, and also a future that is pending and never woken; the
  latter does not happen, since \<open>poll_next\<close> is always ready (lemma \<open>poll_next_ready\<close>).
\<close>

definition next_await ::
  "('d, 'sl, 'pool, 'j) env \<Rightarrow> 'w poll_input \<Rightarrow> ('sl, 'pool, 'w) exchange_stream \<Rightarrow>
   ('w ws_stream_state option \<times> ('sl, 'pool, 'w) exchange_stream) option" where
  "next_await X input this =
     (case poll_next X (fst input) (arrive (snd input) this) of
        None \<Rightarrow> None
      | Some (Pending, _) \<Rightarrow> None
      | Some (Ready r, this') \<Rightarrow> Some (r, this'))"


text \<open>
  Loops that push a slot and poll once, over the slots of a snapshot iterator. They return the
  inputs that are left for the polls that follow.
\<close>

fun push_update_loop ::
  "('d, 'sl, 'pool, 'j) env \<Rightarrow> 'sl list \<Rightarrow> (nat \<Rightarrow> 'w poll_input) \<Rightarrow>
   ('sl, 'pool, 'w) exchange_stream \<Rightarrow>
   ((nat \<Rightarrow> 'w poll_input) \<times> ('sl, 'pool, 'w) exchange_stream) option" where
  "push_update_loop X [] inputs this = Some (inputs, this)"
| "push_update_loop X (depth # depths) inputs this =
     (case av_push X (es_depth_update_buffer this) depth of
        None \<Rightarrow> None
      | Some pushed \<Rightarrow>
          (case next_await X (inputs 0) (this\<lparr>es_depth_update_buffer := pushed\<rparr>) of
             None \<Rightarrow> None
           | Some (_, this') \<Rightarrow> push_update_loop X depths (\<lambda>n. inputs (Suc n)) this'))"

fun push_buffer_loop ::
  "('d, 'sl, 'pool, 'j) env \<Rightarrow> 'sl list \<Rightarrow> (nat \<Rightarrow> 'w poll_input) \<Rightarrow>
   ('sl, 'pool, 'w) exchange_stream \<Rightarrow>
   ((nat \<Rightarrow> 'w poll_input) \<times> ('sl, 'pool, 'w) exchange_stream) option" where
  "push_buffer_loop X [] inputs this = Some (inputs, this)"
| "push_buffer_loop X (depth # depths) inputs this =
     (case av_push X (es_buffer this) depth of
        None \<Rightarrow> None
      | Some pushed \<Rightarrow>
          (case next_await X (inputs 0) (this\<lparr>es_buffer := pushed\<rparr>) of
             None \<Rightarrow> None
           | Some (_, this') \<Rightarrow> push_buffer_loop X depths (\<lambda>n. inputs (Suc n)) this'))"

text \<open>
  \<open>run_snapshot\<close>: its \<open>while !success\<close> loop runs once, for one branch sets \<open>success\<close> and the
  other returns.
\<close>

definition stream_run_snapshot ::
  "('d, 'sl, 'pool, 'j) env \<Rightarrow> http_answer \<Rightarrow> (nat \<Rightarrow> 'w poll_input) \<Rightarrow>
   ('sl, 'pool, 'w) exchange_stream \<Rightarrow>
   (('j exchange_stream_error + unit) \<times> ('sl, 'pool, 'w) exchange_stream) option" where
  "stream_run_snapshot X answer inputs this =
     (case pull_depths X answer (this\<lparr>es_buffer_websocket_depths := True\<rparr>) of
        None \<Rightarrow> None
      | Some (Inl pull_error, this') \<Rightarrow>
          Some (Inl (Snapshot (stream_error_display (json_display X) pull_error)), this')
      | Some (Inr depths, this') \<Rightarrow>
          (case push_update_loop X depths inputs this' of
             None \<Rightarrow> None
           | Some (_, this'') \<Rightarrow> Some (Inr (), this'')))"

text \<open>
  Draining loops: \<open>while let Some(d) = self.websocket_depth_buffer.pop()\<close>. Polls between the
  pops do not refill the buffer, so its length bounds the rounds; running out of \<open>fuel\<close> is \<open>None\<close>.
\<close>

fun push_buffered_loop ::
  "('d, 'sl, 'pool, 'j) env \<Rightarrow> nat \<Rightarrow> ('sl, 'pool, 'w) exchange_stream \<Rightarrow>
   ('sl, 'pool, 'w) exchange_stream option" where
  "push_buffered_loop X fuel this =
     (case av_pop X (es_websocket_depth_buffer this) of
        None \<Rightarrow> Some this
      | Some (websocket_depth, rest) \<Rightarrow>
          (case fuel of
             0 \<Rightarrow> None
           | Suc fuel' \<Rightarrow>
               (case av_push X (es_depth_update_buffer this) websocket_depth of
                  None \<Rightarrow> None
                | Some pushed \<Rightarrow>
                    push_buffered_loop X fuel'
                      (this\<lparr>es_websocket_depth_buffer := rest, es_depth_update_buffer := pushed\<rparr>))))"

declare push_buffered_loop.simps [simp del]

definition stream_push_buffered_ws_depths ::
  "('d, 'sl, 'pool, 'j) env \<Rightarrow> ('sl, 'pool, 'w) exchange_stream \<Rightarrow>
   ('sl, 'pool, 'w) exchange_stream option" where
  "stream_push_buffered_ws_depths X this =
     (case push_buffered_loop X (List.length (es_websocket_depth_buffer this)) this of
        None \<Rightarrow> None
      | Some this' \<Rightarrow> Some (this'\<lparr>es_buffer_websocket_depths := False\<rparr>))"

fun drain_loop ::
  "('d, 'sl, 'pool, 'j) env \<Rightarrow> nat \<Rightarrow> (nat \<Rightarrow> 'w poll_input) \<Rightarrow>
   ('sl, 'pool, 'w) exchange_stream \<Rightarrow> ('sl, 'pool, 'w) exchange_stream option" where
  "drain_loop X fuel inputs this =
     (case av_pop X (es_websocket_depth_buffer this) of
        None \<Rightarrow> Some this
      | Some (websocket_depth, rest) \<Rightarrow>
          (case fuel of
             0 \<Rightarrow> None
           | Suc fuel' \<Rightarrow>
               (case av_push X (es_buffer this) websocket_depth of
                  None \<Rightarrow> None
                | Some pushed \<Rightarrow>
                    (case next_await X (inputs 0)
                            (this\<lparr>es_websocket_depth_buffer := rest, es_buffer := pushed\<rparr>) of
                       None \<Rightarrow> None
                     | Some (_, this') \<Rightarrow> drain_loop X fuel' (\<lambda>n. inputs (Suc n)) this'))))"

declare drain_loop.simps [simp del]

definition stream_sequence_depths ::
  "('d, 'sl, 'pool, 'j) env \<Rightarrow> ('sl, 'pool, 'w) exchange_stream \<Rightarrow>
   ('sl, 'pool, 'w) exchange_stream option" where
  "stream_sequence_depths X this =
     fold (\<lambda>depth_update st.
         case st of
           None \<Rightarrow> None
         | Some t \<Rightarrow> (case av_push X (es_buffer t) depth_update of
                       None \<Rightarrow> None | Some pushed \<Rightarrow> Some (t\<lparr>es_buffer := pushed\<rparr>)))
       (es_websocket_depth_buffer this) (Some this)"

subsection \<open>run_with_snapshot\<close>

lemma pull_depths_frame:
  "pull_depths X answer this = Some (r, this') \<Longrightarrow> \<exists>pool. this' = this\<lparr>es_depth_pool := pool\<rparr>"
  by (auto simp: pull_depths_def split: option.splits sum.splits prod.splits intro: exI [of _ "es_depth_pool this"])

lemma unat_Suc_below:
  fixes count :: "'a :: len word"
  assumes "count < bound"
  shows "unat (count + 1) = Suc (unat count)"
proof -
  have "unat count < unat bound" using assms by (simp add: word_less_nat_alt)
  moreover have "unat bound < 2 ^ LENGTH('a)" by (rule unsigned_less)
  ultimately have "Suc (unat count) < 2 ^ LENGTH('a)" by linarith
  then show ?thesis by (simp add: unat_word_ariths)
qed

text \<open>
  The retry loop: \<open>count\<close> is \<open>pull_retry_count\<close>, \<open>answers k\<close> the network's answer to the k-th
  request. Its type is \<open>u8\<close>; the bound is the stream's \<open>pull_retry_count\<close>, and the loop ends
  because the counter grows (an increment below a bound of the same width does not overflow).
\<close>

function retry_loop ::
  "('d, 'sl, 'pool, 'j) env \<Rightarrow> (nat \<Rightarrow> http_answer) \<Rightarrow> (nat \<Rightarrow> 'w poll_input) \<Rightarrow> u8 \<Rightarrow>
   ('sl, 'pool, 'w) exchange_stream \<Rightarrow>
   (('j exchange_stream_error option \<times> (nat \<Rightarrow> 'w poll_input)) \<times> ('sl, 'pool, 'w) exchange_stream) option" where
  "retry_loop X answers inputs count this =
     (if count < es_pull_retry_count this
      then (case pull_depths X (answers (unat count)) this of
              None \<Rightarrow> None
            | Some (Inr depths, this') \<Rightarrow>
                (case push_buffer_loop X depths inputs this' of
                   None \<Rightarrow> None
                 | Some (inputs', this'') \<Rightarrow> Some ((None, inputs'), this''))
            | Some (Inl pull_error, this') \<Rightarrow>
                (if count > es_pull_retry_count this'
                 then Some ((Some (ExchangeStreamSnapshot
                        (stream_error_display (json_display X) pull_error)), inputs), this')
                 else retry_loop X answers inputs (count + 1) this'))
      else Some ((None, inputs), this))"
  by pat_completeness auto

lemma retry_measure:
  assumes "count < es_pull_retry_count this" "pull_depths X answer this = Some (r, this')"
  shows "unat (es_pull_retry_count this') - unat (count + 1) < unat (es_pull_retry_count this) - unat count"
proof -
  have "es_pull_retry_count this' = es_pull_retry_count this"
    using pull_depths_frame [OF assms(2)] by auto
  then show ?thesis using assms(1) by (simp add: unat_Suc_below [OF assms(1)] word_less_nat_alt)
qed

termination retry_loop
  by (relation "measure (\<lambda>(X, answers, inputs, count, this). unat (es_pull_retry_count this) - unat count)")
    (auto intro: retry_measure)

declare retry_loop.simps [simp del]

text \<open>
  \<open>select_biased!\<close>: the snapshot trigger wins when it is ready (\<open>changed\<close>), otherwise the poll
  timer fires. \<open>snapshot_sync.as_mut().unwrap()\<close> panics on \<open>None\<close>.
\<close>

datatype wake = Wake_Snapshot | Wake_Poll

definition select_wake :: "bool \<Rightarrow> ('sl, 'pool, 'w) exchange_stream \<Rightarrow> wake option" where
  "select_wake changed this =
     (case es_snapshot_sync this of
        None \<Rightarrow> None
      | Some _ \<Rightarrow> Some (if changed then Wake_Snapshot else Wake_Poll))"

text \<open>What \<open>run\<close> and the poll branch of \<open>run_with_snapshot\<close> make of the polled state.\<close>

fun poll_outcome :: "'w ws_stream_state option \<Rightarrow> 'j exchange_stream_error + unit" where
  "poll_outcome (Some Success) = Inr ()"
| "poll_outcome (Some WaitingForDepth) = Inr ()"
| "poll_outcome _ = Inl (ExchangeWSError ''tbd'')"

definition stream_run ::
  "('d, 'sl, 'pool, 'j) env \<Rightarrow> 'w poll_input \<Rightarrow> ('sl, 'pool, 'w) exchange_stream \<Rightarrow>
   (('j exchange_stream_error + unit) \<times> ('sl, 'pool, 'w) exchange_stream) option" where
  "stream_run X input this =
     (case next_await X input this of
        None \<Rightarrow> None
      | Some (r, this') \<Rightarrow> Some (poll_outcome r, this'))"

definition stream_run_with_snapshot ::
  "('d, 'sl, 'pool, 'j) env \<Rightarrow> bool \<Rightarrow> (nat \<Rightarrow> http_answer) \<Rightarrow> (nat \<Rightarrow> 'w poll_input) \<Rightarrow>
   ('sl, 'pool, 'w) exchange_stream \<Rightarrow>
   (('j exchange_stream_error + unit) \<times> ('sl, 'pool, 'w) exchange_stream) option" where
  "stream_run_with_snapshot X changed answers inputs this =
     (case select_wake changed this of
        None \<Rightarrow> None
      | Some Wake_Snapshot \<Rightarrow>
          (case retry_loop X answers inputs 0 (this\<lparr>es_buffer_websocket_depths := True\<rparr>) of
             None \<Rightarrow> None
           | Some ((Some e, _), this') \<Rightarrow> Some (Inl e, this')
           | Some ((None, inputs'), this') \<Rightarrow>
               (case drain_loop X (List.length (es_websocket_depth_buffer this')) inputs'
                       (this'\<lparr>es_buffer_websocket_depths := False\<rparr>) of
                  None \<Rightarrow> None
                | Some this'' \<Rightarrow> Some (Inr (), this'')))
      | Some Wake_Poll \<Rightarrow>
          (case next_await X (inputs 0) this of
             None \<Rightarrow> None
           | Some (r, this') \<Rightarrow> Some (poll_outcome r, this')))"

end
