(* ===== verification/Exchange_Slots.thy ===== *)
theory Exchange_Slots
  imports Exchange_Run
begin

text \<open>
  Who owns a depth pool slot: the buffers of the stream (and a snapshot iterator being worked
  off) own theirs, and a live slot no buffer owns is on its way to the reader. The relation
  \<open>transfers\<close> says what every operation of the stream may do with them.
\<close>

definition env_laws ::
  "('d, 'sl, 'pool, 'j) env \<Rightarrow> ('pool \<Rightarrow> 'sl set) \<Rightarrow>
   (bytes \<Rightarrow> u8 \<Rightarrow> bool \<Rightarrow> 'd depth_update list) \<Rightarrow> (bytes \<Rightarrow> 'j + unit) \<Rightarrow> 'j \<Rightarrow> bool" where
  "env_laws X live emits ends stopped \<longleftrightarrow>
     arrayvec_laws X DEPTH_BUFFER_SIZE \<and> pool_laws X live \<and> parser_laws X emits ends stopped"

lemma env_lawsD:
  assumes "env_laws X live emits ends stopped"
  shows "arrayvec_laws X DEPTH_BUFFER_SIZE" "pool_laws X live" "parser_laws X emits ends stopped"
  using assms unfolding env_laws_def by blast+

definition owned :: "('sl, 'pool, 'w) exchange_stream \<Rightarrow> 'sl list \<Rightarrow> 'sl list" where
  "owned es ds = es_buffer es @ es_depth_update_buffer es @ es_websocket_depth_buffer es @ ds"

definition in_transit ::
  "('pool \<Rightarrow> 'sl set) \<Rightarrow> ('sl, 'pool, 'w) exchange_stream \<Rightarrow> 'sl list \<Rightarrow> 'sl set" where
  "in_transit live es ds = live (es_depth_pool es) - set (owned es ds)"

definition slots_ok ::
  "('pool \<Rightarrow> 'sl set) \<Rightarrow> ('sl, 'pool, 'w) exchange_stream \<Rightarrow> 'sl list \<Rightarrow> bool" where
  "slots_ok live es ds \<longleftrightarrow>
     distinct (owned es ds) \<and> set (owned es ds) \<subseteq> live (es_depth_pool es) \<and>
     List.length (es_buffer es) \<le> DEPTH_BUFFER_SIZE \<and>
     List.length (es_depth_update_buffer es) \<le> DEPTH_BUFFER_SIZE \<and>
     List.length (es_websocket_depth_buffer es) \<le> DEPTH_BUFFER_SIZE"

definition same_setup ::
  "('sl, 'pool, 'w) exchange_stream \<Rightarrow> ('sl, 'pool, 'w) exchange_stream \<Rightarrow> bool" where
  "same_setup es es' \<longleftrightarrow>
     es_exchange_name es' = es_exchange_name es \<and>
     es_pull_retry_count es' = es_pull_retry_count es \<and>
     es_http_client es' = es_http_client es \<and> es_snapshot_sync es' = es_snapshot_sync es \<and>
     es_websocket_depth_buffer es' = es_websocket_depth_buffer es"

definition transfers ::
  "('pool \<Rightarrow> 'sl set) \<Rightarrow> ('sl, 'pool, 'w) exchange_stream \<Rightarrow> 'sl list \<Rightarrow>
   ('sl, 'pool, 'w) exchange_stream \<Rightarrow> 'sl list \<Rightarrow> bool" where
  "transfers live es ds es' ds' \<longleftrightarrow>
     slots_ok live es' ds' \<and> same_setup es es' \<and>
     (\<exists>grown. es_depth_update_buffer es' = es_depth_update_buffer es @ grown) \<and>
     (\<exists>sent. es_depths_producer es' = es_depths_producer es @ sent \<and> distinct sent \<and>
        set sent \<inter> in_transit live es ds = {} \<and>
        in_transit live es' ds' = in_transit live es ds \<union> set sent)"

lemma transfersI:
  assumes "slots_ok live es' ds'" "same_setup es es'"
    "es_depth_update_buffer es' = es_depth_update_buffer es @ grown"
    "es_depths_producer es' = es_depths_producer es @ sent" "distinct sent"
    "set sent \<inter> in_transit live es ds = {}"
    "in_transit live es' ds' = in_transit live es ds \<union> set sent"
  shows "transfers live es ds es' ds'"
  using assms unfolding transfers_def by blast

lemma transfersD:
  assumes "transfers live es ds es' ds'"
  shows "slots_ok live es' ds'" "same_setup es es'"
  using assms unfolding transfers_def by blast+

lemma same_setup_refl: "same_setup es es"
  by (simp add: same_setup_def)

lemma transfers_refl: "slots_ok live es ds \<Longrightarrow> transfers live es ds es ds"
  by (rule transfersI [where grown = "[]" and sent = "[]"]) (simp_all add: same_setup_refl)

lemma transfers_trans [trans]:
  assumes a: "transfers live es ds es1 ds1" and b: "transfers live es1 ds1 es2 ds2"
  shows "transfers live es ds es2 ds2"
proof -
  from a obtain m1 s1 where 1: "es_depth_update_buffer es1 = es_depth_update_buffer es @ m1"
    "es_depths_producer es1 = es_depths_producer es @ s1" "distinct s1"
    "set s1 \<inter> in_transit live es ds = {}" "in_transit live es1 ds1 = in_transit live es ds \<union> set s1"
    "same_setup es es1" unfolding transfers_def by blast
  from b obtain m2 s2 where 2: "es_depth_update_buffer es2 = es_depth_update_buffer es1 @ m2"
    "es_depths_producer es2 = es_depths_producer es1 @ s2" "distinct s2"
    "set s2 \<inter> in_transit live es1 ds1 = {}" "in_transit live es2 ds2 = in_transit live es1 ds1 \<union> set s2"
    "same_setup es1 es2" "slots_ok live es2 ds2" unfolding transfers_def by blast
  show ?thesis
  proof (rule transfersI)
    show "slots_ok live es2 ds2" by (rule 2(7))
    show "same_setup es es2" using 1(6) 2(6) by (simp add: same_setup_def)
    show "es_depth_update_buffer es2 = es_depth_update_buffer es @ m1 @ m2" using 1(1) 2(1) by simp
    show "es_depths_producer es2 = es_depths_producer es @ s1 @ s2" using 1(2) 2(2) by simp
    show "distinct (s1 @ s2)" using 1(3,5) 2(3,4) by auto
    show "set (s1 @ s2) \<inter> in_transit live es ds = {}" using 1(4,5) 2(4) by auto
    show "in_transit live es2 ds2 = in_transit live es ds \<union> set (s1 @ s2)" using 1(5) 2(5) by auto
  qed
qed

text \<open>Changes of the other fields move nothing.\<close>

lemma transfers_frame:
  assumes "slots_ok live es ds" "es_buffer es' = es_buffer es"
    "es_depth_update_buffer es' = es_depth_update_buffer es" "es_depths_producer es' = es_depths_producer es"
    "es_depth_pool es' = es_depth_pool es" "same_setup es es'"
  shows "transfers live es ds es' ds"
  using assms
  by (intro transfersI [where grown = "[]" and sent = "[]"])
    (simp_all add: slots_ok_def in_transit_def owned_def same_setup_def)

subsection \<open>Ingesting into a buffer\<close>

lemma ingest_buffer_transfers:
  assumes "slots_ok live es ds" "distinct slots" "set slots \<inter> live (es_depth_pool es) = {}"
    "live pool' = live (es_depth_pool es) \<union> set slots"
    "List.length (es_buffer es @ slots) \<le> DEPTH_BUFFER_SIZE"
  shows "transfers live es ds (es\<lparr>es_depth_pool := pool', es_buffer := es_buffer es @ slots\<rparr>) ds"
  using assms
  by (intro transfersI [where grown = "[]" and sent = "[]"])
    (auto simp: slots_ok_def in_transit_def owned_def same_setup_def)

lemma ingest_updates_transfers:
  assumes "slots_ok live es ds" "distinct slots" "set slots \<inter> live (es_depth_pool es) = {}"
    "live pool' = live (es_depth_pool es) \<union> set slots"
    "List.length (es_depth_update_buffer es @ slots) \<le> DEPTH_BUFFER_SIZE"
  shows "transfers live es ds
    (es\<lparr>es_depth_pool := pool', es_depth_update_buffer := es_depth_update_buffer es @ slots\<rparr>) ds"
  using assms
  by (intro transfersI [where grown = "slots" and sent = "[]"])
    (auto simp: slots_ok_def in_transit_def owned_def same_setup_def)

lemma ingest_failed_transfers:
  assumes "slots_ok live es ds" "live pool' = live (es_depth_pool es)"
  shows "transfers live es ds (es\<lparr>es_depth_pool := pool'\<rparr>) ds"
  using assms
  by (intro transfersI [where grown = "[]" and sent = "[]"])
    (auto simp: slots_ok_def in_transit_def owned_def same_setup_def)

subsection \<open>One poll\<close>

lemma send_answer_cases:
  fixes ans :: send_answer
  obtains "ans = Inr True" | "ans = Inr False" | "ans = Inl Closed \<or> ans = Inl ReceiveClosed"
proof (cases ans)
  case (Inl e)
  then show thesis using that by (cases e) simp_all
next
  case (Inr b)
  then show thesis using that by (cases b) simp_all
qed

lemma send_buffered_transfers:
  assumes env: "env_laws X live emits ends stopped" and ok: "slots_ok live es ds"
  obtains r es' where "send_buffered X ans es = Some (r, es')" "transfers live es ds es' ds"
proof (cases "es_buffer es = []")
  case True
  then have "send_buffered X ans es = Some (None, es)"
    by (simp add: send_buffered_def arrayvec_simps [OF env_lawsD(1) [OF env]])
  then show ?thesis using transfers_refl [OF ok] by (rule that)
next
  case False
  then obtain rest slot where buf: "es_buffer es = rest @ [slot]" by (metis rev_exhaust)
  note av = arrayvec_simps [OF env_lawsD(1) [OF env]]
  have fits: "List.length rest < DEPTH_BUFFER_SIZE" using ok buf by (simp add: slots_ok_def)
  have rel: "live (pool_release X (es_depth_pool es) slot) = live (es_depth_pool es) - {slot}"
    using env_lawsD(2) [OF env] by (auto simp: pool_laws_def)
  have mine: "slot \<in> live (es_depth_pool es)" "slot \<notin> set (rest @ es_depth_update_buffer es @
      es_websocket_depth_buffer es @ ds)"
    using ok buf by (auto simp: slots_ok_def owned_def)
  have released: "transfers live es ds (es\<lparr>es_buffer := rest,
      es_depth_pool := pool_release X (es_depth_pool es) slot\<rparr>) ds"
    using ok buf mine rel fits
    by (intro transfersI [where grown = "[]" and sent = "[]"])
      (auto simp: slots_ok_def in_transit_def owned_def same_setup_def)
  have sent: "transfers live es ds (es\<lparr>es_buffer := rest,
      es_depths_producer := es_depths_producer es @ [slot]\<rparr>) ds"
    using ok buf mine fits
    by (intro transfersI [where grown = "[]" and sent = "[slot]"])
      (auto simp: slots_ok_def in_transit_def owned_def same_setup_def)
  have kept: "transfers live es ds (es\<lparr>es_buffer := rest @ [slot]\<rparr>) ds"
    by (rule transfers_frame [OF ok]) (simp_all add: buf same_setup_def)
  show ?thesis
  proof (rule send_answer_cases [of ans])
    assume "ans = Inr True"
    then show ?thesis using sent by (intro that) (simp_all add: send_buffered_def av buf)
  next
    assume "ans = Inr False"
    then show ?thesis using kept fits by (intro that) (simp_all add: send_buffered_def av buf)
  next
    assume "ans = Inl Closed \<or> ans = Inl ReceiveClosed"
    then show ?thesis using released by (intro that) (auto simp: send_buffered_def av buf)
  qed
qed

lemma message_arm_1_transfers:
  assumes env: "env_laws X live emits ends stopped" and ok: "slots_ok live es ds"
  obtains r es' where "message_arm_1 X m es = Some (r, es')" "transfers live es ds es' ds"
proof (cases "es_stream_count es = 1 \<and> (\<exists>t. m = Text t)")
  case False
  then have "message_arm_1 X m es = Some (None, es) \<or>
      message_arm_1 X m es = Some (Some Success, es\<lparr>es_stream_count := 1\<rparr>)"
    by (auto simp: message_arm_1_def split: message.splits)
  moreover have "transfers live es ds (es\<lparr>es_stream_count := 1\<rparr>) ds"
    by (rule transfers_frame [OF ok]) (simp_all add: same_setup_def)
  ultimately show ?thesis using that transfers_refl [OF ok] by blast
next
  case True
  then obtain t where t: "es_stream_count es = 1" "m = Text t" by blast
  have "List.length (es_buffer es) \<le> DEPTH_BUFFER_SIZE" using ok by (simp add: slots_ok_def)
  from env_lawsD [OF env] this show ?thesis
  proof (cases rule: ingest_book_cases [where json = t and loc = 1 and snap = False
        and pool = "es_depth_pool es" and target = "es_buffer es"])
    case (ok slots pool')
    then show ?thesis
      using ingest_buffer_transfers [OF \<open>slots_ok live es ds\<close> ok(3-6)]
      by (intro that) (simp_all add: message_arm_1_def t)
  next
    case (err e pool')
    have "es\<lparr>es_depth_pool := pool', es_buffer := es_buffer es\<rparr> = es\<lparr>es_depth_pool := pool'\<rparr>" by simp
    then show ?thesis
      using err(1) ingest_failed_transfers [OF \<open>slots_ok live es ds\<close> err(2)]
      by (cases e) (auto simp: message_arm_1_def t intro: that)
  qed
qed

lemma message_arm_2_transfers:
  assumes env: "env_laws X live emits ends stopped" and ok: "slots_ok live es ds"
  obtains r es' where "message_arm_2 X m es = Some (r, es')" "transfers live es ds es' ds"
proof (cases "es_stream_count es = 1 \<and> (\<exists>t. m = Text t)")
  case False
  then have "message_arm_2 X m es = Some (None, es) \<or>
      message_arm_2 X m es = Some (Some Success, es\<lparr>es_stream_count := 1\<rparr>)"
    by (auto simp: message_arm_2_def split: message.splits)
  moreover have "transfers live es ds (es\<lparr>es_stream_count := 1\<rparr>) ds"
    by (rule transfers_frame [OF ok]) (simp_all add: same_setup_def)
  ultimately show ?thesis using that transfers_refl [OF ok] by blast
next
  case True
  then obtain t where t: "es_stream_count es = 1" "m = Text t" by blast
  have "List.length (es_depth_update_buffer es) \<le> DEPTH_BUFFER_SIZE" using ok by (simp add: slots_ok_def)
  from env_lawsD [OF env] this show ?thesis
  proof (cases rule: ingest_book_cases [where json = t and loc = 1 and snap = False
        and pool = "es_depth_pool es" and target = "es_depth_update_buffer es"])
    case (ok slots pool')
    then show ?thesis
      using ingest_updates_transfers [OF \<open>slots_ok live es ds\<close> ok(3-6)]
      by (intro that) (simp_all add: message_arm_2_def t)
  next
    case (err e pool')
    have "es\<lparr>es_depth_pool := pool', es_depth_update_buffer := es_depth_update_buffer es\<rparr> =
        es\<lparr>es_depth_pool := pool'\<rparr>" by simp
    then show ?thesis
      using err(1) ingest_failed_transfers [OF \<open>slots_ok live es ds\<close> err(2)]
      by (cases e) (auto simp: message_arm_2_def t intro: that)
  qed
qed

lemma read_loop_transfers:
  assumes env: "env_laws X live emits ends stopped"
  shows "slots_ok live es ds \<Longrightarrow>
    \<exists>r es'. read_loop X events es = Some (r, es') \<and> transfers live es ds es' ds"
proof (induction events arbitrary: es)
  case Nil
  then show ?case by (auto intro!: transfers_frame simp: same_setup_def)
next
  case (Cons event events)
  let ?left = "\<lambda>t. t\<lparr>es_ws_connection_orderbook_reader := Some events\<rparr>"
  have left: "transfers live es ds t ds \<Longrightarrow> transfers live es ds (?left t) ds" for t
    by (rule transfers_trans, assumption, rule transfers_frame)
      (auto dest: transfersD simp: same_setup_def)
  show ?case
  proof (cases "\<exists>m. event = WsMessage m \<and> (es_exchange_name es = 1 \<or> es_exchange_name es = 2)")
    case False
    then have "\<exists>r. read_loop X (event # events) es = Some (r, ?left es)"
      by (cases event) auto
    then show ?thesis using left [OF transfers_refl [OF Cons.prems]] by blast
  next
    case True
    then obtain m where m: "event = WsMessage m" "es_exchange_name es = 1 \<or> es_exchange_name es = 2"
      by blast
    let ?arm = "if es_exchange_name es = 1 then message_arm_1 X m es else message_arm_2 X m es"
    obtain r es1 where arm: "?arm = Some (r, es1)" and step: "transfers live es ds es1 ds"
      by (metis message_arm_1_transfers [OF env Cons.prems] message_arm_2_transfers [OF env Cons.prems])
    show ?thesis
    proof (cases r)
      case None
      obtain r2 es2 where "read_loop X events es1 = Some (r2, es2)" "transfers live es1 ds es2 ds"
        using Cons.IH [OF transfersD(1) [OF step]] by blast
      with None show ?thesis using arm m transfers_trans [OF step] by auto
    next
      case (Some r')
      then show ?thesis using arm m left [OF step] by auto
    qed
  qed
qed

lemma poll_next_transfers:
  assumes env: "env_laws X live emits ends stopped" and ok: "slots_ok live es ds"
  obtains r es' where "poll_next X ans es = Some (Ready (Some r), es')" "transfers live es ds es' ds"
proof -
  obtain r1 es1 where s: "send_buffered X ans es = Some (r1, es1)" "transfers live es ds es1 ds"
    by (rule send_buffered_transfers [OF env ok])
  show ?thesis
  proof (cases r1)
    case (Some r)
    then show ?thesis using s by (intro that) (simp_all add: poll_next_def)
  next
    case None
    show ?thesis
    proof (cases "es_ws_connection_orderbook_reader es1")
      case None': None
      then show ?thesis using s None by (intro that) (simp_all add: poll_next_def)
    next
      case (Some events)
      obtain r es2 where "read_loop X events es1 = Some (r, es2)" "transfers live es1 ds es2 ds"
        using read_loop_transfers [OF env transfersD(1) [OF s(2)]] by blast
      with s None Some show ?thesis
        by (intro that [of r es2] transfers_trans [OF s(2)]) (simp_all add: poll_next_def)
    qed
  qed
qed

lemma next_await_transfers:
  assumes env: "env_laws X live emits ends stopped" and ok: "slots_ok live es ds"
  obtains r es' where "next_await X input es = Some (Some r, es')" "transfers live es ds es' ds"
proof -
  have arr: "transfers live es ds (arrive (snd input) es) ds"
    by (rule transfers_frame [OF ok]) (simp_all add: arrive_def same_setup_def)
  obtain r es' where "poll_next X (fst input) (arrive (snd input) es) = Some (Ready (Some r), es')"
    "transfers live (arrive (snd input) es) ds es' ds"
    by (rule poll_next_transfers [OF env transfersD(1) [OF arr]])
  then show ?thesis
    by (intro that [of r es'] transfers_trans [OF arr]) (simp_all add: next_await_def)
qed

end
