(* ===== verification/Exchange_Ops.thy ===== *)
theory Exchange_Ops
  imports Exchange_Slots
begin

text \<open>
  Slot ownership across the asynchronous operations of the stream, and the steps and reachable
  states of a stream whose reader releases what it receives.
\<close>

subsection \<open>Snapshots\<close>

lemma pull_depths_transfers:
  fixes X :: "('d, 'sl, 'pool, 'j) env" and es es' :: "('sl, 'pool, 'w) exchange_stream"
  assumes env: "env_laws X live emits ends stopped" and ok: "slots_ok live es []"
    and pull: "pull_depths X answer es = Some (r, es')"
  shows "(\<forall>e. r = Inl e \<longrightarrow> transfers live es [] es' []) \<and>
    (\<forall>depths. r = Inr depths \<longrightarrow> transfers live es [] es' depths \<and>
      (\<exists>body pool'. orderbook_snapshot answer es =
          (Some (Inr body) :: ('j exchange_stream_error + bytes) option) \<and>
        ingest_book X body (es_exchange_name es) True (es_depth_pool es) [] =
          Some (Inr (), pool', depths) \<and>
        List.length depths = List.length (emits body (es_exchange_name es) True) \<and>
        distinct depths \<and> set depths \<inter> live (es_depth_pool es) = {}))"
proof (cases "orderbook_snapshot answer es :: ('j exchange_stream_error + bytes) option")
  case None
  with pull show ?thesis by (simp add: pull_depths_def)
next
  case (Some res)
  show ?thesis
  proof (cases res)
    case (Inl e)
    with pull Some transfers_refl [OF ok] show ?thesis by (auto simp: pull_depths_def)
  next
    case (Inr body)
    have "List.length [] \<le> DEPTH_BUFFER_SIZE" by simp
    from env_lawsD [OF env] this show ?thesis
    proof (cases rule: ingest_book_cases [where json = body and loc = "es_exchange_name es" and
          snap = True and pool = "es_depth_pool es" and target = "[]"])
      case (ok slots pool')
      have "transfers live es [] (es\<lparr>es_depth_pool := pool'\<rparr>) slots"
        using ok \<open>slots_ok live es []\<close>
        by (intro transfersI [where grown = "[]" and sent = "[]"])
          (auto simp: slots_ok_def in_transit_def owned_def same_setup_def)
      with ok pull Some Inr show ?thesis by (auto simp: pull_depths_def)
    next
      case (err e pool')
      with pull Some Inr ingest_failed_transfers [OF \<open>slots_ok live es []\<close> err(2)]
      show ?thesis by (auto simp: pull_depths_def)
    qed
  qed
qed

lemma push_update_transfers:
  assumes "slots_ok live es (d # ds)" "List.length (es_depth_update_buffer es) < DEPTH_BUFFER_SIZE"
  shows "transfers live es (d # ds)
    (es\<lparr>es_depth_update_buffer := es_depth_update_buffer es @ [d]\<rparr>) ds"
  using assms
  by (intro transfersI [where grown = "[d]" and sent = "[]"])
    (auto simp: slots_ok_def in_transit_def owned_def same_setup_def)

lemma push_buffer_transfers:
  assumes "slots_ok live es (d # ds)" "List.length (es_buffer es) < DEPTH_BUFFER_SIZE"
  shows "transfers live es (d # ds) (es\<lparr>es_buffer := es_buffer es @ [d]\<rparr>) ds"
  using assms
  by (intro transfersI [where grown = "[]" and sent = "[]"])
    (auto simp: slots_ok_def in_transit_def owned_def same_setup_def)

lemma push_update_loop_transfers:
  assumes env: "env_laws X live emits ends stopped"
  shows "slots_ok live es ds \<Longrightarrow> push_update_loop X ds inputs es = Some (inputs', es') \<Longrightarrow>
    transfers live es ds es' [] \<and>
    List.length (es_depth_update_buffer es') \<ge> List.length (es_depth_update_buffer es) + List.length ds \<and>
    set ds \<subseteq> set (es_depth_update_buffer es')"
proof (induction ds arbitrary: es inputs)
  case Nil
  then show ?case by (auto intro: transfers_refl)
next
  case (Cons d ds)
  note av = arrayvec_simps [OF env_lawsD(1) [OF env]]
  have room: "List.length (es_depth_update_buffer es) < DEPTH_BUFFER_SIZE"
    using Cons.prems(2) by (simp add: av split: if_splits)
  let ?es1 = "es\<lparr>es_depth_update_buffer := es_depth_update_buffer es @ [d]\<rparr>"
  note push = push_update_transfers [OF Cons.prems(1) room]
  obtain r es2 where nxt: "next_await X (inputs 0) ?es1 = Some (Some r, es2)"
    "transfers live ?es1 ds es2 ds"
    by (rule next_await_transfers [OF env transfersD(1) [OF push]])
  have "push_update_loop X ds (\<lambda>n. inputs (Suc n)) es2 = Some (inputs', es')"
    using Cons.prems(2) nxt(1) room by (simp add: av)
  note ih = Cons.IH [OF transfersD(1) [OF nxt(2)] this]
  obtain g where g: "es_depth_update_buffer es2 = es_depth_update_buffer es @ d # g"
    using nxt(2) unfolding transfers_def by auto
  obtain g' where g': "es_depth_update_buffer es' = es_depth_update_buffer es2 @ g'"
    using ih unfolding transfers_def by auto
  have "transfers live es (d # ds) es' []"
    using transfers_trans [OF transfers_trans [OF push nxt(2)]] ih by blast
  with ih g g' show ?case by auto
qed

lemma push_buffer_loop_transfers:
  assumes env: "env_laws X live emits ends stopped"
  shows "slots_ok live es ds \<Longrightarrow> push_buffer_loop X ds inputs es = Some (inputs', es') \<Longrightarrow>
    transfers live es ds es' []"
proof (induction ds arbitrary: es inputs)
  case Nil
  then show ?case by (auto intro: transfers_refl)
next
  case (Cons d ds)
  note av = arrayvec_simps [OF env_lawsD(1) [OF env]]
  have room: "List.length (es_buffer es) < DEPTH_BUFFER_SIZE"
    using Cons.prems(2) by (simp add: av split: if_splits)
  let ?es1 = "es\<lparr>es_buffer := es_buffer es @ [d]\<rparr>"
  note push = push_buffer_transfers [OF Cons.prems(1) room]
  obtain r es2 where nxt: "next_await X (inputs 0) ?es1 = Some (Some r, es2)"
    "transfers live ?es1 ds es2 ds"
    by (rule next_await_transfers [OF env transfersD(1) [OF push]])
  have "push_buffer_loop X ds (\<lambda>n. inputs (Suc n)) es2 = Some (inputs', es')"
    using Cons.prems(2) nxt(1) room by (simp add: av)
  then show ?case
    using Cons.IH [OF transfersD(1) [OF nxt(2)]] transfers_trans [OF transfers_trans [OF push nxt(2)]]
    by blast
qed

subsection \<open>The operations\<close>

text \<open>Setting the flag \<open>buffer_websocket_depths\<close> moves nothing.\<close>

lemma flag_transfers:
  "slots_ok live es ds \<Longrightarrow> transfers live es ds (es\<lparr>es_buffer_websocket_depths := b\<rparr>) ds"
  by (rule transfers_frame) (simp_all add: same_setup_def)

lemma orderbook_snapshot_flag [simp]:
  "orderbook_snapshot answer (es\<lparr>es_buffer_websocket_depths := b\<rparr>) = orderbook_snapshot answer es"
  by (simp add: orderbook_snapshot_def)

lemma stream_run_transfers:
  assumes env: "env_laws X live emits ends stopped" and ok: "slots_ok live es []"
  obtains r es' where "stream_run X input es = Some (r, es')" "transfers live es [] es' []"
proof -
  obtain r es' where "next_await X input es = Some (Some r, es')" "transfers live es [] es' []"
    by (rule next_await_transfers [OF env ok])
  then show ?thesis by (intro that [of "poll_outcome (Some r)" es']) (simp_all add: stream_run_def)
qed

lemma stream_run_snapshot_transfers:
  assumes env: "env_laws X live emits ends stopped" and ok: "slots_ok live es []"
    and run: "stream_run_snapshot X answer inputs es = Some (r, es')"
  shows "transfers live es [] es' []"
proof -
  let ?es0 = "es\<lparr>es_buffer_websocket_depths := True\<rparr>"
  note flag = flag_transfers [OF ok, of True]
  obtain p es1 where pull: "pull_depths X answer ?es0 = Some (p, es1)"
    using run by (auto simp: stream_run_snapshot_def split: option.splits)
  note moved = pull_depths_transfers [OF env transfersD(1) [OF flag] pull]
  show ?thesis
  proof (cases p)
    case (Inl e)
    then have "es' = es1" using run pull by (simp add: stream_run_snapshot_def)
    then show ?thesis using moved Inl transfers_trans [OF flag] by blast
  next
    case (Inr depths)
    then obtain inputs' where "push_update_loop X depths inputs es1 = Some (inputs', es')"
      using run pull by (auto simp: stream_run_snapshot_def split: option.splits)
    moreover have "transfers live es [] es1 depths" using moved Inr transfers_trans [OF flag] by blast
    ultimately show ?thesis
      using push_update_loop_transfers [OF env] transfersD(1) transfers_trans by blast
  qed
qed

text \<open>
  The rounds of the retry loop. The branch that returns the error is not among them: inside
  the loop the count is below the bound, and the pull leaves the bound alone.
\<close>

lemma retry_loop_rounds:
  shows "\<not> count < es_pull_retry_count es \<Longrightarrow>
      retry_loop X answers inputs count es = Some ((None, inputs), es)"
    and "count < es_pull_retry_count es \<Longrightarrow> pull_depths X (answers (unat count)) es = None \<Longrightarrow>
      retry_loop X answers inputs count es = None"
    and "count < es_pull_retry_count es \<Longrightarrow>
      pull_depths X (answers (unat count)) es = Some (Inr depths, es') \<Longrightarrow>
      retry_loop X answers inputs count es =
        map_option (\<lambda>(inputs', es''). ((None, inputs'), es'')) (push_buffer_loop X depths inputs es')"
    and "count < es_pull_retry_count es \<Longrightarrow>
      pull_depths X (answers (unat count)) es = Some (Inl e, es') \<Longrightarrow>
      retry_loop X answers inputs count es = retry_loop X answers inputs (count + 1) es'"
proof -
  assume "count < es_pull_retry_count es" "pull_depths X (answers (unat count)) es = Some (Inl e, es')"
  moreover from this have "\<not> es_pull_retry_count es' < count"
    using pull_depths_frame [of X "answers (unat count)" es "Inl e" es'] by fastforce
  ultimately show "retry_loop X answers inputs count es = retry_loop X answers inputs (count + 1) es'"
    by (subst retry_loop.simps) simp
qed (subst retry_loop.simps, simp split: option.split)+

lemma retry_loop_transfers:
  assumes env: "env_laws X live emits ends stopped"
  shows "slots_ok live es [] \<Longrightarrow> retry_loop X answers inputs count es = Some ((e, inputs'), es') \<Longrightarrow>
    transfers live es [] es' [] \<and> e = None"
proof (induction "unat (es_pull_retry_count es) - unat count" arbitrary: count es rule: less_induct)
  case less
  show ?case
  proof (cases "count < es_pull_retry_count es")
    case False
    with less.prems(2) transfers_refl [OF less.prems(1)] show ?thesis
      by (simp add: retry_loop_rounds(1))
  next
    case True
    then obtain p es1 where pull: "pull_depths X (answers (unat count)) es = Some (p, es1)"
      using less.prems(2) retry_loop_rounds(2) by fastforce
    note moved = pull_depths_transfers [OF env less.prems(1) pull]
    show ?thesis
    proof (cases p)
      case (Inl err)
      then have rest: "retry_loop X answers inputs (count + 1) es1 = Some ((e, inputs'), es')"
        using less.prems(2) pull True retry_loop_rounds(4) by fastforce
      have "transfers live es [] es1 []" using moved Inl by blast
      with less.hyps [OF retry_measure [OF True pull] transfersD(1) rest] show ?thesis
        using transfers_trans by blast
    next
      case (Inr depths)
      then have "e = None" "push_buffer_loop X depths inputs es1 = Some (inputs', es')"
        using less.prems(2) pull True
        by (auto simp: retry_loop_rounds(3) map_option_case split: option.splits)
      moreover have "transfers live es [] es1 depths" using moved Inr by blast
      ultimately show ?thesis
        using push_buffer_loop_transfers [OF env] transfersD(1) transfers_trans by blast
    qed
  qed
qed

text \<open>
  No operation puts a slot into \<open>websocket_depth_buffer\<close>, so the loops that drain it end at once.
\<close>

lemma drain_loop_empty:
  assumes "env_laws X live emits ends stopped" "es_websocket_depth_buffer es = []"
  shows "drain_loop X fuel inputs es = Some es" "push_buffered_loop X fuel es = Some es"
    "stream_sequence_depths X es = Some es"
  using assms(2)
  by (simp_all add: drain_loop.simps push_buffered_loop.simps stream_sequence_depths_def
      arrayvec_simps [OF env_lawsD(1) [OF assms(1)]])

lemma stream_push_buffered_empty:
  assumes "env_laws X live emits ends stopped" "es_websocket_depth_buffer es = []"
  shows "stream_push_buffered_ws_depths X es = Some (es\<lparr>es_buffer_websocket_depths := False\<rparr>)"
  by (simp add: stream_push_buffered_ws_depths_def drain_loop_empty [OF assms])

lemma stream_run_with_snapshot_transfers:
  assumes env: "env_laws X live emits ends stopped" and ok: "slots_ok live es []"
    and empty: "es_websocket_depth_buffer es = []"
    and run: "stream_run_with_snapshot X changed answers inputs es = Some (r, es')"
  shows "transfers live es [] es' [] \<and> (changed \<longrightarrow> r = Inr ())"
proof (cases changed)
  case False
  obtain r1 es1 where nxt: "next_await X (inputs 0) es = Some (Some r1, es1)" "transfers live es [] es1 []"
    by (rule next_await_transfers [OF env ok])
  with run False show ?thesis
    by (auto simp: stream_run_with_snapshot_def select_wake_def split: option.splits)
next
  case True
  let ?es0 = "es\<lparr>es_buffer_websocket_depths := True\<rparr>"
  note flag = flag_transfers [OF ok, of True]
  obtain e inputs' es1 where loop: "retry_loop X answers inputs 0 ?es0 = Some ((e, inputs'), es1)"
    using run True
    by (auto simp: stream_run_with_snapshot_def select_wake_def split: option.splits)
  note moved = retry_loop_transfers [OF env transfersD(1) [OF flag] loop]
  have "es_websocket_depth_buffer (es1\<lparr>es_buffer_websocket_depths := False\<rparr>) = []"
    using moved empty by (auto simp: transfers_def same_setup_def)
  then have r: "r = Inr ()" "es' = es1\<lparr>es_buffer_websocket_depths := False\<rparr>"
    using run True loop moved
    by (auto simp: stream_run_with_snapshot_def select_wake_def drain_loop_empty [OF env]
        split: option.splits)
  have "transfers live es [] es1 []" using moved transfers_trans [OF flag] by blast
  then have "transfers live es [] es' []"
    unfolding r(2) using transfers_trans flag_transfers [OF transfersD(1)] by blast
  with r(1) show ?thesis by simp
qed

subsection \<open>Steps and reachable states\<close>

text \<open>
  One operation of the stream that returns. A step is such a call, or the reader releasing a slot
  that is on its way to it. (\<open>start\<close> and \<open>reconnect\<close> install a new reader.)
\<close>

inductive stream_call ::
  "('d, 'sl, 'pool, 'j) env \<Rightarrow>
   ('sl, 'pool, 'w) exchange_stream \<Rightarrow> ('sl, 'pool, 'w) exchange_stream \<Rightarrow> bool"
  for X :: "('d, 'sl, 'pool, 'j) env" where
  connect: "stream_start conn es = (r :: 'j exchange_stream_error + message list, es') \<Longrightarrow> stream_call X es es'"
| reconnect: "stream_reconnect conn es = (r :: 'j exchange_stream_error + message list, es') \<Longrightarrow> stream_call X es es'"
| run: "stream_run X input es = Some (r :: 'j exchange_stream_error + unit, es') \<Longrightarrow> stream_call X es es'"
| snapshot: "stream_run_snapshot X answer inputs es = Some (r, es') \<Longrightarrow> stream_call X es es'"
| with_snapshot: "stream_run_with_snapshot X changed answers inputs es = Some (r, es') \<Longrightarrow>
    stream_call X es es'"
| push_buffered: "stream_push_buffered_ws_depths X es = Some es' \<Longrightarrow> stream_call X es es'"
| sequence: "stream_sequence_depths X es = Some es' \<Longrightarrow> stream_call X es es'"

inductive stream_step ::
  "('d, 'sl, 'pool, 'j) env \<Rightarrow> ('pool \<Rightarrow> 'sl set) \<Rightarrow>
   ('sl, 'pool, 'w) exchange_stream \<Rightarrow> ('sl, 'pool, 'w) exchange_stream \<Rightarrow> bool"
  for X :: "('d, 'sl, 'pool, 'j) env" and live :: "'pool \<Rightarrow> 'sl set" where
  call: "stream_call X es es' \<Longrightarrow> stream_step X live es es'"
| release: "slot \<in> in_transit live es [] \<Longrightarrow>
    es' = es\<lparr>es_depth_pool := pool_release X (es_depth_pool es) slot\<rparr> \<Longrightarrow> stream_step X live es es'"

inductive stream_reach ::
  "('d, 'sl, 'pool, 'j) env \<Rightarrow> ('pool \<Rightarrow> 'sl set) \<Rightarrow>
   ('sl, 'pool, 'w) exchange_stream \<Rightarrow> ('sl, 'pool, 'w) exchange_stream \<Rightarrow> bool"
  for X :: "('d, 'sl, 'pool, 'j) env" and live :: "'pool \<Rightarrow> 'sl set"
    and es0 :: "('sl, 'pool, 'w) exchange_stream" where
  here: "stream_reach X live es0 es0"
| there: "stream_reach X live es0 es \<Longrightarrow> stream_step X live es es' \<Longrightarrow> stream_reach X live es0 es'"

inductive_cases stream_stepE: "stream_step X live es es'"

text \<open>The invariant: the buffers own distinct live slots, and one of them is never used.\<close>

definition stream_ok :: "('pool \<Rightarrow> 'sl set) \<Rightarrow> ('sl, 'pool, 'w) exchange_stream \<Rightarrow> bool" where
  "stream_ok live es \<longleftrightarrow> slots_ok live es [] \<and> es_websocket_depth_buffer es = []"

lemma stream_okD:
  assumes "stream_ok live es"
  shows "slots_ok live es []" "es_websocket_depth_buffer es = []"
  using assms by (simp_all add: stream_ok_def)

lemma transfers_stream_ok:
  "transfers live es [] es' [] \<Longrightarrow> es_websocket_depth_buffer es = [] \<Longrightarrow> stream_ok live es'"
  by (simp add: transfers_def stream_ok_def same_setup_def)

lemma stream_new_ok:
  assumes "exchange_stream_new config producer pool sync opt client = Inr es"
  shows "stream_ok live es" "es_depth_update_buffer es = []" "es_buffer es = []"
    "es_depths_producer es = producer" "es_depth_pool es = pool"
    "es_exchange_name es = ec_exchange_name config" "es_pull_retry_count es = 5"
  using assms
  by (auto simp: exchange_stream_new_def Let_def stream_ok_def slots_ok_def owned_def
      split: if_splits sum.splits)

text \<open>What every step keeps besides: the update buffer only grows, and so does the channel's log.\<close>

definition only_grows :: "('sl, 'pool, 'w) exchange_stream \<Rightarrow> ('sl, 'pool, 'w) exchange_stream \<Rightarrow> bool" where
  "only_grows es es' \<longleftrightarrow>
     (\<exists>grown. es_depth_update_buffer es' = es_depth_update_buffer es @ grown) \<and>
     (\<exists>sent. es_depths_producer es' = es_depths_producer es @ sent \<and>
        set sent \<inter> set (es_depth_update_buffer es) = {}) \<and> same_setup es es'"

lemma only_grows_refl: "only_grows es es"
  by (simp add: only_grows_def same_setup_refl)

lemma only_grows_trans:
  assumes a: "only_grows es es1" and b: "only_grows es1 es2"
  shows "only_grows es es2"
proof -
  from a obtain g1 s1 where 1: "es_depth_update_buffer es1 = es_depth_update_buffer es @ g1"
    "es_depths_producer es1 = es_depths_producer es @ s1"
    "set s1 \<inter> set (es_depth_update_buffer es) = {}" "same_setup es es1"
    unfolding only_grows_def by blast
  from b obtain g2 s2 where 2: "es_depth_update_buffer es2 = es_depth_update_buffer es1 @ g2"
    "es_depths_producer es2 = es_depths_producer es1 @ s2"
    "set s2 \<inter> set (es_depth_update_buffer es1) = {}" "same_setup es1 es2"
    unfolding only_grows_def by blast
  have "es_depth_update_buffer es2 = es_depth_update_buffer es @ (g1 @ g2)"
    "es_depths_producer es2 = es_depths_producer es @ (s1 @ s2)"
    "set (s1 @ s2) \<inter> set (es_depth_update_buffer es) = {}" "same_setup es es2"
    using 1 2 by (auto simp: same_setup_def)
  then show ?thesis unfolding only_grows_def by blast
qed

text \<open>What a transfer sends is in transit after it, hence in no buffer.\<close>

lemma transfers_sent:
  assumes "transfers live es ds es' ds'"
  obtains sent where "es_depths_producer es' = es_depths_producer es @ sent"
    "set sent \<inter> set (es_depth_update_buffer es') = {}"
  using assms unfolding transfers_def in_transit_def owned_def by auto

lemma transfers_only_grows:
  assumes "transfers live es ds es' ds'"
  shows "only_grows es es'"
proof -
  obtain sent where s: "es_depths_producer es' = es_depths_producer es @ sent"
    "set sent \<inter> set (es_depth_update_buffer es') = {}" by (rule transfers_sent [OF assms])
  obtain g where g: "es_depth_update_buffer es' = es_depth_update_buffer es @ g"
    using assms unfolding transfers_def by blast
  have "set sent \<inter> set (es_depth_update_buffer es) = {}" using s(2) g by auto
  then show ?thesis using s(1) g transfersD(2) [OF assms] unfolding only_grows_def by blast
qed

lemma stream_call_transfers:
  assumes env: "env_laws X live emits ends stopped"
    and call: "stream_call X es es'" and inv: "stream_ok live es"
  shows "transfers live es [] es' []"
proof -
  note ok = stream_okD [OF inv]
  have reader: "transfers live es [] (es\<lparr>es_ws_connection_orderbook_reader := r\<rparr>) []" for r
    by (rule transfers_frame [OF ok(1)]) (simp_all add: same_setup_def)
  from call show ?thesis
  proof cases
    case (connect conn r)
    then show ?thesis using reader transfers_refl [OF ok(1)]
      by (auto simp: stream_start_def split: sum.splits prod.splits)
  next
    case (reconnect conn r)
    then show ?thesis using reader transfers_refl [OF ok(1)]
      by (auto simp: stream_reconnect_def split: sum.splits prod.splits)
  next
    case (run input r)
    obtain r1 es1 where "stream_run X input es = Some (r1, es1)" "transfers live es [] es1 []"
      by (rule stream_run_transfers [OF env ok(1)])
    with run show ?thesis by auto
  next
    case (snapshot answer inputs r)
    then show ?thesis by (rule stream_run_snapshot_transfers [OF env ok(1)])
  next
    case (with_snapshot changed answers inputs r)
    then show ?thesis using stream_run_with_snapshot_transfers [OF env ok] by blast
  next
    case push_buffered
    then have "es' = es\<lparr>es_buffer_websocket_depths := False\<rparr>"
      using stream_push_buffered_empty [OF env ok(2)] by simp
    then show ?thesis using flag_transfers [OF ok(1)] by blast
  next
    case sequence
    then have "es' = es" using drain_loop_empty(3) [OF env ok(2)] by simp
    then show ?thesis using transfers_refl [OF ok(1)] by blast
  qed
qed

lemma stream_step_ok:
  assumes env: "env_laws X live emits ends stopped"
    and step: "stream_step X live es es'" and inv: "stream_ok live es"
  shows "stream_ok live es' \<and> only_grows es es'"
  using step
proof cases
  case call
  note moved = stream_call_transfers [OF env call inv]
  show ?thesis
    using transfers_stream_ok [OF moved stream_okD(2) [OF inv]] transfers_only_grows [OF moved] by blast
next
  case (release slot)
  have "live (pool_release X (es_depth_pool es) slot) = live (es_depth_pool es) - {slot}"
    using env_lawsD(2) [OF env] by (auto simp: pool_laws_def)
  then have "stream_ok live es'"
    using release inv by (auto simp: stream_ok_def slots_ok_def in_transit_def owned_def)
  moreover have "only_grows es es'" using release by (simp add: only_grows_def same_setup_def)
  ultimately show ?thesis by blast
qed

lemma stream_reach_ok:
  assumes "env_laws X live emits ends stopped" "stream_ok live es0" "stream_reach X live es0 es"
  shows "stream_ok live es \<and> only_grows es0 es"
  using assms(3)
proof (induction rule: stream_reach.induct)
  case here
  then show ?case using assms(2) only_grows_refl by blast
next
  case (there es es')
  then show ?case using stream_step_ok [OF assms(1)] only_grows_trans by blast
qed

end
