(* ===== verification/Exchange_Properties.thy ===== *)
theory Exchange_Properties
  imports Exchange_Ops
begin

text \<open>
  The properties of the exchange stream: ingestion is all or nothing, a poll sends at most the
  newest slot and loses none, and what the snapshot, retry and end-of-stream paths do.
\<close>

subsection \<open>Auxiliary facts\<close>

lemma message_arm_producer:
  "message_arm_1 X m es = Some (r, es') \<Longrightarrow> es_depths_producer es' = es_depths_producer es"
  "message_arm_2 X m es = Some (r, es') \<Longrightarrow> es_depths_producer es' = es_depths_producer es \<and>
     es_buffer es' = es_buffer es"
  by (auto simp: message_arm_1_def message_arm_2_def Let_def
      split: if_splits message.splits option.splits prod.splits sum.splits ingest_error.splits)

lemma read_loop_producer:
  "read_loop X events es = Some (r, es') \<Longrightarrow> es_depths_producer es' = es_depths_producer es"
proof (induction events arbitrary: es)
  case (Cons event events)
  then show ?case
    by (auto simp: message_arm_producer Let_def dest!: message_arm_producer(1)
        split: ws_event.splits if_splits option.splits prod.splits)
qed auto

lemma message_arm_2_setup:
  "message_arm_2 X m es = Some (r, es') \<Longrightarrow> es_exchange_name es' = es_exchange_name es"
  by (auto simp: message_arm_2_def Let_def
      split: if_splits message.splits option.splits prod.splits sum.splits ingest_error.splits)

text \<open>For exchange 2 the loop never touches \<open>buffer\<close>.\<close>

lemma read_loop_exchange_2:
  "read_loop X events es = Some (r, es') \<Longrightarrow> es_exchange_name es = 2 \<Longrightarrow> es_buffer es' = es_buffer es"
proof (induction events arbitrary: es)
  case (Cons event events)
  then show ?case
    by (auto simp: Let_def dest: message_arm_producer(2) message_arm_2_setup
        split: ws_event.splits option.splits prod.splits)
      (metis message_arm_producer(2) message_arm_2_setup)+
qed auto

text \<open>The poll of a stream whose buffer holds a slot.\<close>

lemma poll_next_nonempty:
  assumes env: "env_laws X live emits ends stopped" and ok: "slots_ok live es []"
    and buf: "es_buffer es = rest @ [slot]"
  shows "ans = Inr False \<Longrightarrow> poll_next X ans es = Some (Ready (Some SenderError), es)"
    and "ans = Inl e \<Longrightarrow> poll_next X ans es = Some (Ready (Some SenderError),
      es\<lparr>es_buffer := rest, es_depth_pool := pool_release X (es_depth_pool es) slot\<rparr>)"
    and "ans = Inr True \<Longrightarrow> \<exists>r es'. poll_next X ans es = Some (Ready (Some r), es') \<and>
      es_depths_producer es' = es_depths_producer es @ [slot]"
proof -
  note av = arrayvec_simps [OF env_lawsD(1) [OF env]]
  have fits: "List.length rest < DEPTH_BUFFER_SIZE" using ok buf by (simp add: slots_ok_def)
  have same: "es\<lparr>es_buffer := rest @ [slot]\<rparr> = es" using buf by simp
  show "poll_next X ans es = Some (Ready (Some SenderError), es)" if "ans = Inr False"
    using that fits same by (simp add: poll_next_def send_buffered_def av buf)
  show "poll_next X ans es = Some (Ready (Some SenderError),
      es\<lparr>es_buffer := rest, es_depth_pool := pool_release X (es_depth_pool es) slot\<rparr>)" if "ans = Inl e"
    using that by (cases e) (simp_all add: poll_next_def send_buffered_def av buf)
  assume a: "ans = Inr True"
  obtain r es' where p: "poll_next X ans es = Some (Ready (Some r), es')"
    by (rule poll_next_transfers [OF env ok])
  moreover have "es_depths_producer es' = es_depths_producer es @ [slot]"
    using p a by (auto simp: poll_next_def send_buffered_def av buf dest!: read_loop_producer
        split: option.splits prod.splits)
  ultimately show "\<exists>r es'. poll_next X ans es = Some (Ready (Some r), es') \<and>
      es_depths_producer es' = es_depths_producer es @ [slot]" by blast
qed

text \<open>One \<open>run\<close> of a stream with nothing to send and one event, or none, on the socket.\<close>

lemma stream_run_idle:
  assumes env: "env_laws X live emits ends stopped" and "es_buffer es = []"
  shows "es_ws_connection_orderbook_reader es = Some [] \<Longrightarrow> stream_run X (ans, []) es = Some (Inr (), es)"
    and "es_ws_connection_orderbook_reader es = Some [] \<Longrightarrow> stream_run X (ans, [WsEnd]) es = Some (Inr (), es)"
    and "es_ws_connection_orderbook_reader es = Some [] \<Longrightarrow>
      stream_run X (ans, [WsFail w]) es = Some (Inl (ExchangeWSError ''tbd''), es)"
    and "es_ws_connection_orderbook_reader es = None \<Longrightarrow>
      stream_run X (ans, []) es = Some (Inl (ExchangeWSError ''tbd''), es)"
proof -
  note av = arrayvec_simps [OF env_lawsD(1) [OF env]]
  have same: "es_ws_connection_orderbook_reader es = r \<Longrightarrow>
      es\<lparr>es_ws_connection_orderbook_reader := r\<rparr> = es" for r by simp
  note unfold = stream_run_def next_await_def poll_next_def send_buffered_def arrive_def av
  show "es_ws_connection_orderbook_reader es = Some [] \<Longrightarrow> stream_run X (ans, []) es = Some (Inr (), es)"
    "es_ws_connection_orderbook_reader es = Some [] \<Longrightarrow> stream_run X (ans, [WsEnd]) es = Some (Inr (), es)"
    "es_ws_connection_orderbook_reader es = Some [] \<Longrightarrow>
      stream_run X (ans, [WsFail w]) es = Some (Inl (ExchangeWSError ''tbd''), es)"
    "es_ws_connection_orderbook_reader es = None \<Longrightarrow>
      stream_run X (ans, []) es = Some (Inl (ExchangeWSError ''tbd''), es)"
    using assms(2) by (simp_all add: unfold same)
qed

text \<open>Concrete streams for the examples: exchange \<open>n\<close> over the sample environment.\<close>

definition sample_config :: "u8 \<Rightarrow> exchange_config" where
  "sample_config n = \<lparr>ec_client_name = ''client'', ec_exchange_name = n, ec_http_client = True,
     ec_snapshot_enabled = True, ec_snapshot_uri = ''uri'', ec_ws_uri = ''ws'',
     ec_ws_poll_rate_milliseconds = 5, ec_ws_presequenced_depth_buffer = 0, ec_depth = 0,
     ec_buffer_size = 0, ec_watched_pair = ''pair'', ec_ignore_snapshot_websocket = None\<rparr>"

definition sample_stream ::
  "u8 \<Rightarrow> nat list \<Rightarrow> nat list \<Rightarrow> string ws_event list \<Rightarrow> (nat, nat \<times> nat list, string) exchange_stream" where
  "sample_stream n buffer updates events =
     \<lparr>es_client_name = ''client'', es_exchange_name = n, es_snapshot_enabled = True,
      es_websocket_depth_buffer = [], es_pull_retry_count = 5, es_http_snapshot_uri = ''uri'',
      es_buffer_websocket_depths = False, es_ws_subscribe = False, es_ws_poll_rate = 5,
      es_stream_count = 1, es_websocket_uri = ''ws'', es_watched_pair = ''pair'',
      es_buffer = buffer, es_snapshot_sync = Some (), es_depth_update_buffer = updates,
      es_ws_connection_orderbook = None, es_ws_connection_orderbook_reader = Some events,
      es_depths_producer = [], es_depth_pool = (8, buffer @ updates), es_http_client = Some ()\<rparr>"

abbreviation the_env :: "(int, nat, nat \<times> nat list, string) env" where
  "the_env \<equiv> sample_env DEPTH_BUFFER_SIZE"

lemma the_env_laws: "env_laws the_env sample_live sample_emits sample_ends ''stopped''"
  by (simp add: env_laws_def sample_laws)

lemma sample_stream_ok:
  assumes "distinct (buffer @ updates)" "List.length buffer \<le> 1000" "List.length updates \<le> 1000"
  shows "stream_ok sample_live (sample_stream n buffer updates events)"
  using assms
  by (simp add: stream_ok_def slots_ok_def owned_def sample_stream_def DEPTH_BUFFER_SIZE_def)

subsection \<open>Properties\<close>

text \<open>
  C21. Ingestion is all or nothing: either the target grows by exactly as many fresh live slots
  as the payload has depths, or the target and the set of live slots are what they were. The
  capacity of the target is never exceeded and nothing panics.
\<close>

theorem ingest_all_or_nothing:
  assumes env: "env_laws X live emits ends stopped"
    and room: "List.length target \<le> DEPTH_BUFFER_SIZE"
  shows "\<exists>res pool' target'. ingest_book X json loc snap pool target = Some (res, pool', target') \<and>
    List.length target' \<le> DEPTH_BUFFER_SIZE \<and>
    (case res of
       Inr _ \<Rightarrow> (\<exists>slots. target' = target @ slots \<and> distinct slots \<and>
         List.length slots = List.length (emits json loc snap) \<and>
         set slots \<inter> live pool = {} \<and> live pool' = live pool \<union> set slots)
     | Inl _ \<Rightarrow> target' = target \<and> live pool' = live pool)"
  using env_lawsD [OF env] room
proof (cases rule: ingest_book_cases [where json = json and loc = loc and snap = snap
      and pool = pool and target = target])
  case (ok slots pool')
  then show ?thesis
    by (intro exI [of _ "Inr ()"] exI [of _ pool'] exI [of _ "target @ slots"]) auto
next
  case (err e pool')
  then show ?thesis using room by (intro exI [of _ "Inl e"] exI [of _ pool'] exI [of _ target]) simp
qed

lemma ingest_all_or_nothing_witness:
  "\<exists>res pool' target'. ingest_book the_env ''ab'' 1 False (3, [7]) [7] = Some (res, pool', target') \<and>
    List.length target' \<le> DEPTH_BUFFER_SIZE"
  using ingest_all_or_nothing [OF the_env_laws, of "[7]" "''ab''" 1 False "(3, [7])"]
  by (auto simp: DEPTH_BUFFER_SIZE_def)

text \<open>
  C22. A poll always returns a state (it is never pending, never ends the stream and never
  panics), keeps the ownership invariant, and the slots that leave the buffers without being
  released are exactly those newly accepted by the channel: no slot is lost or sent twice.
\<close>

theorem poll_conserves_slots:
  assumes "env_laws X live emits ends stopped" and "stream_ok live es"
  shows "\<exists>r es' sent. poll_next X ans es = Some (Ready (Some r), es') \<and> stream_ok live es' \<and>
    es_depths_producer es' = es_depths_producer es @ sent \<and> distinct sent \<and>
    set sent \<inter> in_transit live es [] = {} \<and>
    in_transit live es' [] = in_transit live es [] \<union> set sent"
proof -
  obtain r es' where p: "poll_next X ans es = Some (Ready (Some r), es')" "transfers live es [] es' []"
    by (rule poll_next_transfers [OF assms(1) stream_okD(1) [OF assms(2)]])
  have "stream_ok live es'" by (rule transfers_stream_ok [OF p(2) stream_okD(2) [OF assms(2)]])
  with p show ?thesis unfolding transfers_def by blast
qed

lemma poll_conserves_slots_witness:
  "\<exists>r es'. poll_next the_env (Inr True) (sample_stream 1 [0, 1] [] [WsMessage (Text ''ab'')]) =
     Some (Ready (Some r), es')"
  using poll_conserves_slots [OF the_env_laws, of "sample_stream 1 [0, 1] [] [WsMessage (Text ''ab'')]"
      "Inr True"]
  by (auto simp: sample_stream_ok)

text \<open>
  C23. A poll offers the channel the newest buffered slot only: an accepted slot is appended to
  what was sent; a full channel leaves the stream as it was, with a sender error; a closed
  channel has the slot released to the pool and nothing else changed, with a sender error.
\<close>

theorem poll_offers_newest_slot:
  assumes "env_laws X live emits ends stopped" and "stream_ok live es"
    and "es_buffer es = rest @ [slot]"
  shows "(\<exists>r es'. poll_next X (Inr True) es = Some (Ready (Some r), es') \<and>
      es_depths_producer es' = es_depths_producer es @ [slot]) \<and>
    poll_next X (Inr False) es = Some (Ready (Some SenderError), es) \<and>
    (\<forall>e. poll_next X (Inl e) es = Some (Ready (Some SenderError),
      es\<lparr>es_buffer := rest, es_depth_pool := pool_release X (es_depth_pool es) slot\<rparr>))"
  using poll_next_nonempty [OF assms(1) stream_okD(1) [OF assms(2)] assms(3)] by blast

lemma poll_offers_newest_slot_witness:
  "poll_next the_env (Inr False) (sample_stream 1 [0, 1] [] []) =
     Some (Ready (Some SenderError), sample_stream 1 [0, 1] [] [])"
proof -
  have "stream_ok sample_live (sample_stream 1 [0, 1] [] [])"
    "es_buffer (sample_stream 1 [0, 1] [] []) = [0] @ [1]"
    by (rule sample_stream_ok) (simp_all add: sample_stream_def)
  from poll_offers_newest_slot [OF the_env_laws this] show ?thesis by blast
qed

text \<open>
  C24. In every state that the operations of a new stream reach, with the reader releasing the
  slots it received in any order, the buffers own distinct live slots and are within their
  capacity, \<open>websocket_depth_buffer\<close> is empty, and nothing was removed from
  \<open>depth_update_buffer\<close>: no operation ever takes a slot out of it.
\<close>

theorem stream_reach_keeps_slots:
  assumes "env_laws X live emits ends stopped"
    and "exchange_stream_new config producer pool sync opt client = Inr es0"
    and "stream_reach X live es0 es" and "stream_reach X live es es'"
  shows "distinct (owned es' []) \<and> set (owned es' []) \<subseteq> live (es_depth_pool es') \<and>
    List.length (es_buffer es') \<le> DEPTH_BUFFER_SIZE \<and>
    List.length (es_depth_update_buffer es') \<le> DEPTH_BUFFER_SIZE \<and>
    es_websocket_depth_buffer es' = [] \<and>
    (\<exists>grown. es_depth_update_buffer es' = es_depth_update_buffer es @ grown)"
proof -
  have "stream_ok live es"
    using stream_reach_ok [OF assms(1) stream_new_ok(1) [OF assms(2)] assms(3)] by blast
  then have "stream_ok live es' \<and> only_grows es es'"
    by (rule stream_reach_ok [OF assms(1) _ assms(4)])
  then show ?thesis by (simp add: stream_ok_def slots_ok_def only_grows_def)
qed

lemma stream_reach_keeps_slots_witness:
  "\<exists>es0 es1 es2 :: (nat, nat \<times> nat list, string) exchange_stream. \<exists>r.
     exchange_stream_new (sample_config 1) [] (8, []) () True (Inr ()) =
       (Inr es0 :: string exchange_stream_error + _) \<and>
     stream_start (Inr ([] :: message list, [])) es0 = (Inr [] :: string exchange_stream_error + _, es1) \<and>
     stream_run the_env (Inr True, [WsMessage (Text ''ab''), WsMessage (Text ''cd'')]) es1 =
       Some (r :: string exchange_stream_error + unit, es2) \<and>
     distinct (owned es2 []) \<and> es_websocket_depth_buffer es2 = []"
proof -
  obtain es0 :: "(nat, nat \<times> nat list, string) exchange_stream" where
    new: "exchange_stream_new (sample_config 1) [] (8, []) () True (Inr ()) =
      (Inr es0 :: string exchange_stream_error + _)"
    by (simp add: exchange_stream_new_def sample_config_def)
  define es1 where "es1 = es0\<lparr>es_ws_connection_orderbook_reader := Some []\<rparr>"
  have start: "stream_start (Inr ([] :: message list, [])) es0 = (Inr [] :: string exchange_stream_error + _, es1)"
    by (simp add: stream_start_def es1_def)
  then have reach: "stream_reach the_env sample_live es0 es1"
    by (rule stream_reach.there [OF stream_reach.here stream_step.call [OF stream_call.connect]])
  have "stream_ok sample_live es1"
    using stream_reach_ok [OF the_env_laws stream_new_ok(1) [OF new] reach] by blast
  then have "slots_ok sample_live es1 []" by (simp add: stream_ok_def)
  from stream_run_transfers [OF the_env_laws this] obtain r :: "string exchange_stream_error + unit" and es2
    where run: "stream_run the_env (Inr True, [WsMessage (Text ''ab''), WsMessage (Text ''cd'')]) es1 =
      Some (r, es2)" .
  from stream_reach_keeps_slots [OF the_env_laws new reach
      stream_reach.there [OF stream_reach.here stream_step.call [OF stream_call.run [OF run]]]] new start run
  show ?thesis by blast
qed

text \<open>
  C25. The depths of a snapshot are never sent. Let \<open>run_snapshot\<close> succeed: \<open>ingest_book\<close> took a slot
  of its own, not live before, for each depth of the payload, and these slots are in
  \<open>depth_update_buffer\<close>. Whatever operations of the stream and releases by the reader follow, each of
  them is still there, and none of them is among the slots handed to the channel since.
\<close>

theorem snapshot_depths_never_sent:
  fixes X :: "('d, 'sl, 'pool, 'j) env" and es es1 es2 :: "('sl, 'pool, 'w) exchange_stream"
  assumes env: "env_laws X live emits ends stopped" and inv: "stream_ok live es"
    and snap: "stream_run_snapshot X answer inputs es = Some (Inr (), es1)"
    and later: "stream_reach X live es1 es2"
  shows "\<exists>body pool' depths sent.
    orderbook_snapshot answer es = (Some (Inr body) :: ('j exchange_stream_error + bytes) option) \<and>
    ingest_book X body (es_exchange_name es) True (es_depth_pool es) [] = Some (Inr (), pool', depths) \<and>
    List.length depths = List.length (emits body (es_exchange_name es) True) \<and>
    distinct depths \<and> set depths \<inter> live (es_depth_pool es) = {} \<and>
    set depths \<subseteq> set (es_depth_update_buffer es2) \<and>
    es_depths_producer es2 = es_depths_producer es @ sent \<and> set sent \<inter> set depths = {}"
proof -
  let ?es0 = "es\<lparr>es_buffer_websocket_depths := True\<rparr>"
  note flag = flag_transfers [OF stream_okD(1) [OF inv], of True]
  obtain depths es3 inputs' where pull: "pull_depths X answer ?es0 = Some (Inr depths, es3)"
    and loop: "push_update_loop X depths inputs es3 = Some (inputs', es1)"
    using snap by (auto simp: stream_run_snapshot_def split: option.splits sum.splits)
  note moved = pull_depths_transfers [OF env transfersD(1) [OF flag] pull]
  obtain body pool' where body: "orderbook_snapshot answer es =
      (Some (Inr body) :: ('j exchange_stream_error + bytes) option)"
    "ingest_book X body (es_exchange_name es) True (es_depth_pool es) [] = Some (Inr (), pool', depths)"
    "List.length depths = List.length (emits body (es_exchange_name es) True)"
    "distinct depths" "set depths \<inter> live (es_depth_pool es) = {}"
    using moved by (auto simp: orderbook_snapshot_flag)
  have t3: "transfers live es [] es3 depths" using moved transfers_trans [OF flag] by blast
  note pushed = push_update_loop_transfers [OF env transfersD(1) [OF t3] loop]
  have t1: "transfers live es [] es1 []" using transfers_trans [OF t3] pushed by blast
  obtain s1 where s1: "es_depths_producer es1 = es_depths_producer es @ s1"
    "set s1 \<inter> set (es_depth_update_buffer es1) = {}" by (rule transfers_sent [OF t1])
  have "stream_ok live es1" by (rule transfers_stream_ok [OF t1 stream_okD(2) [OF inv]])
  then have "only_grows es1 es2" using stream_reach_ok [OF env _ later] by blast
  then obtain g s2 where 2: "es_depth_update_buffer es2 = es_depth_update_buffer es1 @ g"
    "es_depths_producer es2 = es_depths_producer es1 @ s2"
    "set s2 \<inter> set (es_depth_update_buffer es1) = {}" unfolding only_grows_def by blast
  have "set depths \<subseteq> set (es_depth_update_buffer es2)" "set (s1 @ s2) \<inter> set depths = {}"
    "es_depths_producer es2 = es_depths_producer es @ (s1 @ s2)"
    using pushed s1 2 by auto
  with body show ?thesis by blast
qed

definition sample_answer :: "bytes \<Rightarrow> http_answer" where
  "sample_answer body = \<lparr>ha_get = Inr (), ha_send = Inr (200, ''200 OK''), ha_bytes = Inr body\<rparr>"

text \<open>How a result returned: used to evaluate the examples.\<close>

fun returned :: "(('e + unit) \<times> 's) option \<Rightarrow> bool" where
  "returned (Some (Inr _, _)) = True"
| "returned _ = False"

lemma returnedE:
  assumes "returned res"
  obtains s where "res = Some (Inr (), s)"
  using assms by (cases res rule: returned.cases) auto

lemma snapshot_depths_never_sent_witness:
  "\<exists>es1 depths :: nat list. stream_run_snapshot the_env (sample_answer ''ab'') (\<lambda>_. (Inr True, []))
      (sample_stream 1 [] [] []) = Some (Inr (), es1) \<and>
    List.length depths = 2 \<and> distinct depths \<and> set depths \<subseteq> set (es_depth_update_buffer es1)"
proof -
  have "returned (stream_run_snapshot the_env (sample_answer ''ab'') (\<lambda>_. (Inr True, []))
      (sample_stream 1 [] [] []))" by code_simp
  then obtain es1 where run: "stream_run_snapshot the_env (sample_answer ''ab'') (\<lambda>_. (Inr True, []))
      (sample_stream 1 [] [] []) = Some (Inr (), es1)" by (rule returnedE)
  have body: "orderbook_snapshot (sample_answer ''ab'') (sample_stream 1 [] [] []) =
      (Some (Inr ''ab'') :: (string exchange_stream_error + bytes) option)"
    by (simp add: orderbook_snapshot_def sample_answer_def sample_stream_def)
  have "stream_ok sample_live (sample_stream 1 [] [] [])" by (simp add: sample_stream_ok)
  from snapshot_depths_never_sent [OF the_env_laws this run stream_reach.here] body run
  show ?thesis by (auto simp: sample_emits_def)
qed

text \<open>
  C26. \<open>run_snapshot\<close> panics as soon as the snapshots pulled so far do not fit: when the depths
  already in \<open>depth_update_buffer\<close> and those of the new snapshot exceed its capacity.
\<close>

theorem snapshot_overflow_panics:
  assumes env: "env_laws X live emits ends stopped" and inv: "stream_ok live es"
    and pull: "pull_depths X answer (es\<lparr>es_buffer_websocket_depths := True\<rparr>) = Some (Inr depths, es1)"
    and much: "List.length (es_depth_update_buffer es) + List.length depths > DEPTH_BUFFER_SIZE"
  shows "stream_run_snapshot X answer inputs es = None"
proof (cases "push_update_loop X depths inputs es1")
  case None
  with pull show ?thesis by (simp add: stream_run_snapshot_def)
next
  case (Some res)
  then obtain inputs' es2 where loop: "push_update_loop X depths inputs es1 = Some (inputs', es2)"
    by (cases res) auto
  note flag = flag_transfers [OF stream_okD(1) [OF inv], of True]
  have t: "transfers live es [] es1 depths"
    using pull_depths_transfers [OF env transfersD(1) [OF flag] pull] transfers_trans [OF flag] by blast
  note pushed = push_update_loop_transfers [OF env transfersD(1) [OF t] loop]
  have "List.length (es_depth_update_buffer es1) \<ge> List.length (es_depth_update_buffer es)"
    using t by (auto simp: transfers_def)
  moreover have "List.length (es_depth_update_buffer es2) \<le> DEPTH_BUFFER_SIZE"
    using pushed by (simp add: transfers_def slots_ok_def)
  ultimately show ?thesis using pushed much by linarith
qed

lemma snapshot_overflow_panics_witness:
  "\<exists>es :: (nat, nat \<times> nat list, string) exchange_stream. List.length (es_depth_update_buffer es) = 1000 \<and>
     stream_run_snapshot the_env (sample_answer ''ab'') (\<lambda>_. (Inr True, [])) es = None"
proof -
  obtain xs :: "nat list" where xs: "distinct xs" "List.length xs = 1000" "set xs = {1000..<2000}"
    by (rule that [of "[1000..<2000]"]) (simp_all only: distinct_upt length_upt set_upt)
  let ?es = "sample_stream 1 [] xs []"
  have free: "[0..<8] = 0 # 1 # [2..<8::nat]" by (simp add: upt_conv_Cons)
  have ok: "stream_ok sample_live ?es" by (rule sample_stream_ok) (simp_all add: xs)
  have "pull_depths the_env (sample_answer ''ab'') (?es\<lparr>es_buffer_websocket_depths := True\<rparr>) =
      Some (Inr [0, 1], ?es\<lparr>es_buffer_websocket_depths := True, es_depth_pool := (8, 1 # 0 # xs)\<rparr>)"
    by (simp add: pull_depths_def orderbook_snapshot_def sample_answer_def sample_stream_def
        ingest_book_def sample_env_def sample_emits_def sample_ends_def ingest_depth_def
        sample_insert_def free xs DEPTH_BUFFER_SIZE_def)
  from snapshot_overflow_panics [OF the_env_laws ok this] have
    "stream_run_snapshot the_env (sample_answer ''ab'') (\<lambda>_. (Inr True, [])) ?es = None"
    by (simp add: sample_stream_def xs DEPTH_BUFFER_SIZE_def)
  moreover have "List.length (es_depth_update_buffer ?es) = 1000" by (simp add: sample_stream_def xs)
  ultimately show ?thesis by blast
qed

text \<open>The retry loop when every request fails.\<close>

lemma retry_loop_all_fail:
  fixes X :: "('d, 'sl, 'pool, 'j) env" and es :: "('sl, 'pool, 'w) exchange_stream"
  assumes "\<And>k. unat count \<le> k \<Longrightarrow> k < unat (es_pull_retry_count es) \<Longrightarrow>
    \<exists>e. orderbook_snapshot (answers k) es = (Some (Inl e) :: ('j exchange_stream_error + bytes) option)"
  shows "retry_loop X answers inputs count es = Some ((None, inputs), es)"
  using assms
proof (induction "unat (es_pull_retry_count es) - unat count" arbitrary: count rule: less_induct)
  case less
  show ?case
  proof (cases "count < es_pull_retry_count es")
    case False
    then show ?thesis by (rule retry_loop_rounds(1))
  next
    case True
    then obtain e where "orderbook_snapshot (answers (unat count)) es =
        (Some (Inl e) :: ('j exchange_stream_error + bytes) option)"
      using less.prems [of "unat count"] by (auto simp: word_less_nat_alt)
    then have pull: "pull_depths X (answers (unat count)) es = Some (Inl e, es)"
      by (simp add: pull_depths_def)
    have "retry_loop X answers inputs (count + 1) es = Some ((None, inputs), es)"
      by (rule less.hyps [OF retry_measure [OF True pull]])
        (rule less.prems, simp_all add: unat_Suc_below [OF True])
    then show ?thesis using retry_loop_rounds(4) [where answers = answers, OF True pull] by simp
  qed
qed

text \<open>
  C27. Failed snapshots are never reported by \<open>run_with_snapshot\<close>: woken by the trigger, with
  \<open>pull_retry_count\<close> requests that all fail, it returns \<open>Ok\<close> and has only reset its flag.
\<close>

theorem failed_snapshots_reported_ok:
  fixes X :: "('d, 'sl, 'pool, 'j) env" and es :: "('sl, 'pool, 'w) exchange_stream"
  assumes env: "env_laws X live emits ends stopped" and inv: "stream_ok live es"
    and sync: "es_snapshot_sync es \<noteq> None"
    and fail: "\<And>k. k < unat (es_pull_retry_count es) \<Longrightarrow>
      \<exists>e. orderbook_snapshot (answers k) es = (Some (Inl e) :: ('j exchange_stream_error + bytes) option)"
  shows "stream_run_with_snapshot X True answers inputs es =
    Some (Inr (), es\<lparr>es_buffer_websocket_depths := False\<rparr>)"
proof -
  let ?es0 = "es\<lparr>es_buffer_websocket_depths := True\<rparr>"
  have loop: "retry_loop X answers inputs 0 ?es0 = Some ((None, inputs), ?es0)"
    by (rule retry_loop_all_fail) (simp add: fail)
  have "es_websocket_depth_buffer (es\<lparr>es_buffer_websocket_depths := False\<rparr>) = []"
    using stream_okD(2) [OF inv] by simp
  from drain_loop_empty(1) [OF env this] sync loop show ?thesis
    by (auto simp: stream_run_with_snapshot_def select_wake_def)
qed

lemma failed_snapshots_reported_ok_witness:
  "stream_run_with_snapshot the_env True
     (\<lambda>_. \<lparr>ha_get = Inr (), ha_send = Inr (503, ''503''), ha_bytes = Inr []\<rparr>) (\<lambda>_. (Inr True, []))
     (sample_stream 1 [] [] []) = Some (Inr (), sample_stream 1 [] [] [])"
proof -
  have ok: "stream_ok sample_live (sample_stream 1 [] [] [])" by (simp add: sample_stream_ok)
  have same: "sample_stream 1 [] [] []\<lparr>es_buffer_websocket_depths := False\<rparr> = sample_stream 1 [] [] []"
    by (simp add: sample_stream_def)
  show ?thesis
    using failed_snapshots_reported_ok [OF the_env_laws ok, where
        answers = "\<lambda>_. \<lparr>ha_get = Inr (), ha_send = Inr (503, ''503''), ha_bytes = Inr []\<rparr>"]
    unfolding same by (simp add: sample_stream_def orderbook_snapshot_def)
qed

text \<open>
  \<open>run\<close> with nothing buffered to send: the end of the websocket stream is reported as
  \<open>Ok\<close>, just as a pending socket is, while an error on the socket and a stream that was never
  connected are reported as errors. Apart from the event consumed, nothing changes.
\<close>

theorem run_reports_end_as_ok:
  assumes env: "env_laws X live emits ends stopped" and "es_buffer es = []"
    and "es_ws_connection_orderbook_reader es = reader"
  shows "(reader = Some [] \<longrightarrow> stream_run X (ans, []) es = Some (Inr (), es)) \<and>
    (reader = Some [] \<longrightarrow> stream_run X (ans, [WsEnd]) es = Some (Inr (), es)) \<and>
    (reader = Some [] \<longrightarrow> stream_run X (ans, [WsFail w]) es = Some (Inl (ExchangeWSError ''tbd''), es)) \<and>
    (reader = None \<longrightarrow> stream_run X (ans, []) es = Some (Inl (ExchangeWSError ''tbd''), es))"
  using assms(2,3) by (simp add: stream_run_idle [OF env])

lemma run_reports_end_as_ok_witness:
  "stream_run the_env (Inr True, [WsEnd]) (sample_stream 1 [] [] []) =
     Some (Inr () :: string exchange_stream_error + unit, sample_stream 1 [] [] [])"
  using run_reports_end_as_ok [OF the_env_laws, of "sample_stream 1 [] [] []" "Some []" "Inr True"]
  by (simp add: sample_stream_def)

text \<open>
  The first message of a connection is dropped unread, whatever it is: the poll returns
  \<open>Success\<close>, and only the message counter and the reader change.
\<close>

theorem first_message_dropped:
  assumes env: "env_laws X live emits ends stopped" and "es_buffer es = []"
    and "es_ws_connection_orderbook_reader es = Some (WsMessage m # events)"
    and "es_exchange_name es = 1 \<or> es_exchange_name es = 2" and "es_stream_count es \<noteq> 1"
  shows "poll_next X ans es = Some (Ready (Some Success),
    es\<lparr>es_stream_count := 1, es_ws_connection_orderbook_reader := Some events\<rparr>)"
  using assms
  by (auto simp: poll_next_def send_buffered_def message_arm_1_def message_arm_2_def
      arrayvec_simps [OF env_lawsD(1) [OF env]])

lemma first_message_dropped_witness:
  "poll_next the_env (Inr True)
     (sample_stream 1 [] [] [WsMessage (Text ''ab'')]\<lparr>es_stream_count := 0\<rparr>) =
   Some (Ready (Some Success), sample_stream 1 [] [] [])"
  using first_message_dropped [OF the_env_laws, of
      "sample_stream 1 [] [] [WsMessage (Text ''ab'')]\<lparr>es_stream_count := 0\<rparr>"]
  by (simp add: sample_stream_def)

text \<open>Several polls in a row, whatever they return.\<close>

fun polls ::
  "('d, 'sl, 'pool, 'j) env \<Rightarrow> 'w poll_input list \<Rightarrow> ('sl, 'pool, 'w) exchange_stream \<Rightarrow>
   ('sl, 'pool, 'w) exchange_stream option" where
  "polls X [] es = Some es"
| "polls X (input # inputs) es =
     (case next_await X input es of None \<Rightarrow> None | Some (_, es') \<Rightarrow> polls X inputs es')"

text \<open>
  Buffered depths leave in reverse: when the channel accepts and the socket is quiet, as
  many polls as there are buffered slots send them all, the newest first.
\<close>

theorem buffered_depths_leave_in_reverse:
  assumes env: "env_laws X live emits ends stopped"
    and "es_ws_connection_orderbook_reader es = Some []"
  shows "polls X (replicate (List.length (es_buffer es)) (Inr True, [])) es =
    Some (es\<lparr>es_buffer := [], es_depths_producer := es_depths_producer es @ rev (es_buffer es)\<rparr>)"
  using assms(2)
proof (induction "es_buffer es" arbitrary: es rule: rev_induct)
  case Nil
  then have "es\<lparr>es_buffer := []\<rparr> = es" by simp
  with Nil show ?case by simp
next
  case (snoc slot rest)
  note av = arrayvec_simps [OF env_lawsD(1) [OF env]]
  let ?es1 = "es\<lparr>es_buffer := rest, es_depths_producer := es_depths_producer es @ [slot]\<rparr>"
  have "?es1\<lparr>es_ws_connection_orderbook_reader := Some []\<rparr> = ?es1" using snoc.prems by simp
  then have "next_await X (Inr True, []) es = Some (Some WaitingForDepth, ?es1)"
    using snoc.hyps(2) [symmetric] snoc.prems
    by (simp add: next_await_def arrive_def poll_next_def send_buffered_def av)
  moreover have "polls X (replicate (List.length rest) (Inr True, [])) ?es1 =
      Some (?es1\<lparr>es_buffer := [], es_depths_producer := es_depths_producer ?es1 @ rev rest\<rparr>)"
    using snoc.hyps(1) [of ?es1] snoc.prems by simp
  ultimately show ?case using snoc.hyps(2) [symmetric] by simp
qed

lemma buffered_depths_leave_in_reverse_witness:
  "\<exists>es'. polls the_env [(Inr True, []), (Inr True, [])] (sample_stream 1 [0, 1] [] []) = Some es' \<and>
     es_depths_producer es' = [1, 0]"
  using buffered_depths_leave_in_reverse [OF the_env_laws, of "sample_stream 1 [0, 1] [] []"]
  by (simp add: sample_stream_def numeral_2_eq_2)

text \<open>
  C30. The depths of a message of exchange 1 reach the channel: when a text message arrives that
  parses and finds room, the poll that reads it and as many further polls as it has depths, with
  a channel that accepts, send exactly the slots it was ingested into, the last depth first, and
  leave the buffer empty.
\<close>

theorem message_reaches_channel:
  assumes env: "env_laws X live emits ends stopped"
    and idle: "es_buffer es = []" "es_ws_connection_orderbook_reader es = Some []"
    and one: "es_exchange_name es = 1" "es_stream_count es = 1"
    and ingest: "ingest_book X t 1 False (es_depth_pool es) [] = Some (Inr (), pool', slots)"
  shows "\<exists>es'. polls X ((Inr True, [WsMessage (Text t)]) # replicate (List.length slots) (Inr True, [])) es =
      Some es' \<and>
    es_depths_producer es' = es_depths_producer es @ rev slots \<and> es_buffer es' = [] \<and>
    es_depth_pool es' = pool' \<and> List.length slots = List.length (emits t 1 False)"
proof -
  let ?es1 = "es\<lparr>es_ws_connection_orderbook_reader := Some [], es_depth_pool := pool', es_buffer := slots\<rparr>"
  have "List.length [] \<le> DEPTH_BUFFER_SIZE" by simp
  with env_lawsD [OF env] have len: "List.length slots = List.length (emits t 1 False)"
  proof (cases rule: ingest_book_cases [where json = t and loc = 1 and snap = False
        and pool = "es_depth_pool es" and target = "[]"])
    case (ok slots1 pool1)
    with ingest show ?thesis by simp
  next
    case (err e pool1)
    with ingest show ?thesis by simp
  qed
  have "next_await X (Inr True, [WsMessage (Text t)]) es = Some (Some WaitingForDepth, ?es1)"
    using idle one ingest
    by (simp add: next_await_def arrive_def poll_next_def send_buffered_def message_arm_1_def
        arrayvec_simps [OF env_lawsD(1) [OF env]])
  then show ?thesis using buffered_depths_leave_in_reverse [OF env, of ?es1] len by simp
qed

lemma message_reaches_channel_witness:
  "\<exists>es'. polls the_env [(Inr True, [WsMessage (Text ''ab'')]), (Inr True, []), (Inr True, [])]
     (sample_stream 1 [] [] []) = Some es' \<and> es_depths_producer es' = [1, 0]"
proof -
  have free: "[0..<8] = 0 # 1 # [2..<8::nat]" by (simp add: upt_conv_Cons)
  have "ingest_book the_env ''ab'' 1 False (8, []) [] = Some (Inr (), (8, [1, 0]), [0, 1])"
    by (simp add: ingest_book_def sample_env_def sample_emits_def sample_ends_def ingest_depth_def
        sample_insert_def free DEPTH_BUFFER_SIZE_def)
  then show ?thesis
    using message_reaches_channel [OF the_env_laws, of "sample_stream 1 [] [] []" "''ab''" "(8, [1, 0])" "[0, 1]"]
    by (auto simp: sample_stream_def numeral_2_eq_2)
qed

end
