(* ===== verification/Exchange.thy ===== *)
theory Exchange
  imports Exchange_Properties
begin

text \<open>
  \<open>Exchange\<close> of \<open>exchange/src/exchange.rs\<close>: an exchange stream with its websocket sink and the
  pool it owns, and the operations the driver calls. The pool handle the exchange shares with
  its stream is the stream's \<open>es_depth_pool\<close>.
\<close>

definition SUBSCRIBE :: string where "SUBSCRIBE = ''SUBSCRIBE''"

definition MAX_BUFFERED_DEPTHS :: u64 where
  "MAX_BUFFERED_DEPTHS = 4 * of_nat DEPTH_BUFFER_SIZE"

text \<open>The sink is the list of the messages it has sent.\<close>

record ('sl, 'pool, 'w) exchange =
  ex_inner :: "('sl, 'pool, 'w) exchange_stream"
  ex_ws_sink :: "message list option"
  ex_websocket_uri :: string
  ex_watched_pair :: string

definition ex_depth_pool :: "('sl, 'pool, 'w) exchange \<Rightarrow> 'pool" where
  "ex_depth_pool ex = es_depth_pool (ex_inner ex)"

text \<open>\<open>usize::checked_add\<close> on a 64-bit target.\<close>

definition checked_add :: "u64 \<Rightarrow> u64 \<Rightarrow> u64 option" where
  "checked_add a b = (if unat a + unat b < 2 ^ 64 then Some (a + b) else None)"

text \<open>
  \<open>Exchange::new\<close>. \<open>capacity\<close> is the capacity of the depth channel, \<open>with_capacity\<close> is the depth
  pool's constructor.
\<close>

definition exchange_new ::
  "(u16 \<Rightarrow> u64 \<Rightarrow> 'pool) \<Rightarrow> exchange_config \<Rightarrow> u16 \<Rightarrow> u64 \<Rightarrow> 'sl list \<Rightarrow> unit \<Rightarrow> string + unit \<Rightarrow>
   'j exchange_stream_error + ('sl, 'pool, 'w) exchange" where
  "exchange_new with_capacity exchange_config pool_id capacity depth_producer watch_trigger client_new =
     (case Option.bind (checked_add capacity MAX_BUFFERED_DEPTHS)
             (\<lambda>c. if c \<le> 2 ^ 32 - 1 then Some c else None) of
        None \<Rightarrow> Inl (DepthPool ''depth channel must be bounded to size the depth pool'')
      | Some pool_capacity \<Rightarrow>
          (let depth_pool = with_capacity pool_id pool_capacity
           in case exchange_stream_new exchange_config depth_producer depth_pool watch_trigger
                     (ec_http_client exchange_config) client_new of
                Inl e \<Rightarrow> Inl e
              | Inr inner \<Rightarrow>
                  Inr \<lparr>ex_inner = inner, ex_ws_sink = None,
                       ex_websocket_uri = ec_ws_uri exchange_config,
                       ex_watched_pair = ec_watched_pair exchange_config\<rparr>))"

subsection \<open>Connection\<close>

definition exchange_start ::
  "string + message list \<times> 'w ws_event list \<Rightarrow> ('sl, 'pool, 'w) exchange \<Rightarrow>
   ('j exchange_stream_error + unit) \<times> ('sl, 'pool, 'w) exchange" where
  "exchange_start conn this =
     (case stream_start conn (ex_inner this) of
        (Inl e, inner) \<Rightarrow> (Inl e, this\<lparr>ex_inner := inner\<rparr>)
      | (Inr ws_sink, inner) \<Rightarrow> (Inr (), this\<lparr>ex_inner := inner, ex_ws_sink := Some ws_sink\<rparr>))"

definition exchange_reconnect ::
  "string + message list \<times> 'w ws_event list \<Rightarrow> ('sl, 'pool, 'w) exchange \<Rightarrow>
   ('j exchange_stream_error + unit) \<times> ('sl, 'pool, 'w) exchange" where
  "exchange_reconnect conn this =
     (case stream_reconnect conn (ex_inner this) of
        (Inl e, inner) \<Rightarrow> (Inl e, this\<lparr>ex_inner := inner\<rparr>)
      | (Inr ws_sink, inner) \<Rightarrow> (Inr (), this\<lparr>ex_inner := inner, ex_ws_sink := Some ws_sink\<rparr>))"

text \<open>The JSON values of the subscription; \<open>to_string\<close> is \<open>serde_json\<close>'s.\<close>

datatype json = JNum int | JStr string | JArr "json list" | JObj "(string \<times> json) list"

definition subscription :: json where
  "subscription = JObj [(''method'', JStr SUBSCRIBE), (''params'', JArr [JStr ''btcusdt@depth5'']),
     (''id'', JNum 1)]"

text \<open>
  \<open>sent\<close> is what the sink answers to a \<open>send\<close>; it may depend on what went into the sink before.
\<close>

definition exchange_subscribe_orderbooks ::
  "(json \<Rightarrow> string) \<Rightarrow> (message list \<Rightarrow> 'e + unit) \<Rightarrow> ('sl, 'pool, 'w) exchange \<Rightarrow>
   ('j exchange_stream_error + unit) \<times> ('sl, 'pool, 'w) exchange" where
  "exchange_subscribe_orderbooks to_string sent this =
     (case ex_ws_sink this of
        None \<Rightarrow> (Inl ExchangeController, this)
      | Some sink \<Rightarrow>
          (case sent sink of
             Inr _ \<Rightarrow> (Inr (), this\<lparr>ex_ws_sink := Some (sink @ [Text (to_string subscription)])\<rparr>)
           | Inl _ \<Rightarrow> (Inr (), this)))"

text \<open>
  What tungstenite documents of a socket (\<open>ProtocolError::SendAfterClosing\<close>): once the close frame
  has been sent, every further send is an error.
\<close>

definition refuses_after_close :: "(message list \<Rightarrow> 'e + unit) \<Rightarrow> bool" where
  "refuses_after_close sent \<longleftrightarrow> (\<forall>sink. Close \<in> set sink \<longrightarrow> isl (sent sink))"

definition exchange_close ::
  "string + unit \<Rightarrow> ('sl, 'pool, 'w) exchange \<Rightarrow>
   ('j exchange_stream_error + unit) \<times> ('sl, 'pool, 'w) exchange" where
  "exchange_close answer this =
     (case ex_ws_sink this of
        None \<Rightarrow> (Inl ExchangeController, this)
      | Some sink \<Rightarrow>
          (case answer of
             Inl e \<Rightarrow> (Inl (ExchangeWSError e), this)
           | Inr _ \<Rightarrow> (Inr (), this\<lparr>ex_ws_sink := Some (sink @ [Close])\<rparr>)))"

subsection \<open>Depths\<close>

definition exchange_run_snapshot ::
  "('d, 'sl, 'pool, 'j) env \<Rightarrow> http_answer \<Rightarrow> (nat \<Rightarrow> 'w poll_input) \<Rightarrow>
   ('sl, 'pool, 'w) exchange \<Rightarrow>
   (('j exchange_stream_error + unit) \<times> ('sl, 'pool, 'w) exchange) option" where
  "exchange_run_snapshot X answer inputs this =
     (case stream_run_snapshot X answer inputs (ex_inner this) of
        None \<Rightarrow> None
      | Some (Inl e, inner) \<Rightarrow> Some (Inl e, this\<lparr>ex_inner := inner\<rparr>)
      | Some (Inr _, inner) \<Rightarrow> Some (Inr (), this\<lparr>ex_inner := inner\<rparr>))"

definition exchange_push_buffered_ws_depths ::
  "('d, 'sl, 'pool, 'j) env \<Rightarrow> ('sl, 'pool, 'w) exchange \<Rightarrow> ('sl, 'pool, 'w) exchange option" where
  "exchange_push_buffered_ws_depths X this =
     (case stream_push_buffered_ws_depths X (ex_inner this) of
        None \<Rightarrow> None
      | Some inner \<Rightarrow> Some (this\<lparr>ex_inner := inner\<rparr>))"

definition exchange_stream_depths ::
  "('d, 'sl, 'pool, 'j) env \<Rightarrow> 'w poll_input \<Rightarrow> ('sl, 'pool, 'w) exchange \<Rightarrow>
   (('j exchange_stream_error + unit) \<times> ('sl, 'pool, 'w) exchange) option" where
  "exchange_stream_depths X input this =
     (case stream_run X input (ex_inner this) of
        None \<Rightarrow> None
      | Some (Inl e, inner) \<Rightarrow> Some (Inl e, this\<lparr>ex_inner := inner\<rparr>)
      | Some (Inr _, inner) \<Rightarrow> Some (Inr (), this\<lparr>ex_inner := inner\<rparr>))"

subsection \<open>Steps\<close>

text \<open>The operations of an exchange; a step is one of them, or its reader releasing a slot.\<close>

inductive exchange_call ::
  "('d, 'sl, 'pool, 'j) env \<Rightarrow>
   ('sl, 'pool, 'w) exchange \<Rightarrow> ('sl, 'pool, 'w) exchange \<Rightarrow> bool"
  for X :: "('d, 'sl, 'pool, 'j) env" where
  start: "exchange_start conn ex = (r :: 'j exchange_stream_error + unit, ex') \<Longrightarrow> exchange_call X ex ex'"
| reconnect: "exchange_reconnect conn ex = (r :: 'j exchange_stream_error + unit, ex') \<Longrightarrow>
    exchange_call X ex ex'"
| subscribe: "exchange_subscribe_orderbooks to_string (sent :: message list \<Rightarrow> string + unit) ex =
    (r :: 'j exchange_stream_error + unit, ex') \<Longrightarrow> exchange_call X ex ex'"
| close: "exchange_close answer ex = (r :: 'j exchange_stream_error + unit, ex') \<Longrightarrow>
    exchange_call X ex ex'"
| snapshot: "exchange_run_snapshot X answer inputs ex = Some (r, ex') \<Longrightarrow> exchange_call X ex ex'"
| push_buffered: "exchange_push_buffered_ws_depths X ex = Some ex' \<Longrightarrow> exchange_call X ex ex'"
| stream_depths: "exchange_stream_depths X input ex = Some (r :: 'j exchange_stream_error + unit, ex') \<Longrightarrow>
    exchange_call X ex ex'"

inductive exchange_step ::
  "('d, 'sl, 'pool, 'j) env \<Rightarrow> ('pool \<Rightarrow> 'sl set) \<Rightarrow>
   ('sl, 'pool, 'w) exchange \<Rightarrow> ('sl, 'pool, 'w) exchange \<Rightarrow> bool"
  for X :: "('d, 'sl, 'pool, 'j) env" and live :: "'pool \<Rightarrow> 'sl set" where
  call: "exchange_call X ex ex' \<Longrightarrow> exchange_step X live ex ex'"
| release: "slot \<in> in_transit live (ex_inner ex) [] \<Longrightarrow>
    ex' = ex\<lparr>ex_inner := (ex_inner ex)\<lparr>es_depth_pool := pool_release X (ex_depth_pool ex) slot\<rparr>\<rparr> \<Longrightarrow>
    exchange_step X live ex ex'"

inductive exchange_reach ::
  "('d, 'sl, 'pool, 'j) env \<Rightarrow> ('pool \<Rightarrow> 'sl set) \<Rightarrow>
   ('sl, 'pool, 'w) exchange \<Rightarrow> ('sl, 'pool, 'w) exchange \<Rightarrow> bool"
  for X :: "('d, 'sl, 'pool, 'j) env" and live :: "'pool \<Rightarrow> 'sl set"
    and ex0 :: "('sl, 'pool, 'w) exchange" where
  here: "exchange_reach X live ex0 ex0"
| there: "exchange_reach X live ex0 ex \<Longrightarrow> exchange_step X live ex ex' \<Longrightarrow> exchange_reach X live ex0 ex'"

text \<open>A call of the exchange is a call of its stream, or leaves the stream alone.\<close>

lemma exchange_call_stream:
  assumes "exchange_call X ex ex'"
  shows "ex_inner ex' = ex_inner ex \<or> stream_call X (ex_inner ex) (ex_inner ex')"
  using assms
proof cases
  case (start conn r)
  then show ?thesis
    by (auto simp: exchange_start_def split: prod.splits sum.splits)
      (metis stream_call.connect)+
next
  case (snapshot answer inputs r)
  then show ?thesis
    by (auto simp: exchange_run_snapshot_def split: option.splits prod.splits sum.splits
        intro: stream_call.snapshot)
qed (auto simp: exchange_reconnect_def exchange_subscribe_orderbooks_def exchange_close_def
    exchange_push_buffered_ws_depths_def exchange_stream_depths_def
    split: option.splits prod.splits sum.splits intro: stream_call.intros)

lemma exchange_call_transfers:
  assumes env: "env_laws X live emits ends stopped" and inv: "stream_ok live (ex_inner ex)"
    and call: "exchange_call X ex ex'"
  shows "transfers live (ex_inner ex) [] (ex_inner ex') []"
  using exchange_call_stream [OF call] stream_call_transfers [OF env _ inv]
    transfers_refl [OF stream_okD(1) [OF inv]] by metis

lemma exchange_step_stream:
  assumes "exchange_step X live ex ex'"
  shows "ex_inner ex' = ex_inner ex \<or> stream_step X live (ex_inner ex) (ex_inner ex')"
  using assms
proof cases
  case call
  then show ?thesis using exchange_call_stream stream_step.call by metis
next
  case (release slot)
  then show ?thesis by (auto simp: ex_depth_pool_def intro: stream_step.release)
qed

end
