(* ===== verification/Exchange_Service.thy ===== *)
theory Exchange_Service
  imports Exchange
begin

text \<open>
  The properties of an exchange: when it can be built, that its pool is large enough, and that
  exchange 2 delivers nothing.
\<close>

subsection \<open>Exchange 2\<close>

definition quiet :: "('sl, 'pool, 'w) exchange_stream \<Rightarrow> bool" where
  "quiet es \<longleftrightarrow> es_exchange_name es = 2 \<and> es_buffer es = []"

lemma next_await_quiet:
  assumes env: "env_laws X live emits ends stopped" and ok: "slots_ok live es ds"
    and q: "quiet es" and run: "next_await X input es = Some (r, es')"
  shows "quiet es' \<and> es_depths_producer es' = es_depths_producer es"
proof -
  note av = arrayvec_simps [OF env_lawsD(1) [OF env]]
  have name: "es_exchange_name es' = 2"
    using next_await_transfers [OF env ok, of input] run q
    by (fastforce simp: transfers_def same_setup_def quiet_def)
  have empty: "es_buffer (arrive (snd input) es) = []" "es_exchange_name (arrive (snd input) es) = 2"
    using q by (simp_all add: quiet_def arrive_def)
  have "es_buffer es' = [] \<and> es_depths_producer es' = es_depths_producer (arrive (snd input) es)"
    using run empty
    by (auto simp: next_await_def poll_next_def send_buffered_def av
        dest: read_loop_producer read_loop_exchange_2 split: option.splits prod.splits poll.splits)
  then show ?thesis using name by (simp add: quiet_def arrive_def)
qed

lemma push_update_loop_quiet:
  assumes env: "env_laws X live emits ends stopped"
  shows "slots_ok live es ds \<Longrightarrow> quiet es \<Longrightarrow> push_update_loop X ds inputs es = Some (inputs', es') \<Longrightarrow>
    quiet es' \<and> es_depths_producer es' = es_depths_producer es"
proof (induction ds arbitrary: es inputs)
  case (Cons d ds)
  note av = arrayvec_simps [OF env_lawsD(1) [OF env]]
  have room: "List.length (es_depth_update_buffer es) < DEPTH_BUFFER_SIZE"
    using Cons.prems(3) by (simp add: av split: if_splits)
  let ?es1 = "es\<lparr>es_depth_update_buffer := es_depth_update_buffer es @ [d]\<rparr>"
  note push = push_update_transfers [OF Cons.prems(1) room]
  have q1: "quiet ?es1" using Cons.prems(2) by (simp add: quiet_def)
  obtain r es2 where nxt: "next_await X (inputs 0) ?es1 = Some (Some r, es2)" "transfers live ?es1 ds es2 ds"
    by (rule next_await_transfers [OF env transfersD(1) [OF push]])
  have q2: "quiet es2 \<and> es_depths_producer es2 = es_depths_producer es"
    using next_await_quiet [OF env transfersD(1) [OF push] q1 nxt(1)] by simp
  have "push_update_loop X ds (\<lambda>n. inputs (Suc n)) es2 = Some (inputs', es')"
    using Cons.prems(3) nxt(1) room by (simp add: av)
  then show ?case using Cons.IH [OF transfersD(1) [OF nxt(2)]] q2 by simp
qed simp

lemma stream_run_snapshot_quiet:
  assumes env: "env_laws X live emits ends stopped" and ok: "slots_ok live es []"
    and q: "quiet es" and run: "stream_run_snapshot X answer inputs es = Some (r, es')"
  shows "quiet es' \<and> es_depths_producer es' = es_depths_producer es"
proof -
  let ?es0 = "es\<lparr>es_buffer_websocket_depths := True\<rparr>"
  note flag = flag_transfers [OF ok, of True]
  obtain p es1 where pull: "pull_depths X answer ?es0 = Some (p, es1)"
    using run by (auto simp: stream_run_snapshot_def split: option.splits)
  have q1: "quiet es1 \<and> es_depths_producer es1 = es_depths_producer es"
    using pull_depths_frame [OF pull] q by (auto simp: quiet_def)
  note moved = pull_depths_transfers [OF env transfersD(1) [OF flag] pull]
  show ?thesis
  proof (cases p)
    case (Inl e)
    then show ?thesis using run pull q1 by (simp add: stream_run_snapshot_def)
  next
    case (Inr depths)
    then obtain inputs' where "push_update_loop X depths inputs es1 = Some (inputs', es')"
      using run pull by (auto simp: stream_run_snapshot_def split: option.splits)
    moreover have "slots_ok live es1 depths" using moved Inr by (auto simp: transfers_def)
    ultimately show ?thesis using push_update_loop_quiet [OF env] q1 by fastforce
  qed
qed

lemma exchange_step_ok:
  assumes env: "env_laws X live emits ends stopped" and "stream_ok live (ex_inner ex)"
    and "exchange_step X live ex ex'"
  shows "stream_ok live (ex_inner ex') \<and> only_grows (ex_inner ex) (ex_inner ex')"
  using exchange_step_stream [OF assms(3)] stream_step_ok [OF env _ assms(2)] assms(2) only_grows_refl
  by metis

lemma exchange_reach_ok:
  assumes env: "env_laws X live emits ends stopped" and "stream_ok live (ex_inner ex0)"
    and "exchange_reach X live ex0 ex"
  shows "stream_ok live (ex_inner ex) \<and> only_grows (ex_inner ex0) (ex_inner ex)"
  using assms(3)
proof (induction rule: exchange_reach.induct)
  case here
  then show ?case using assms(2) only_grows_refl by blast
next
  case (there ex ex')
  then show ?case using exchange_step_ok [OF env] only_grows_trans by blast
qed

lemma exchange_call_quiet:
  assumes env: "env_laws X live emits ends stopped" and inv: "stream_ok live (ex_inner ex)"
    and q: "quiet (ex_inner ex)" and call: "exchange_call X ex ex'"
  shows "quiet (ex_inner ex') \<and>
    es_depths_producer (ex_inner ex') = es_depths_producer (ex_inner ex)"
  using call
proof cases
  case (snapshot answer inputs r)
  then obtain r' where "stream_run_snapshot X answer inputs (ex_inner ex) = Some (r', ex_inner ex')"
    by (auto simp: exchange_run_snapshot_def split: option.splits prod.splits sum.splits)
  then show ?thesis by (rule stream_run_snapshot_quiet [OF env stream_okD(1) [OF inv] q])
next
  case (stream_depths input r)
  then obtain r' where "next_await X input (ex_inner ex) = Some (r', ex_inner ex')"
    by (auto simp: exchange_stream_depths_def stream_run_def split: option.splits prod.splits sum.splits)
  then show ?thesis by (rule next_await_quiet [OF env stream_okD(1) [OF inv] q])
next
  case push_buffered
  then show ?thesis
    using q stream_push_buffered_empty [OF env stream_okD(2) [OF inv]]
    by (auto simp: exchange_push_buffered_ws_depths_def quiet_def)
qed (use q in \<open>auto simp: exchange_start_def exchange_reconnect_def exchange_subscribe_orderbooks_def
    exchange_close_def stream_start_def stream_reconnect_def quiet_def
    split: option.splits prod.splits sum.splits\<close>)

lemma exchange_step_quiet:
  assumes "env_laws X live emits ends stopped" "stream_ok live (ex_inner ex)"
    and "quiet (ex_inner ex)" "exchange_step X live ex ex'"
  shows "quiet (ex_inner ex') \<and>
    es_depths_producer (ex_inner ex') = es_depths_producer (ex_inner ex)"
  using assms(4)
proof cases
  case call
  then show ?thesis by (rule exchange_call_quiet [OF assms(1-3)])
qed (use assms(3) in \<open>simp add: quiet_def\<close>)

subsection \<open>The size of the pool\<close>

text \<open>A pool of the given capacity is exhausted only when that many slots are live.\<close>

definition capacity_law ::
  "('d, 'sl, 'pool, 'j) env \<Rightarrow> ('pool \<Rightarrow> 'sl set) \<Rightarrow> nat \<Rightarrow> bool" where
  "capacity_law X live capacity \<longleftrightarrow>
     (\<forall>p u p'. pool_insert X p u = (Inl Exhausted, p') \<longrightarrow> capacity \<le> card (live p))"

text \<open>
  With room for a whole buffer in the pool, the flag \<open>full\<close> means that the buffer is full.
\<close>

lemma ingest_depth_full:
  assumes laws: "arrayvec_laws X cap" "pool_laws X live" and pool: "capacity_law X live capacity"
    and fin: "finite (live pool)" and room: "card (live pool) + cap \<le> capacity"
    and inv: "ingest_inv live cap target pool (Some (t, p, False)) n"
    and cb: "ingest_depth X u (Some (t, p, False)) = (ok, Some (t', p', True))"
  shows "\<not> ok \<and> t' = t \<and> List.length t = cap"
proof (rule ccontr)
  assume contra: "\<not> ?thesis"
  from inv obtain slots where t: "t = target @ slots" "distinct slots" "set slots \<inter> live pool = {}"
    "live p = live pool \<union> set slots" "List.length t \<le> cap" by (rule ingest_invE) auto
  show False
  proof (cases "List.length t = cap")
    case True
    then show False using contra cb by (auto simp: ingest_depth_def arrayvec_simps [OF laws(1)])
  next
    case False
    then have "pool_insert X p u = (Inl Exhausted, p')"
      using cb t(5)
      by (auto simp: ingest_depth_def arrayvec_simps [OF laws(1)]
          split: prod.splits sum.splits pool_error.splits)
    then have "capacity \<le> card (live p)" using pool unfolding capacity_law_def by blast
    also have "\<dots> = card (live pool) + List.length slots"
      using t fin by (simp add: card_Un_disjoint distinct_card Int_commute)
    also have "\<dots> < card (live pool) + cap" using False t(1,5) by simp
    finally show False using room by simp
  qed
qed

lemma feed_full:
  assumes laws: "arrayvec_laws X cap" "pool_laws X live" and pool: "capacity_law X live capacity"
    and fin: "finite (live pool)" and room: "card (live pool) + cap \<le> capacity"
  shows "ingest_inv live cap target pool (Some (t, p, False)) n \<Longrightarrow>
    feed (ingest_depth X) us (Some (t, p, False)) = (ok, Some (t', p', True)) \<Longrightarrow>
    cap < List.length target + n + List.length us"
proof (induction us arbitrary: t p n)
  case (Cons u us)
  obtain ok1 st1 where cb: "ingest_depth X u (Some (t, p, False)) = (ok1, st1)" by (meson surj_pair)
  note inv = ingest_depth_inv [OF laws Cons.prems(1) cb]
  then obtain t1 p1 full where st1: "st1 = Some (t1, p1, full)" by (rule ingest_invE)
  have len: "List.length t = List.length target + n" using Cons.prems(1) by (rule ingest_invE) auto
  show ?case
  proof (cases full)
    case True
    then have "ingest_depth X u (Some (t, p, False)) = (ok1, Some (t1, p1, True))" using cb st1 by simp
    from ingest_depth_full [OF laws pool fin room Cons.prems(1) this] show ?thesis using len by simp
  next
    case False
    with Cons.prems(2) cb st1 have "ok1"
      "feed (ingest_depth X) us (Some (t1, p1, False)) = (ok, Some (t', p', True))"
      by (cases ok1; simp)+
    with Cons.IH [of t1 p1 "Suc n"] inv st1 False show ?thesis by simp
  qed
qed simp

lemma ingest_full_means_overflow:
  assumes env: "env_laws X live emits ends stopped" and pool: "capacity_law X live capacity"
    and fin: "finite (live pool)" and room: "card (live pool) + DEPTH_BUFFER_SIZE \<le> capacity"
    and len: "List.length target \<le> DEPTH_BUFFER_SIZE"
    and full: "ingest_book X json loc snap pool target = Some (Inl Full, pool', target')"
  shows "DEPTH_BUFFER_SIZE < List.length target + List.length (emits json loc snap)"
proof -
  obtain fin' st where run: "feed (ingest_depth X) (emits json loc snap) (Some (target, pool, False)) =
      (fin', st)" by (meson surj_pair)
  have "parse_binance_book X json loc snap (ingest_depth X) (Some (target, pool, False)) =
      (if fin' then ends json else Inl stopped, st)"
    using env_lawsD(3) [OF env] run by (cases fin') (auto simp: parser_laws_def)
  then obtain t p where "st = Some (t, p, True)"
    using full by (auto simp: ingest_book_def split: option.splits sum.splits if_splits prod.splits)
  with feed_full [OF env_lawsD(1,2) [OF env] pool fin room ingest_inv_start [OF len]] run
  show ?thesis by simp
qed

subsection \<open>Properties\<close>

lemma max_buffered: "unat MAX_BUFFERED_DEPTHS = 4000"
  by (simp add: MAX_BUFFERED_DEPTHS_def DEPTH_BUFFER_SIZE_def)

text \<open>The computed capacity: no wrap-around, and at most \<open>u32::MAX\<close>.\<close>

lemma pool_capacity_cases:
  "Option.bind (checked_add c MAX_BUFFERED_DEPTHS) (\<lambda>n. if n \<le> 2 ^ 32 - 1 then Some n else None) =
   (if unat c + 4000 < 2 ^ 32 then Some (c + MAX_BUFFERED_DEPTHS) else None)"
proof (cases "unat c + 4000 < 2 ^ 64")
  case True
  then have "unat (c + MAX_BUFFERED_DEPTHS) = unat c + 4000"
    by (simp add: unat_word_ariths max_buffered)
  then show ?thesis using True by (simp add: checked_add_def max_buffered word_le_nat_alt)
next
  case False
  then show ?thesis by (simp add: checked_add_def max_buffered)
qed

text \<open>
  C31. An exchange is built exactly when the channel's capacity plus the 4000 buffered depths
  fits 32 bits and, if snapshots are enabled, the HTTP client could be built; its pool then has
  exactly that capacity, and its stream starts empty and unconnected.
\<close>

theorem exchange_new_capacity:
  "(2 ^ 32 \<le> unat capacity + 4000 \<longrightarrow>
      exchange_new with_capacity config pool_id capacity producer trigger client =
        Inl (DepthPool ''depth channel must be bounded to size the depth pool'')) \<and>
   (unat capacity + 4000 < 2 ^ 32 \<and> ec_snapshot_enabled config \<and> client = Inl e \<longrightarrow>
      exchange_new with_capacity config pool_id capacity producer trigger client = Inl (HttpRequest e)) \<and>
   (unat capacity + 4000 < 2 ^ 32 \<and> (ec_snapshot_enabled config \<longrightarrow> client = Inr ()) \<longrightarrow>
      (\<exists>ex. exchange_new with_capacity config pool_id capacity producer trigger client = Inr ex \<and>
        (\<exists>c. ex_depth_pool ex = with_capacity pool_id c \<and> unat c = unat capacity + 4000) \<and>
        ex_ws_sink ex = None \<and> es_ws_connection_orderbook_reader (ex_inner ex) = None \<and>
        owned (ex_inner ex) [] = []))"
proof -
  have "unat (capacity + MAX_BUFFERED_DEPTHS) = unat capacity + 4000" if "unat capacity + 4000 < 2 ^ 32"
    using that by (simp add: unat_word_ariths max_buffered)
  then show ?thesis
    unfolding exchange_new_def pool_capacity_cases
    by (auto simp: exchange_stream_new_def ex_depth_pool_def owned_def Let_def split: sum.split)
qed

lemma exchange_new_capacity_witness:
  "exchange_new (\<lambda>i c. unat c) (sample_config 1) 0 4294967295 ([] :: nat list) () (Inr ()) =
     (Inl (DepthPool ''depth channel must be bounded to size the depth pool'')
       :: string exchange_stream_error + (nat, nat, string) exchange)"
  using exchange_new_capacity [of 4294967295 "\<lambda>i c. unat c" "sample_config 1" 0 "[]" "()" "Inr ()"]
  by simp

lemma exchange_new_pool:
  assumes "exchange_new with_capacity config pool_id capacity producer trigger client =
    (Inr ex0 :: 'j exchange_stream_error + ('sl, 'pool, 'w) exchange)"
  obtains c where "ex_depth_pool ex0 = with_capacity pool_id c" "unat c = unat capacity + 4000"
    "stream_ok live (ex_inner ex0)"
proof -
  have "unat (capacity + MAX_BUFFERED_DEPTHS) = unat capacity + 4000" if "unat capacity + 4000 < 2 ^ 32"
    using that by (simp add: unat_word_ariths max_buffered)
  then show ?thesis
    using assms that [of "capacity + MAX_BUFFERED_DEPTHS"]
    unfolding exchange_new_def pool_capacity_cases
    by (auto simp: ex_depth_pool_def Let_def stream_new_ok split: if_splits sum.splits)
qed

text \<open>
  C32. The pool that \<open>new\<close> gives an exchange is large enough. Let \<open>with_capacity c\<close> make a pool that is
  exhausted only when \<open>c\<close> slots are live. Then in every reachable state in which no more slots are
  with the channel and the reader than the channel holds, the capacity \<open>new\<close> asked for leaves room
  for two full buffers besides the live slots, and a payload that fits its buffer is never refused
  for lack of room, for each of the three targets the stream ingests into.
\<close>

theorem pool_never_runs_dry:
  assumes env: "env_laws X live emits ends stopped"
    and new: "exchange_new with_capacity config pool_id capacity producer trigger client = Inr ex0"
    and pool: "\<And>c. ex_depth_pool ex0 = with_capacity pool_id c \<Longrightarrow> capacity_law X live (unat c)"
    and reach: "exchange_reach X live ex0 ex"
    and transit: "finite (in_transit live (ex_inner ex) [])"
      "card (in_transit live (ex_inner ex) []) \<le> unat capacity"
    and target: "target \<in> {es_buffer (ex_inner ex), es_depth_update_buffer (ex_inner ex), []}"
    and fits: "List.length target + List.length (emits json loc snap) \<le> DEPTH_BUFFER_SIZE"
  shows "(\<exists>c. ex_depth_pool ex0 = with_capacity pool_id c \<and>
      card (live (ex_depth_pool ex)) + 2 * DEPTH_BUFFER_SIZE \<le> unat c) \<and>
    ingest_book X json loc snap (ex_depth_pool ex) target \<noteq> Some (Inl Full, pool', target')"
proof -
  let ?es = "ex_inner ex"
  obtain c where c: "ex_depth_pool ex0 = with_capacity pool_id c" "unat c = unat capacity + 4000"
    and start: "stream_ok live (ex_inner ex0)" by (rule exchange_new_pool [OF new])
  have "stream_ok live ?es" using exchange_reach_ok [OF env start reach] by blast
  then have ok: "set (owned ?es []) \<subseteq> live (es_depth_pool ?es)" "List.length (owned ?es []) \<le> 2000"
    by (auto simp: stream_ok_def slots_ok_def owned_def DEPTH_BUFFER_SIZE_def)
  have split: "live (es_depth_pool ?es) = in_transit live ?es [] \<union> set (owned ?es [])"
    using ok(1) by (auto simp: in_transit_def)
  have "card (live (es_depth_pool ?es)) \<le> card (in_transit live ?es []) + List.length (owned ?es [])"
    unfolding split by (rule le_trans [OF card_Un_le]) (simp add: card_length)
  then have room: "card (live (ex_depth_pool ex)) + 2 * DEPTH_BUFFER_SIZE \<le> unat c"
    using ok(2) transit(2) c(2) by (simp add: DEPTH_BUFFER_SIZE_def ex_depth_pool_def)
  have fin: "finite (live (ex_depth_pool ex))" unfolding ex_depth_pool_def split using transit(1) by simp
  have "List.length target \<le> DEPTH_BUFFER_SIZE" using fits by simp
  then have "ingest_book X json loc snap (ex_depth_pool ex) target \<noteq> Some (Inl Full, pool', target')"
    using ingest_full_means_overflow [OF env pool [OF c(1)] fin, of target json loc snap pool' target']
      room fits by fastforce
  with c(1) room show ?thesis by blast
qed

text \<open>The sample environment with a pool of \<open>n\<close> slots.\<close>

definition fixed_env :: "nat \<Rightarrow> (int, nat, nat \<times> nat list, string) env" where
  "fixed_env n = the_env\<lparr>pool_insert := \<lambda>p. sample_insert (n, snd p)\<rparr>"

lemma fixed_env_laws: "env_laws (fixed_env n) sample_live sample_emits sample_ends ''stopped''"
  unfolding env_laws_def
  by (auto simp: fixed_env_def sample_env_def arrayvec_laws_def pool_laws_def parser_laws_def
      sample_insert_def find_Some_iff split: option.splits prod.splits)

lemma fixed_env_capacity: "capacity_law (fixed_env n) sample_live n"
proof -
  have "n \<le> card (set used)" if "find (\<lambda>s. s \<notin> set used) [0..<n] = None" for used :: "nat list"
  proof -
    have "{0..<n} \<subseteq> set used" using that by (auto simp: find_None_iff)
    from card_mono [OF _ this] show ?thesis by simp
  qed
  then show ?thesis
    by (auto simp: capacity_law_def fixed_env_def sample_insert_def split: option.splits)
qed

lemma pool_never_runs_dry_witness:
  "\<exists>ex0. exchange_new (\<lambda>i c. (unat c, [])) (sample_config 1) 0 10 [] () (Inr ()) =
     (Inr ex0 :: string exchange_stream_error + (nat, nat \<times> nat list, string) exchange) \<and>
   ex_depth_pool ex0 = (4010, []) \<and>
   ingest_book (fixed_env 4010) ''ab'' 1 True (ex_depth_pool ex0) [] \<noteq> Some (Inl Full, (4010, []), [])"
proof -
  obtain ex0 :: "(nat, nat \<times> nat list, string) exchange" where
    new: "exchange_new (\<lambda>i c. (unat c, [])) (sample_config 1) 0 10 [] () (Inr ()) =
      (Inr ex0 :: string exchange_stream_error + _)" and pool: "ex_depth_pool ex0 = (4010, [])"
    unfolding exchange_new_def pool_capacity_cases
    by (simp add: exchange_stream_new_def sample_config_def ex_depth_pool_def MAX_BUFFERED_DEPTHS_def
        DEPTH_BUFFER_SIZE_def)
  have none: "in_transit sample_live (ex_inner ex0) [] = {}"
    using pool by (simp add: in_transit_def ex_depth_pool_def)
  have cap: "capacity_law (fixed_env 4010) sample_live (unat c)"
    if "ex_depth_pool ex0 = (unat c, [])" for c :: u64
    using that pool fixed_env_capacity [of 4010] by simp
  have "List.length [] + List.length (sample_emits ''ab'' 1 True) \<le> DEPTH_BUFFER_SIZE"
    by (simp add: sample_emits_def DEPTH_BUFFER_SIZE_def)
  from pool_never_runs_dry [OF fixed_env_laws new cap exchange_reach.here _ _ _ this] none new pool
  show ?thesis by simp
qed

text \<open>
  C33. An exchange configured as exchange 2 delivers nothing: whatever its operations do, and in
  whatever order, its channel never receives a slot.
\<close>

theorem exchange_two_delivers_nothing:
  assumes env: "env_laws X live emits ends stopped"
    and new: "exchange_new with_capacity config pool_id capacity producer trigger client = Inr ex0"
    and two: "ec_exchange_name config = 2"
    and reach: "exchange_reach X live ex0 ex"
  shows "es_depths_producer (ex_inner ex) = producer \<and> es_buffer (ex_inner ex) = []"
proof -
  have start: "stream_ok live (ex_inner ex0)" "quiet (ex_inner ex0)"
    "es_depths_producer (ex_inner ex0) = producer"
    using new two
    by (auto simp: exchange_new_def Let_def stream_new_ok quiet_def split: option.splits sum.splits)
  have "quiet (ex_inner ex) \<and> es_depths_producer (ex_inner ex) = producer"
    using reach
  proof (induction rule: exchange_reach.induct)
    case here
    then show ?case using start by blast
  next
    case (there ex ex')
    have "stream_ok live (ex_inner ex)"
      using exchange_reach_ok [OF env start(1) there.hyps(1)] by blast
    then show ?case using exchange_step_quiet [OF env _ _ there.hyps(2)] there.IH by simp
  qed
  then show ?thesis by (simp add: quiet_def)
qed

lemma exchange_two_delivers_nothing_witness:
  "\<exists>ex0 ex1 ex2 r. exchange_new (\<lambda>i c. (8, [])) (sample_config 2) 0 10 [7] () (Inr ()) =
     (Inr ex0 :: string exchange_stream_error + (nat, nat \<times> nat list, string) exchange) \<and>
   exchange_start (Inr ([], [])) ex0 = (Inr () :: string exchange_stream_error + unit, ex1) \<and>
   exchange_stream_depths the_env (Inr True, [WsMessage (Text ''ab''), WsMessage (Text ''cd'')]) ex1 =
     Some (r :: string exchange_stream_error + unit, ex2) \<and>
   es_depths_producer (ex_inner ex2) = [7]"
proof -
  obtain ex0 :: "(nat, nat \<times> nat list, string) exchange" where
    new: "exchange_new (\<lambda>i c. (8, [])) (sample_config 2) 0 10 [7] () (Inr ()) =
      (Inr ex0 :: string exchange_stream_error + _)"
    and ok0: "stream_ok sample_live (ex_inner ex0)"
    unfolding exchange_new_def pool_capacity_cases
    by (simp add: exchange_stream_new_def sample_config_def stream_ok_def slots_ok_def owned_def)
  define ex1 where "ex1 = ex0\<lparr>ex_inner := (ex_inner ex0)\<lparr>es_ws_connection_orderbook_reader := Some []\<rparr>,
      ex_ws_sink := Some []\<rparr>"
  have start: "exchange_start (Inr ([], [])) ex0 = (Inr () :: string exchange_stream_error + unit, ex1)"
    by (simp add: exchange_start_def stream_start_def ex1_def)
  then have reach: "exchange_reach the_env sample_live ex0 ex1"
    by (rule exchange_reach.there [OF exchange_reach.here exchange_step.call [OF exchange_call.start]])
  have "stream_ok sample_live (ex_inner ex1)"
    using exchange_reach_ok [OF the_env_laws ok0 reach] by blast
  then have "slots_ok sample_live (ex_inner ex1) []" by (simp add: stream_ok_def)
  from stream_run_transfers [OF the_env_laws this] obtain r :: "string exchange_stream_error + unit" and es
    where "stream_run the_env (Inr True, [WsMessage (Text ''ab''), WsMessage (Text ''cd'')]) (ex_inner ex1) =
      Some (r, es)" .
  then obtain ex2 where run: "exchange_stream_depths the_env
      (Inr True, [WsMessage (Text ''ab''), WsMessage (Text ''cd'')]) ex1 = Some (r, ex2)"
    by (cases r) (simp_all add: exchange_stream_depths_def)
  have "ec_exchange_name (sample_config 2) = 2" by (simp add: sample_config_def)
  from exchange_two_delivers_nothing [OF the_env_laws new this
      exchange_reach.there [OF reach exchange_step.call [OF exchange_call.stream_depths [OF run]]]] new start run
  show ?thesis by blast
qed

end
