(* ===== verification/Depth_Driver.thy ===== *)
theory Depth_Driver
  imports Exchange_Service
begin

text \<open>
  \<open>DepthDriver\<close> of \<open>depth-driver/src/lib.rs\<close>: its construction and the stages in which it connects,
  subscribes, synchronises and closes all exchanges, one after the other. The contract of a stage,
  one operation run over all exchanges in order, is the locale \<open>driver_stage\<close>. \<open>Driver_Startup\<close> runs
  the stages on the pool that the exchanges share, \<open>Driver_Tasks\<close> then streams them.
\<close>

subsection \<open>One operation over all exchanges\<close>

text \<open>
  \<open>for exchange in exchanges.iter_mut() { exchange.op().await?; }\<close>: exchange number \<open>i\<close> runs
  \<open>op i\<close>, and the first error ends the loop.
\<close>

fun for_each ::
  "(nat \<Rightarrow> 'x \<Rightarrow> (('e + unit) \<times> 'x) option) \<Rightarrow> nat \<Rightarrow> 'x list \<Rightarrow> (('e + unit) \<times> 'x list) option" where
  "for_each op i [] = Some (Inr (), [])"
| "for_each op i (x # xs) =
     (case op i x of
        None \<Rightarrow> None
      | Some (Inl e, x') \<Rightarrow> Some (Inl e, x' # xs)
      | Some (Inr _, x') \<Rightarrow>
          (case for_each op (Suc i) xs of
             None \<Rightarrow> None
           | Some (r, xs') \<Rightarrow> Some (r, x' # xs')))"

locale driver_stage =
  fixes op :: "nat \<Rightarrow> 'x \<Rightarrow> (('e + unit) \<times> 'x) option" and inv :: "'x \<Rightarrow> bool"
  assumes keeps: "inv x \<Longrightarrow> op i x = Some (r, x') \<Longrightarrow> inv x'"
begin

lemma for_each_keeps:
  "for_each op i xs = Some (r, xs') \<Longrightarrow> \<forall>x \<in> set xs. inv x \<Longrightarrow>
    (\<forall>x \<in> set xs'. inv x) \<and> List.length xs' = List.length xs"
proof (induction xs arbitrary: i xs')
  case (Cons x xs)
  then show ?case
    by (auto split: option.splits sum.splits prod.splits dest: keeps)
qed simp

lemma for_each_ok:
  "for_each op i xs = Some (Inr u, xs') \<Longrightarrow>
    List.length xs' = List.length xs \<and>
    (\<forall>j < List.length xs. op (i + j) (xs ! j) = Some (Inr (), xs' ! j))"
proof (induction xs arbitrary: i xs')
  case (Cons x xs)
  then obtain x' ys where "op i x = Some (Inr (), x')" "for_each op (Suc i) xs = Some (Inr u, ys)"
    "xs' = x' # ys" by (auto split: option.splits sum.splits prod.splits)
  with Cons.IH [of "Suc i" ys] show ?case by (auto simp: nth_Cons split: nat.split)
qed simp

lemma for_each_error:
  "for_each op i xs = Some (Inl e, xs') \<Longrightarrow>
    \<exists>k < List.length xs. op (i + k) (xs ! k) = Some (Inl e, xs' ! k) \<and>
      (\<forall>j < k. op (i + j) (xs ! j) = Some (Inr (), xs' ! j)) \<and> drop (Suc k) xs' = drop (Suc k) xs"
proof (induction xs arbitrary: i xs')
  case (Cons x xs)
  then consider (first) x' where "op i x = Some (Inl e, x')" "xs' = x' # xs"
    | (later) x' ys where "op i x = Some (Inr (), x')" "for_each op (Suc i) xs = Some (Inl e, ys)"
      "xs' = x' # ys" by (auto split: option.splits sum.splits prod.splits)
  then show ?case
  proof cases
    case first
    then show ?thesis by (intro exI [of _ 0]) simp
  next
    case later
    from Cons.IH [OF later(2)] obtain k where "k < List.length xs"
      "op (Suc i + k) (xs ! k) = Some (Inl e, ys ! k)"
      "\<forall>j < k. op (Suc i + j) (xs ! j) = Some (Inr (), ys ! j)" "drop (Suc k) ys = drop (Suc k) xs"
      by blast
    with later show ?thesis
      by (intro exI [of _ "Suc k"]) (auto simp: nth_Cons split: nat.split)
  qed
qed simp

end

lemma for_each_intro:
  "List.length ys = List.length xs \<Longrightarrow>
    (\<And>j. j < List.length xs \<Longrightarrow> op (i + j) (xs ! j) = Some (Inr (), ys ! j)) \<Longrightarrow>
    for_each op i xs = Some (Inr (), ys)"
proof (induction xs arbitrary: i ys)
  case (Cons x xs)
  then obtain y ys' where ys: "ys = y # ys'" by (cases ys) auto
  then have "op i x = Some (Inr (), y)" using Cons.prems(2) [of 0] by simp
  moreover have "for_each op (Suc i) xs = Some (Inr (), ys')"
    using Cons.IH [of ys' "Suc i"] Cons.prems(1) Cons.prems(2) [of "Suc j" for j] ys by force
  ultimately show ?case by (simp add: ys)
qed simp

text \<open>A stage whose operation never panics runs to an end.\<close>

locale total_stage = driver_stage +
  assumes total: "inv x \<Longrightarrow> \<exists>r x'. op i x = Some (r, x')"
begin

lemma for_each_total: "\<forall>x \<in> set xs. inv x \<Longrightarrow> \<exists>r xs'. for_each op i xs = Some (r, xs')"
proof (induction xs arbitrary: i)
  case (Cons x xs)
  then obtain r x' where "op i x = Some (r, x')" using total by fastforce
  moreover obtain r2 xs' where "for_each op (Suc i) xs = Some (r2, xs')"
    using Cons by fastforce
  ultimately show ?case by (cases r) auto
qed simp

end

subsection \<open>The driver\<close>

text \<open>
  The pool handle and the exchanges. What the environment answers to exchange \<open>i\<close> is an
  argument of each stage, indexed by \<open>i\<close>.
\<close>

definition DEPTH_CHANNEL_SIZE :: nat where "DEPTH_CHANNEL_SIZE = 10000"

record ('sl, 'pool, 'w) depth_driver =
  dd_pool :: 'pool
  dd_exchanges :: "('sl, 'pool, 'w) exchange list"

definition driver_pool :: "('sl, 'pool, 'w) depth_driver \<Rightarrow> 'pool" where
  "driver_pool d = dd_pool d"

text \<open>The \<open>?\<close> operator on an exchange's result, in a function that returns the driver's error.\<close>

definition convert_error ::
  "('j \<Rightarrow> string) \<Rightarrow> 'j exchange_stream_error + unit \<Rightarrow> 'w error_initial_state + unit" where
  "convert_error show_json r = (case r of Inl e \<Rightarrow> Inl (initial_state_of show_json e) | Inr _ \<Rightarrow> Inr ())"

text \<open>
  \<open>DepthDriver::new\<close>. It calls \<open>Exchange::new\<close> with other arguments than its definition takes, and
  a constructor of the pool the crate does not define: both are arguments. The depth channel is
  the list of what was sent; the capacity is computed with the wrap-around of a release build.
\<close>

fun new_exchanges ::
  "('j \<Rightarrow> string) \<Rightarrow> (exchange_config \<Rightarrow> 'j exchange_stream_error + ('sl, 'pool, 'w) exchange) \<Rightarrow>
   exchange_config list \<Rightarrow> 'w error_initial_state + ('sl, 'pool, 'w) exchange list" where
  "new_exchanges show_json new_exchange [] = Inr []"
| "new_exchanges show_json new_exchange (exchange_config # configs) =
     (case new_exchange exchange_config of
        Inl e \<Rightarrow> Inl (initial_state_of show_json e)
      | Inr exchange \<Rightarrow>
          (case new_exchanges show_json new_exchange configs of
             Inl e \<Rightarrow> Inl e
           | Inr exchanges \<Rightarrow> Inr (exchange # exchanges)))"

definition driver_new ::
  "('j \<Rightarrow> string) \<Rightarrow> (u64 \<Rightarrow> 'pool) \<Rightarrow>
   (exchange_config \<Rightarrow> 'sl list \<Rightarrow> 'pool \<Rightarrow> unit \<Rightarrow> 'j exchange_stream_error + ('sl, 'pool, 'w) exchange) \<Rightarrow>
   exchange_config list \<Rightarrow> unit \<Rightarrow>
   'w error_initial_state + ('sl, 'pool, 'w) depth_driver \<times> 'sl list" where
  "driver_new show_json with_capacity new_exchange exchange_configs watch =
     (let depths = [];
          pool_capacity = of_nat DEPTH_CHANNEL_SIZE + of_nat (List.length exchange_configs) * MAX_BUFFERED_DEPTHS;
          pool = with_capacity pool_capacity;
          inner_snapshot_consumer = ()
      in case new_exchanges show_json
                (\<lambda>exchange_config. new_exchange exchange_config depths pool inner_snapshot_consumer)
                exchange_configs of
           Inl e \<Rightarrow> Inl e
         | Inr exchanges \<Rightarrow> Inr (\<lparr>dd_pool = pool, dd_exchanges = exchanges\<rparr>, depths))"

lemma new_exchanges_ok:
  "new_exchanges show_json new_exchange configs = Inr exs \<longleftrightarrow>
    list_all2 (\<lambda>c ex. new_exchange c = Inr ex) configs exs"
proof (induction configs arbitrary: exs)
  case (Cons c configs)
  show ?case by (auto simp: list_all2_Cons1 Cons.IH [symmetric] split: sum.splits)
qed auto

text \<open>The first exchange that cannot be built ends the construction with its error, converted.\<close>

lemma new_exchanges_error:
  "new_exchanges show_json new_exchange configs = Inl e \<longleftrightarrow>
    (\<exists>before c after exs err. configs = before @ c # after \<and>
      list_all2 (\<lambda>c ex. new_exchange c = Inr ex) before exs \<and> new_exchange c = Inl err \<and>
      e = initial_state_of show_json err)"
proof (induction configs)
  case (Cons c0 configs)
  show ?case
  proof (cases "new_exchange c0")
    case (Inl err)
    then have "new_exchanges show_json new_exchange (c0 # configs) = Inl e \<longleftrightarrow>
        e = initial_state_of show_json err" by auto
    then show ?thesis
      using Inl by (auto simp: Cons_eq_append_conv list_all2_Cons1)
  next
    case (Inr ex0)
    then have "new_exchanges show_json new_exchange (c0 # configs) = Inl e \<longleftrightarrow>
        new_exchanges show_json new_exchange configs = Inl e" by (auto split: sum.split)
    then show ?thesis
      using Inr Cons.IH by (auto simp: Cons_eq_append_conv list_all2_Cons1) blast+
  qed
qed simp

definition over_exchanges ::
  "(nat \<Rightarrow> ('sl, 'pool, 'w) exchange \<Rightarrow> (('e + unit) \<times> ('sl, 'pool, 'w) exchange) option) \<Rightarrow>
   ('sl, 'pool, 'w) depth_driver \<Rightarrow> (('e + unit) \<times> ('sl, 'pool, 'w) depth_driver) option" where
  "over_exchanges op d =
     map_option (\<lambda>(r, exs). (r, d\<lparr>dd_exchanges := exs\<rparr>)) (for_each op 0 (dd_exchanges d))"

definition connect_op ::
  "('j \<Rightarrow> string) \<Rightarrow> (nat \<Rightarrow> string + message list \<times> 'w ws_event list) \<Rightarrow>
   nat \<Rightarrow> ('sl, 'pool, 'w) exchange \<Rightarrow>
   (('w error_initial_state + unit) \<times> ('sl, 'pool, 'w) exchange) option" where
  "connect_op show_json conns i ex =
     Some (map_prod (convert_error show_json) id (exchange_start (conns i) ex))"

definition driver_websocket_connect ::
  "('j \<Rightarrow> string) \<Rightarrow> (nat \<Rightarrow> string + message list \<times> 'w ws_event list) \<Rightarrow>
   ('sl, 'pool, 'w) depth_driver \<Rightarrow>
   (('w error_initial_state + unit) \<times> ('sl, 'pool, 'w) depth_driver) option" where
  "driver_websocket_connect show_json conns d = over_exchanges (connect_op show_json conns) d"

definition subscribe_op ::
  "('j \<Rightarrow> string) \<Rightarrow> (json \<Rightarrow> string) \<Rightarrow> (nat \<Rightarrow> message list \<Rightarrow> string + unit) \<Rightarrow>
   nat \<Rightarrow> ('sl, 'pool, 'w) exchange \<Rightarrow>
   (('w error_initial_state + unit) \<times> ('sl, 'pool, 'w) exchange) option" where
  "subscribe_op show_json to_string sents i ex =
     Some (map_prod (convert_error show_json) id (exchange_subscribe_orderbooks to_string (sents i) ex))"

definition driver_subscribe_depths ::
  "('j \<Rightarrow> string) \<Rightarrow> (json \<Rightarrow> string) \<Rightarrow> (nat \<Rightarrow> message list \<Rightarrow> string + unit) \<Rightarrow>
   ('sl, 'pool, 'w) depth_driver \<Rightarrow>
   (('w error_initial_state + unit) \<times> ('sl, 'pool, 'w) depth_driver) option" where
  "driver_subscribe_depths show_json to_string sents d =
     over_exchanges (subscribe_op show_json to_string sents) d"

definition snapshot_op ::
  "('d, 'sl, 'pool, 'j) env \<Rightarrow> (nat \<Rightarrow> http_answer) \<Rightarrow> (nat \<Rightarrow> nat \<Rightarrow> 'w poll_input) \<Rightarrow>
   nat \<Rightarrow> ('sl, 'pool, 'w) exchange \<Rightarrow>
   (('w error_initial_state + unit) \<times> ('sl, 'pool, 'w) exchange) option" where
  "snapshot_op X answers inputs i ex =
     map_option (map_prod (convert_error (json_display X)) id)
       (exchange_run_snapshot X (answers i) (inputs i) ex)"

definition push_op ::
  "('d, 'sl, 'pool, 'j) env \<Rightarrow> nat \<Rightarrow> ('sl, 'pool, 'w) exchange \<Rightarrow>
   (('w error_initial_state + unit) \<times> ('sl, 'pool, 'w) exchange) option" where
  "push_op X i ex = map_option (\<lambda>ex'. (Inr (), ex')) (exchange_push_buffered_ws_depths X ex)"

definition driver_sync_orderbook ::
  "('d, 'sl, 'pool, 'j) env \<Rightarrow> (nat \<Rightarrow> http_answer) \<Rightarrow> (nat \<Rightarrow> nat \<Rightarrow> 'w poll_input) \<Rightarrow>
   ('sl, 'pool, 'w) depth_driver \<Rightarrow>
   (('w error_initial_state + unit) \<times> ('sl, 'pool, 'w) depth_driver) option" where
  "driver_sync_orderbook X answers inputs d =
     (case over_exchanges (snapshot_op X answers inputs) d of
        None \<Rightarrow> None
      | Some (Inl e, d') \<Rightarrow> Some (Inl e, d')
      | Some (Inr _, d') \<Rightarrow> over_exchanges (push_op X) d')"

definition close_op ::
  "(nat \<Rightarrow> string + unit) \<Rightarrow> nat \<Rightarrow> ('sl, 'pool, 'w) exchange \<Rightarrow>
   ((error_hot_path + unit) \<times> ('sl, 'pool, 'w) exchange) option" where
  "close_op answers i ex =
     Some (map_prod (\<lambda>r :: string exchange_stream_error + unit.
         case r of Inl _ \<Rightarrow> Inl OrderBookDealSendFail | Inr _ \<Rightarrow> Inr ()) id
       (exchange_close (answers i) ex))"

definition driver_close_exchanges ::
  "(nat \<Rightarrow> string + unit) \<Rightarrow> ('sl, 'pool, 'w) depth_driver \<Rightarrow>
   ((error_hot_path + unit) \<times> ('sl, 'pool, 'w) depth_driver) option" where
  "driver_close_exchanges answers d = over_exchanges (close_op answers) d"

text \<open>What the world answers during the stages of one run of the driver.\<close>

record 'w driver_world =
  dw_conns :: "nat \<Rightarrow> string + message list \<times> 'w ws_event list"
  dw_sents :: "nat \<Rightarrow> message list \<Rightarrow> string + unit"
  dw_answers :: "nat \<Rightarrow> http_answer"
  dw_sync_inputs :: "nat \<Rightarrow> nat \<Rightarrow> 'w poll_input"

subsection \<open>The stages\<close>

text \<open>What every stage keeps: the exchange's stream owns its slots, in a lawful environment.\<close>

definition serviceable ::
  "('d, 'sl, 'pool, 'j) env \<Rightarrow> ('pool \<Rightarrow> 'sl set) \<Rightarrow>
   (bytes \<Rightarrow> u8 \<Rightarrow> bool \<Rightarrow> 'd depth_update list) \<Rightarrow> (bytes \<Rightarrow> 'j + unit) \<Rightarrow> 'j \<Rightarrow>
   ('sl, 'pool, 'w) exchange \<Rightarrow> bool" where
  "serviceable X live emits ends stopped ex \<longleftrightarrow>
     env_laws X live emits ends stopped \<and> stream_ok live (ex_inner ex)"

lemma serviceable_step:
  "serviceable X live emits ends stopped ex \<Longrightarrow> exchange_step X live ex ex' \<Longrightarrow>
    serviceable X live emits ends stopped ex'"
  unfolding serviceable_def using exchange_step_ok [of X live emits ends stopped ex ex'] by blast

lemma map_prod_snd: "map_prod f id p = (r, y) \<Longrightarrow> \<exists>x. p = (x, y)"
  by (cases p) simp

interpretation connect_stage: total_stage "connect_op show_json conns"
  "serviceable X live emits ends stopped"
  for show_json :: "'j \<Rightarrow> string" and conns and X :: "('d, 'sl, 'pool, 'j) env"
    and live emits ends stopped
proof
  fix ex i r ex'
  assume inv: "serviceable X live emits ends stopped ex" and run: "connect_op show_json conns i ex = Some (r, ex')"
  have "map_prod (convert_error show_json) id (exchange_start (conns i) ex) = (r, ex')"
    using run by (simp add: connect_op_def)
  from map_prod_snd [OF this] obtain q :: "'j exchange_stream_error + unit" where
    "exchange_start (conns i) ex = (q, ex')" by blast
  then show "serviceable X live emits ends stopped ex'"
    by (rule serviceable_step [OF inv exchange_step.call [OF exchange_call.start]])
qed (simp add: connect_op_def)

interpretation subscribe_stage: total_stage "subscribe_op show_json to_string sents"
  "serviceable X live emits ends stopped"
  for show_json :: "'j \<Rightarrow> string" and to_string sents and X :: "('d, 'sl, 'pool, 'j) env"
    and live emits ends stopped
proof
  fix ex i r ex'
  assume inv: "serviceable X live emits ends stopped ex"
    and run: "subscribe_op show_json to_string sents i ex = Some (r, ex')"
  have "map_prod (convert_error show_json) id (exchange_subscribe_orderbooks to_string (sents i) ex) =
      (r, ex')" using run by (simp add: subscribe_op_def)
  from map_prod_snd [OF this] obtain q :: "'j exchange_stream_error + unit" where
    "exchange_subscribe_orderbooks to_string (sents i) ex = (q, ex')" by blast
  then show "serviceable X live emits ends stopped ex'"
    by (rule serviceable_step [OF inv exchange_step.call [OF exchange_call.subscribe]])
qed (simp add: subscribe_op_def)

interpretation snapshot_stage: driver_stage "snapshot_op X answers inputs"
  "serviceable X live emits ends stopped" for X answers inputs live emits ends stopped
proof
  fix ex i r ex'
  assume inv: "serviceable X live emits ends stopped ex" and run: "snapshot_op X answers inputs i ex = Some (r, ex')"
  then obtain q where "exchange_run_snapshot X (answers i) (inputs i) ex = Some (q, ex')"
    by (auto simp: snapshot_op_def dest: map_prod_snd)
  then show "serviceable X live emits ends stopped ex'"
    by (rule serviceable_step [OF inv exchange_step.call [OF exchange_call.snapshot]])
qed

interpretation push_stage: total_stage "push_op X"
  "serviceable X live emits ends stopped" for X live emits ends stopped
proof
  fix ex i
  assume inv: "serviceable X live emits ends stopped ex"
  show "\<exists>r ex'. push_op X i ex = Some (r, ex')"
    using inv stream_push_buffered_empty [of X live emits ends stopped "ex_inner ex"]
    by (auto simp: serviceable_def stream_ok_def push_op_def exchange_push_buffered_ws_depths_def)
  fix r ex'
  assume "push_op X i ex = Some (r, ex')"
  then have "exchange_push_buffered_ws_depths X ex = Some ex'" by (auto simp: push_op_def)
  then show "serviceable X live emits ends stopped ex'"
    by (rule serviceable_step [OF inv exchange_step.call [OF exchange_call.push_buffered]])
qed

interpretation close_stage: total_stage "close_op answers"
  "serviceable X live emits ends stopped"
  for answers and X :: "('d, 'sl, 'pool, 'j) env" and live emits ends stopped
proof
  fix ex i r ex'
  assume inv: "serviceable X live emits ends stopped ex" and run: "close_op answers i ex = Some (r, ex')"
  have "ex_inner ex' = ex_inner ex"
    using run by (auto simp: close_op_def exchange_close_def split: option.splits sum.splits)
  then show "serviceable X live emits ends stopped ex'" using inv by (simp add: serviceable_def)
qed (simp add: close_op_def)

end
