(* ===== verification/Driver_Properties.thy ===== *)
theory Driver_Properties
  imports Depth_Driver
begin

text \<open>
  The properties of the driver's stages: what they keep, and the order of the synchronisation.
\<close>

subsection \<open>Auxiliary facts\<close>

lemma over_exchanges_some:
  "over_exchanges op d = Some (r, d') \<longleftrightarrow>
    (\<exists>exs. for_each op 0 (dd_exchanges d) = Some (r, exs) \<and> d' = d\<lparr>dd_exchanges := exs\<rparr>)"
  by (auto simp: over_exchanges_def)

text \<open>How the synchronisation ends: in the snapshots with an error, or after the pushes.\<close>

lemma sync_cases:
  assumes "driver_sync_orderbook X answers inputs d = Some (r, d')"
  obtains (failed) e exs where "r = Inl e"
      "for_each (snapshot_op X answers inputs) 0 (dd_exchanges d) = Some (Inl e, exs)"
      "d' = d\<lparr>dd_exchanges := exs\<rparr>"
  | (pushed) exs exs' where
      "for_each (snapshot_op X answers inputs) 0 (dd_exchanges d) = Some (Inr (), exs)"
      "for_each (push_op X) 0 exs = Some (r, exs')" "d' = d\<lparr>dd_exchanges := exs'\<rparr>"
  using assms
  by (auto simp: driver_sync_orderbook_def over_exchanges_some split: option.splits sum.splits)

lemma convert_error_iff:
  "convert_error f q = Inr u \<longleftrightarrow> q = Inr ()"
  "convert_error f q = Inl e \<longleftrightarrow> (\<exists>err. q = Inl err \<and> e = initial_state_of f err)"
  by (cases q; auto simp: convert_error_def)+

lemma snapshot_op_some:
  "snapshot_op X answers inputs i ex = Some (Inl e, ex') \<Longrightarrow>
    \<exists>err. exchange_run_snapshot X (answers i) (inputs i) ex = Some (Inl err, ex') \<and>
      e = initial_state_of (json_display X) err"
  "snapshot_op X answers inputs i ex = Some (Inr u, ex') \<Longrightarrow>
    exchange_run_snapshot X (answers i) (inputs i) ex = Some (Inr (), ex')"
  by (auto simp: snapshot_op_def convert_error_iff)

text \<open>The push stage, on an exchange that owns its slots.\<close>

lemma push_op_value:
  assumes "serviceable X live emits ends stopped ex"
  shows "push_op X j ex =
    Some (Inr (), ex\<lparr>ex_inner := (ex_inner ex)\<lparr>es_buffer_websocket_depths := False\<rparr>\<rparr>)"
  using assms stream_push_buffered_empty [of X live emits ends stopped "ex_inner ex"]
  by (simp add: serviceable_def stream_ok_def push_op_def exchange_push_buffered_ws_depths_def)

text \<open>The concrete driver of the examples.\<close>

definition sample_exchange :: "u8 \<Rightarrow> (nat, nat \<times> nat list, string) exchange" where
  "sample_exchange n = \<lparr>ex_inner = sample_stream n [] [] [], ex_ws_sink = Some [],
     ex_websocket_uri = ''ws'', ex_watched_pair = ''pair''\<rparr>"

definition sample_driver :: "u8 list \<Rightarrow> (nat, nat \<times> nat list, string) depth_driver" where
  "sample_driver ns = \<lparr>dd_pool = (8, []), dd_exchanges = map sample_exchange ns\<rparr>"

lemma sample_serviceable:
  "\<forall>ex \<in> set (dd_exchanges (sample_driver ns)).
     serviceable the_env sample_live sample_emits sample_ends ''stopped'' ex"
  by (auto simp: sample_driver_def serviceable_def sample_exchange_def the_env_laws sample_stream_ok)

subsection \<open>The pool and the stages\<close>

text \<open>
  The pool of a new driver is as large as its comment says. The exchanges are built in the
  order of their configurations, with one pool and one channel. Whatever states they are in
  later, while the channel and the reader hold no more slots than the channel has places, there
  is room left in the pool for two more full buffers of every exchange. The size is exact as long as
  it fits 64 bits.
\<close>

lemma driver_pool_is_large_enough:
  assumes new: "driver_new show_json with_capacity new_exchange configs watch = Inr (d, depths)"
    and fits: "DEPTH_CHANNEL_SIZE + 4000 * List.length configs < 2 ^ 64"
    and later: "List.length exs = List.length (dd_exchanges d)"
      "\<forall>ex \<in> set exs. stream_ok live (ex_inner ex)"
    and transit: "finite transit" "card transit \<le> DEPTH_CHANNEL_SIZE"
    and used: "used \<subseteq> transit \<union> (\<Union>ex \<in> set exs. set (owned (ex_inner ex) []))"
  shows "\<exists>capacity. driver_pool d = with_capacity capacity \<and> depths = [] \<and>
    list_all2 (\<lambda>c ex. new_exchange c [] (driver_pool d) () = Inr ex) configs (dd_exchanges d) \<and>
    card used + 2 * DEPTH_BUFFER_SIZE * List.length (dd_exchanges d) \<le> unat capacity"
proof -
  define capacity :: u64 where
    "capacity = of_nat DEPTH_CHANNEL_SIZE + of_nat (List.length configs) * MAX_BUFFERED_DEPTHS"
  have built: "driver_pool d = with_capacity capacity" "depths = []"
    "list_all2 (\<lambda>c ex. new_exchange c [] (driver_pool d) () = Inr ex) configs (dd_exchanges d)"
    using new unfolding driver_new_def Let_def capacity_def [symmetric]
    by (auto simp: driver_pool_def new_exchanges_ok split: sum.splits)
  have "capacity = of_nat (DEPTH_CHANNEL_SIZE + 4000 * List.length configs)"
    by (simp add: capacity_def MAX_BUFFERED_DEPTHS_def DEPTH_BUFFER_SIZE_def)
  then have size: "unat capacity = DEPTH_CHANNEL_SIZE + 4000 * List.length configs"
    using fits by (simp only: unat_of_nat) simp
  have one: "card (set (owned (ex_inner ex) [])) \<le> 2 * DEPTH_BUFFER_SIZE" if "ex \<in> set exs" for ex
  proof -
    have "List.length (owned (ex_inner ex) []) \<le> 2 * DEPTH_BUFFER_SIZE"
      using later(2) that by (auto simp: stream_ok_def slots_ok_def owned_def)
    then show ?thesis using card_length [of "owned (ex_inner ex) []"] by linarith
  qed
  have "card (\<Union>ex \<in> set exs. set (owned (ex_inner ex) [])) \<le>
      (\<Sum>ex \<in> set exs. card (set (owned (ex_inner ex) [])))" by (rule card_UN_le) simp
  also have "\<dots> \<le> card (set exs) * (2 * DEPTH_BUFFER_SIZE)"
    using sum_bounded_above [of "set exs" "\<lambda>ex. card (set (owned (ex_inner ex) []))"] one by simp
  also have "\<dots> \<le> List.length exs * (2 * DEPTH_BUFFER_SIZE)"
    by (rule mult_le_mono1) (rule card_length)
  finally have buffers: "card (\<Union>ex \<in> set exs. set (owned (ex_inner ex) [])) \<le>
      List.length exs * (2 * DEPTH_BUFFER_SIZE)" .
  have "card used \<le> card (transit \<union> (\<Union>ex \<in> set exs. set (owned (ex_inner ex) [])))"
    by (rule card_mono [OF _ used]) (simp add: transit(1))
  also have "\<dots> \<le> card transit + card (\<Union>ex \<in> set exs. set (owned (ex_inner ex) []))"
    by (rule card_Un_le)
  finally have "card used \<le> DEPTH_CHANNEL_SIZE + List.length exs * (2 * DEPTH_BUFFER_SIZE)"
    using buffers transit(2) by linarith
  moreover have "List.length exs = List.length configs"
    using later(1) built(3) by (simp add: list_all2_lengthD)
  ultimately have "card used + 2 * DEPTH_BUFFER_SIZE * List.length (dd_exchanges d) \<le> unat capacity"
    using size later(1) by (simp add: DEPTH_BUFFER_SIZE_def)
  with built show ?thesis by blast
qed

text \<open>
  Connecting, subscribing and closing always return, and these stages and the
  synchronisation, when it returns, leave every exchange owning its slots, whether they
  succeed or stop at an error half way.
\<close>

lemma driver_stages_keep_slots:
  fixes X :: "('d, 'sl, 'pool, 'j) env" and d :: "('sl, 'pool, 'w) depth_driver"
  assumes inv: "\<forall>ex \<in> set (dd_exchanges d). serviceable X live emits ends stopped ex"
  shows "(\<exists>r d'. driver_websocket_connect (json_display X) conns d = Some (r, d') \<and>
      (\<forall>ex \<in> set (dd_exchanges d'). serviceable X live emits ends stopped ex)) \<and>
    (\<exists>r d'. driver_subscribe_depths (json_display X) to_string sents d = Some (r, d') \<and>
      (\<forall>ex \<in> set (dd_exchanges d'). serviceable X live emits ends stopped ex)) \<and>
    (\<exists>r d'. driver_close_exchanges answers d = Some (r, d') \<and>
      (\<forall>ex \<in> set (dd_exchanges d'). serviceable X live emits ends stopped ex)) \<and>
    (\<forall>r d'. driver_sync_orderbook X https inputs d = Some (r, d') \<longrightarrow>
      (\<forall>ex \<in> set (dd_exchanges d'). serviceable X live emits ends stopped ex))"
proof (intro conjI)
  show "\<exists>r d'. driver_websocket_connect (json_display X) conns d = Some (r, d') \<and>
      (\<forall>ex \<in> set (dd_exchanges d'). serviceable X live emits ends stopped ex)"
    using connect_stage.for_each_total [OF inv] connect_stage.for_each_keeps [OF _ inv]
    by (fastforce simp: driver_websocket_connect_def over_exchanges_some)
  show "\<exists>r d'. driver_subscribe_depths (json_display X) to_string sents d = Some (r, d') \<and>
      (\<forall>ex \<in> set (dd_exchanges d'). serviceable X live emits ends stopped ex)"
    using subscribe_stage.for_each_total [OF inv] subscribe_stage.for_each_keeps [OF _ inv]
    by (fastforce simp: driver_subscribe_depths_def over_exchanges_some)
  show "\<exists>r d'. driver_close_exchanges answers d = Some (r, d') \<and>
      (\<forall>ex \<in> set (dd_exchanges d'). serviceable X live emits ends stopped ex)"
    using close_stage.for_each_total [OF inv] close_stage.for_each_keeps [OF _ inv]
    by (fastforce simp: driver_close_exchanges_def over_exchanges_some)
  show "\<forall>r d'. driver_sync_orderbook X https inputs d = Some (r, d') \<longrightarrow>
      (\<forall>ex \<in> set (dd_exchanges d'). serviceable X live emits ends stopped ex)"
  proof (intro allI impI)
    fix r :: "'w error_initial_state + unit" and d'
    assume "driver_sync_orderbook X https inputs d = Some (r, d')"
    then show "\<forall>ex \<in> set (dd_exchanges d'). serviceable X live emits ends stopped ex"
    proof (cases rule: sync_cases)
      case (failed e exs)
      then show ?thesis using snapshot_stage.for_each_keeps [OF failed(2) inv] by simp
    next
      case (pushed exs exs')
      then have "\<forall>ex \<in> set exs. serviceable X live emits ends stopped ex"
        using snapshot_stage.for_each_keeps [OF pushed(1) inv] by simp
      from push_stage.for_each_keeps [OF pushed(2) this] show ?thesis using pushed by simp
    qed
  qed
qed

subsection \<open>Properties\<close>

text \<open>
  C35. The synchronisation is in two passes. An error comes from the first failing snapshot,
  converted: the snapshots before it were run, no later exchange was touched and nothing was
  pushed. Otherwise every exchange ran its snapshot, and then had its buffering turned off.
\<close>

theorem sync_snapshots_then_pushes:
  fixes X :: "('d, 'sl, 'pool, 'j) env" and d d' :: "('sl, 'pool, 'w) depth_driver"
  assumes inv: "\<forall>ex \<in> set (dd_exchanges d). serviceable X live emits ends stopped ex"
    and sync: "driver_sync_orderbook X answers inputs d = Some (r, d')"
  shows "(\<forall>e. r = Inl e \<longrightarrow> (\<exists>k < List.length (dd_exchanges d). \<exists>err.
      exchange_run_snapshot X (answers k) (inputs k) (dd_exchanges d ! k) =
        Some (Inl err, dd_exchanges d' ! k) \<and> e = initial_state_of (json_display X) err \<and>
      (\<forall>j < k. exchange_run_snapshot X (answers j) (inputs j) (dd_exchanges d ! j) =
        Some (Inr (), dd_exchanges d' ! j)) \<and>
      drop (Suc k) (dd_exchanges d') = drop (Suc k) (dd_exchanges d))) \<and>
    (r = Inr () \<longrightarrow> (\<forall>j < List.length (dd_exchanges d). \<exists>ex.
      exchange_run_snapshot X (answers j) (inputs j) (dd_exchanges d ! j) = Some (Inr (), ex) \<and>
      dd_exchanges d' ! j = ex\<lparr>ex_inner := (ex_inner ex)\<lparr>es_buffer_websocket_depths := False\<rparr>\<rparr>))"
  using sync
proof (cases rule: sync_cases)
  case (failed e exs)
  from snapshot_stage.for_each_error [OF failed(2)] obtain k where k:
    "k < List.length (dd_exchanges d)" "snapshot_op X answers inputs k (dd_exchanges d ! k) = Some (Inl e, exs ! k)"
    "\<forall>j < k. snapshot_op X answers inputs j (dd_exchanges d ! j) = Some (Inr (), exs ! j)"
    "drop (Suc k) exs = drop (Suc k) (dd_exchanges d)" by auto
  obtain err where "exchange_run_snapshot X (answers k) (inputs k) (dd_exchanges d ! k) =
      Some (Inl err, exs ! k)" "e = initial_state_of (json_display X) err"
    using snapshot_op_some(1) [OF k(2)] by blast
  moreover have "\<forall>j < k. exchange_run_snapshot X (answers j) (inputs j) (dd_exchanges d ! j) =
      Some (Inr (), exs ! j)"
    using k(3) snapshot_op_some(2) [of X answers inputs] by blast
  ultimately show ?thesis using k(1,4) failed by auto
next
  case (pushed exs exs')
  have inv': "\<forall>ex \<in> set exs. serviceable X live emits ends stopped ex"
    using snapshot_stage.for_each_keeps [OF pushed(1) inv] by simp
  note snap = snapshot_stage.for_each_ok [OF pushed(1)]
  have never: "push_op X i ex \<noteq> Some (Inl e, ex')" for i ex ex' and e :: "'w error_initial_state"
    by (auto simp: push_op_def)
  have ok: "r = Inr ()"
    using push_stage.for_each_error [of X 0 exs _ exs'] pushed(2) never by (cases r) auto
  note all = push_stage.for_each_ok [OF pushed(2) [unfolded ok]]
  have "exchange_run_snapshot X (answers j) (inputs j) (dd_exchanges d ! j) = Some (Inr (), exs ! j) \<and>
      exs' ! j = (exs ! j)\<lparr>ex_inner := (ex_inner (exs ! j))\<lparr>es_buffer_websocket_depths := False\<rparr>\<rparr>"
    if "j < List.length (dd_exchanges d)" for j
  proof -
    have j: "j < List.length exs" using that snap by simp
    then have "serviceable X live emits ends stopped (exs ! j)" using inv' by simp
    moreover have "push_op X j (exs ! j) = Some (Inr () :: 'w error_initial_state + unit, exs' ! j)"
      using all j by simp
    moreover have "snapshot_op X answers inputs j (dd_exchanges d ! j) = Some (Inr (), exs ! j)"
      using snap that by simp
    ultimately show ?thesis using push_op_value snapshot_op_some(2) by fastforce
  qed
  then show ?thesis using ok pushed(3) by auto
qed

lemma sync_snapshots_then_pushes_witness:
  "\<exists>e d'. driver_sync_orderbook the_env (\<lambda>_. sample_answer ''ab'') (\<lambda>_ _. (Inr True, [])) (sample_driver [3]) =
     Some (Inl e, d') \<and>
   (\<exists>err. e = initial_state_of (json_display the_env) err)"
proof -
  obtain e d' where run: "driver_sync_orderbook the_env (\<lambda>_. sample_answer ''ab'')
      (\<lambda>_ _. (Inr True, [])) (sample_driver [3]) = Some (Inl e, d')"
    by (simp add: driver_sync_orderbook_def over_exchanges_def sample_driver_def snapshot_op_def
        exchange_run_snapshot_def stream_run_snapshot_def pull_depths_def orderbook_snapshot_def
        sample_exchange_def sample_stream_def convert_error_def)
  from sync_snapshots_then_pushes [OF sample_serviceable run] run show ?thesis by blast
qed

end
