(* ===== verification/Market_Properties.thy ===== *)
theory Market_Properties
  imports Market_Objects
begin

text \<open>The properties of the market objects: what the conversions to depth updates keep.\<close>

text \<open>A level of a payload and the depth update it becomes.\<close>

definition carries :: "u8 \<Rightarrow> bool \<Rightarrow> u8 \<Rightarrow> 'd \<Rightarrow> 'd \<Rightarrow> 'd depth_update \<Rightarrow> bool" where
  "carries location snapshot kind price quantity u \<longleftrightarrow>
     du_p u = price \<and> du_q u = quantity \<and> du_k u = kind \<and> du_l u = location \<and> du_s u = snapshot"

lemma list_all2_map_carries:
  "(\<And>x. P x (f x)) \<Longrightarrow> list_all2 P xs (map f xs)"
  by (simp add: list_all2_conv_all_nth)

text \<open>
  The three payloads become depth updates level by level: in the payload's order, with its
  prices and quantities, the location asked for, the kind of the side, and the snapshot mark
  for a snapshot only.
\<close>

theorem depths_carry_levels:
  "list_all2 (\<lambda>l. carries loc False 0 (su_p l) (su_q l)) (wu_bids w) (fst (ws_order_book_updates_depths w loc)) \<and>
   list_all2 (\<lambda>l. carries loc False 1 (su_p l) (su_q l)) (wu_asks w) (snd (ws_order_book_updates_depths w loc)) \<and>
   list_all2 (\<lambda>l. carries loc False 0 (bd_price l) (bd_quantity l)) (wd_b d) (fst (ws_depth_update_depths d loc)) \<and>
   list_all2 (\<lambda>l. carries loc False 1 (bd_price l) (bd_quantity l)) (wd_a d) (snd (ws_depth_update_depths d loc)) \<and>
   list_all2 (\<lambda>l. carries loc True 0 (bd_price l) (bd_quantity l)) (hs_bids h) (fst (http_snapshot_depths h loc)) \<and>
   list_all2 (\<lambda>l. carries loc True 1 (bd_price l) (bd_quantity l)) (hs_asks h) (snd (http_snapshot_depths h loc))"
  unfolding ws_order_book_updates_depths_def ws_depth_update_depths_def http_snapshot_depths_def
    prod.sel by (intro conjI list_all2_map_carries) (simp_all add: carries_def)

text \<open>
  The kinds contradict the documented encoding and the older conversion: every bid of
  \<open>depths\<close> is documented as an ask and every ask as a bid, while \<open>orders\<close> of \<open>binance.rs\<close> follows
  the documentation, so that the two conversions of one snapshot disagree on every level.
\<close>

theorem kinds_contradict_documentation:
  "(\<forall>u \<in> set (fst (http_snapshot_depths h loc)). documented_ask u \<and> \<not> documented_bid u) \<and>
   (\<forall>u \<in> set (snd (http_snapshot_depths h loc)). documented_bid u \<and> \<not> documented_ask u) \<and>
   (\<forall>u \<in> set (fst (orders s)). lu_k u = 0) \<and> (\<forall>u \<in> set (snd (orders s)). lu_k u = 1) \<and>
   (hs_asks h' = hf_asks s \<and> hs_bids h' = hf_bids s \<longrightarrow>
      list_all2 (\<lambda>l u. lu_p l = du_p u \<and> lu_q l = du_q u \<and> lu_k l \<noteq> du_k u)
        (fst (orders s)) (snd (http_snapshot_depths h' loc)) \<and>
      list_all2 (\<lambda>l u. lu_p l = du_p u \<and> lu_q l = du_q u \<and> lu_k l \<noteq> du_k u)
        (snd (orders s)) (fst (http_snapshot_depths h' loc)))"
  by (auto simp: http_snapshot_depths_def orders_def documented_ask_def documented_bid_def
      list_all2_conv_all_nth)

definition one_bid :: "int http_snapshot" where
  "one_bid = \<lparr>hs_retcode = None, hs_lastUpdateId = 0, hs_asks = [],
     hs_bids = [\<lparr>bd_price = 5, bd_quantity = 6\<rparr>]\<rparr>"

definition one_bid_f64 :: http_snapshot_f64 where
  "one_bid_f64 = \<lparr>hf_retcode = None, hf_lastUpdateId = 0, hf_asks = [],
     hf_bids = [\<lparr>bd_price = F64_Fin 5, bd_quantity = F64_Fin 6\<rparr>]\<rparr>"

lemma kinds_contradict_documentation_witness:
  "documented_ask (hd (fst (http_snapshot_depths one_bid 1))) \<and>
   lu_k (hd (snd (orders one_bid_f64))) = 1"
proof -
  have some: "hd (fst (http_snapshot_depths one_bid 1)) \<in> set (fst (http_snapshot_depths one_bid 1))"
    "hd (snd (orders one_bid_f64)) \<in> set (snd (orders one_bid_f64))"
    by (simp_all add: http_snapshot_depths_def one_bid_def orders_def one_bid_f64_def)
  show ?thesis
    using some kinds_contradict_documentation [of one_bid 1 one_bid_f64 "\<lparr>hs_retcode = None,
      hs_lastUpdateId = 0, hs_asks = [], hs_bids = [\<lparr>bd_price = F64_Fin 5, bd_quantity = F64_Fin 6\<rparr>]\<rparr>"]
    by blast
qed

end
