(* ===== verification/Depth_Pool.thy ===== *)
theory Depth_Pool
  imports Market_Objects
begin

text \<open>
  \<open>depth-pool/src/lib.rs\<close>: the archived form of a depth update. rkyv's serializer, its checked
  and unchecked access and its deserializer, and rust_decimal's 16-byte form, are arguments.
  The crate does not define the \<open>insert\<close> and \<open>release\<close> the exchange calls.
\<close>

record 'arena depth_pool =
  dp_arena :: 'arena

definition depth_pool_new :: "'arena \<Rightarrow> 'arena depth_pool" where
  "depth_pool_new arena_new = \<lparr>dp_arena = arena_new\<rparr>"

definition depth_pool_allocate :: "'arena depth_pool \<Rightarrow> 'arena depth_pool" where
  "depth_pool_allocate pool = pool"

text \<open>The 16-byte form of a decimal and the conversion back.\<close>

record rkyv_decimal =
  rd_bytes :: bytes

definition rkyv_decimal_get :: "('d \<Rightarrow> bytes) \<Rightarrow> 'd \<Rightarrow> rkyv_decimal" where
  "rkyv_decimal_get serialize d = \<lparr>rd_bytes = serialize d\<rparr>"

definition decimal_from_rkyv :: "(bytes \<Rightarrow> 'd) \<Rightarrow> rkyv_decimal \<Rightarrow> 'd" where
  "decimal_from_rkyv deserialize r = deserialize (rd_bytes r)"

text \<open>The crate has its own \<open>DepthUpdate\<close>, with the same fields and the same default.\<close>

definition pool_depth_update_default :: "'d decimal \<Rightarrow> 'd depth_update" where
  "pool_depth_update_default D =
     \<lparr>du_k = 0, du_p = dec_zero D, du_q = dec_zero D, du_l = 0, du_s = False\<rparr>"

text \<open>The derived \<open>Archive\<close> form: the fields, with the decimals through \<open>RkyvDecimal\<close>.\<close>

record archived_depth_update =
  ad_k :: u8
  ad_p :: rkyv_decimal
  ad_q :: rkyv_decimal
  ad_l :: u8
  ad_s :: bool

definition archive_depth_update :: "('d \<Rightarrow> bytes) \<Rightarrow> 'd depth_update \<Rightarrow> archived_depth_update" where
  "archive_depth_update serialize u =
     \<lparr>ad_k = du_k u, ad_p = rkyv_decimal_get serialize (du_p u),
      ad_q = rkyv_decimal_get serialize (du_q u), ad_l = du_l u, ad_s = du_s u\<rparr>"

text \<open>
  rkyv: writing an archived value with an arena, checked and unchecked access to bytes, and the
  deserializers of the types of the fields, which may fail.
\<close>

record ('arena, 'err) rkyv =
  rk_arena_new :: 'arena
  rk_acquire :: "'arena \<Rightarrow> 'arena"
  rk_write :: "archived_depth_update \<Rightarrow> 'arena \<Rightarrow> 'err + bytes"
  rk_access :: "bytes \<Rightarrow> 'err + archived_depth_update"
  rk_access_unchecked :: "bytes \<Rightarrow> archived_depth_update"
  rk_deserialize_u8 :: "u8 \<Rightarrow> 'err + u8"
  rk_deserialize_bool :: "bool \<Rightarrow> 'err + bool"
  rk_deserialize_bytes :: "bytes \<Rightarrow> 'err + bytes"

definition serialize_with ::
  "('arena, 'err) rkyv \<Rightarrow> ('d \<Rightarrow> bytes) \<Rightarrow> 'd depth_update \<Rightarrow> 'arena \<Rightarrow> ('err + bytes) \<times> 'arena" where
  "serialize_with R serialize u arena =
     (let acquired = rk_acquire R arena
      in (rk_write R (archive_depth_update serialize u) acquired, acquired))"

definition to_bytes ::
  "('arena, 'err) rkyv \<Rightarrow> ('d \<Rightarrow> bytes) \<Rightarrow> 'd depth_update \<Rightarrow> 'err + bytes" where
  "to_bytes R serialize u = fst (serialize_with R serialize u (rk_arena_new R))"

definition access_depth_update :: "('arena, 'err) rkyv \<Rightarrow> bytes \<Rightarrow> 'err + archived_depth_update" where
  "access_depth_update R bs = rk_access R bs"

definition access_depth_update_unchecked :: "('arena, 'err) rkyv \<Rightarrow> bytes \<Rightarrow> archived_depth_update" where
  "access_depth_update_unchecked R bs = rk_access_unchecked R bs"

text \<open>
  The derived \<open>Deserialize\<close>: the fields in the order of the struct, the first error ends it. The
  decimals come through \<open>RkyvDecimal\<close>, whose own derived form reads its bytes.
\<close>

definition deserialize_decimal ::
  "('arena, 'err) rkyv \<Rightarrow> (bytes \<Rightarrow> 'd) \<Rightarrow> rkyv_decimal \<Rightarrow> 'err + 'd" where
  "deserialize_decimal R deserialize r =
     (case rk_deserialize_bytes R (rd_bytes r) of
        Inl e \<Rightarrow> Inl e
      | Inr b \<Rightarrow> Inr (decimal_from_rkyv deserialize \<lparr>rd_bytes = b\<rparr>))"

definition deserialize_fields ::
  "('arena, 'err) rkyv \<Rightarrow> (bytes \<Rightarrow> 'd) \<Rightarrow> archived_depth_update \<Rightarrow> 'err + 'd depth_update" where
  "deserialize_fields R deserialize a =
     (case rk_deserialize_u8 R (ad_k a) of
        Inl e \<Rightarrow> Inl e
      | Inr k \<Rightarrow>
     (case deserialize_decimal R deserialize (ad_p a) of
        Inl e \<Rightarrow> Inl e
      | Inr p \<Rightarrow>
     (case deserialize_decimal R deserialize (ad_q a) of
        Inl e \<Rightarrow> Inl e
      | Inr q \<Rightarrow>
     (case rk_deserialize_u8 R (ad_l a) of
        Inl e \<Rightarrow> Inl e
      | Inr l \<Rightarrow>
     (case rk_deserialize_bool R (ad_s a) of
        Inl e \<Rightarrow> Inl e
      | Inr s \<Rightarrow> Inr \<lparr>du_k = k, du_p = p, du_q = q, du_l = l, du_s = s\<rparr>)))))"

definition deserialize_depth_update ::
  "('arena, 'err) rkyv \<Rightarrow> (bytes \<Rightarrow> 'd) \<Rightarrow> archived_depth_update \<Rightarrow> 'err + 'd depth_update" where
  "deserialize_depth_update R deserialize archived = deserialize_fields R deserialize archived"

definition archived_to_owned ::
  "('arena, 'err) rkyv \<Rightarrow> (bytes \<Rightarrow> 'd) \<Rightarrow> archived_depth_update \<Rightarrow> 'err + 'd depth_update" where
  "archived_to_owned R deserialize this = deserialize_fields R deserialize this"

text \<open>
  What the code relies on: the bytes rkyv writes do not depend on the arena, it reads them back,
  checked or not, the plain fields deserialize to themselves, and rust_decimal's 16 bytes are faithful.
\<close>

definition rkyv_laws :: "('arena, 'err) rkyv \<Rightarrow> bool" where
  "rkyv_laws R \<longleftrightarrow>
     (\<forall>a arena bs. rk_write R a arena = Inr bs \<longrightarrow> rk_access R bs = Inr a \<and> rk_access_unchecked R bs = a) \<and>
     (\<forall>a arena arena'. rk_write R a arena = rk_write R a arena') \<and>
     (\<forall>x. rk_deserialize_u8 R x = Inr x) \<and> (\<forall>x. rk_deserialize_bool R x = Inr x) \<and>
     (\<forall>x. rk_deserialize_bytes R x = Inr x)"

lemma archive_round_trip:
  assumes "rkyv_laws R" and "\<And>d. deserialize (serialize d) = d"
  shows "deserialize_depth_update R deserialize (archive_depth_update serialize u) = Inr u"
    "archived_to_owned R deserialize (archive_depth_update serialize u) = Inr u"
  using assms
  by (simp_all add: deserialize_depth_update_def archived_to_owned_def archive_depth_update_def
      deserialize_fields_def deserialize_decimal_def rkyv_laws_def rkyv_decimal_get_def
      decimal_from_rkyv_def)

text \<open>Bytes that cannot be read as the first decimal fail both ways of deserializing, with rkyv's error.\<close>

lemma deserialize_fails:
  assumes "rk_deserialize_u8 R (ad_k a) = Inr k" and "rk_deserialize_bytes R (rd_bytes (ad_p a)) = Inl e"
  shows "deserialize_depth_update R deserialize a = Inl e" "archived_to_owned R deserialize a = Inl e"
  using assms
  by (simp_all add: deserialize_depth_update_def archived_to_owned_def deserialize_fields_def
      deserialize_decimal_def)

text \<open>
  The round trip of a depth update: when it was serialized, with whatever arena, the bytes
  are those \<open>to_bytes\<close> makes with a fresh arena, checked access accepts them, unchecked access
  sees the same archived value, and both ways of deserializing it give the update back.
\<close>

lemma depth_update_round_trip:
  assumes laws: "rkyv_laws R" and dec: "\<And>d. deserialize (serialize d) = d"
    and run: "fst (serialize_with R serialize u arena) = Inr bs"
  shows "to_bytes R serialize u = Inr bs \<and>
    access_depth_update R bs = Inr (access_depth_update_unchecked R bs) \<and>
    deserialize_depth_update R deserialize (access_depth_update_unchecked R bs) = Inr u \<and>
    archived_to_owned R deserialize (access_depth_update_unchecked R bs) = Inr u"
proof -
  have w: "rk_write R (archive_depth_update serialize u) (rk_acquire R arena) = Inr bs"
    using run by (simp add: serialize_with_def Let_def)
  then have "rk_access R bs = Inr (archive_depth_update serialize u)"
    "rk_access_unchecked R bs = archive_depth_update serialize u"
    using laws unfolding rkyv_laws_def by blast+
  moreover have "to_bytes R serialize u = Inr bs"
    using w laws unfolding rkyv_laws_def to_bytes_def serialize_with_def Let_def fst_conv by metis
  ultimately show ?thesis
    by (simp add: access_depth_update_def access_depth_update_unchecked_def archive_round_trip [OF laws dec])
qed

text \<open>
  A concrete rkyv: one byte each for the small fields, then two decimals of 16 bytes. The decimals
  of the example are their own 16 bytes.
\<close>

definition flat_archive :: "archived_depth_update \<Rightarrow> bytes" where
  "flat_archive a =
     char_of (unat (ad_k a)) # char_of (unat (ad_l a)) # char_of (if ad_s a then 1 else 0 :: nat) #
     rd_bytes (ad_p a) @ rd_bytes (ad_q a)"

definition flat_read :: "bytes \<Rightarrow> archived_depth_update" where
  "flat_read bs =
     \<lparr>ad_k = of_nat (of_char (bs ! 0)), ad_p = \<lparr>rd_bytes = take 16 (drop 3 bs)\<rparr>,
      ad_q = \<lparr>rd_bytes = drop 19 bs\<rparr>, ad_l = of_nat (of_char (bs ! 1)),
      ad_s = (of_char (bs ! 2) = (1 :: nat))\<rparr>"

definition flat_rkyv :: "(nat, string) rkyv" where
  "flat_rkyv = \<lparr>rk_arena_new = 0, rk_acquire = Suc,
     rk_write = (\<lambda>a _. if List.length (rd_bytes (ad_p a)) = 16 then Inr (flat_archive a) else Inl ''size''),
     rk_access = (\<lambda>bs. if 19 \<le> List.length bs then Inr (flat_read bs) else Inl ''bounds''),
     rk_access_unchecked = flat_read, rk_deserialize_u8 = Inr, rk_deserialize_bool = Inr,
     rk_deserialize_bytes = Inr\<rparr>"

lemma flat_read_archive:
  assumes "List.length (rd_bytes (ad_p a)) = 16"
  shows "flat_read (flat_archive a) = a" "19 \<le> List.length (flat_archive a)"
proof -
  have "unat (w :: u8) mod 256 = unat w" for w
    using unsigned_less [of w, where ?'a = nat] by simp
  then show "flat_read (flat_archive a) = a"
    using assms by (cases a) (auto simp: flat_read_def flat_archive_def)
  show "19 \<le> List.length (flat_archive a)" using assms by (simp add: flat_archive_def)
qed

lemma flat_rkyv_laws: "rkyv_laws flat_rkyv"
  by (auto simp: rkyv_laws_def flat_rkyv_def flat_read_archive split: if_splits)

end
