(* ===== verification/Driver_Shared.thy ===== *)
theory Driver_Shared
  imports Driver_Properties
begin

text \<open>
  The driver as \<open>DepthDriver::new\<close> means to build it: one pool (\<open>pool.clone()\<close>) and one channel
  (\<open>depths_producer.clone()\<close>) for all exchanges. The pool and the channel are parts of the state;
  an exchange is lent them for the duration of a call. A step is one call of one exchange, or
  the reader releasing a slot it received; a call that awaits is a step as a whole.
\<close>

subsection \<open>State and steps\<close>

record ('sl, 'pool, 'w) shared_driver =
  sd_pool :: 'pool
  sd_depths :: "'sl list"
  sd_exchanges :: "('sl, 'pool, 'w) exchange list"

definition share_pool ::
  "('sl, 'pool, 'w) depth_driver \<Rightarrow> 'sl list \<Rightarrow> ('sl, 'pool, 'w) shared_driver" where
  "share_pool d depths = \<lparr>sd_pool = dd_pool d, sd_depths = depths, sd_exchanges = dd_exchanges d\<rparr>"

definition lend ::
  "('sl, 'pool, 'w) shared_driver \<Rightarrow> ('sl, 'pool, 'w) exchange \<Rightarrow> ('sl, 'pool, 'w) exchange" where
  "lend s ex = ex\<lparr>ex_inner := (ex_inner ex)\<lparr>es_depth_pool := sd_pool s, es_depths_producer := sd_depths s\<rparr>\<rparr>"

definition take_back ::
  "nat \<Rightarrow> ('sl, 'pool, 'w) exchange \<Rightarrow> ('sl, 'pool, 'w) shared_driver \<Rightarrow> ('sl, 'pool, 'w) shared_driver" where
  "take_back i ex s =
     \<lparr>sd_pool = ex_depth_pool ex, sd_depths = es_depths_producer (ex_inner ex),
      sd_exchanges = (sd_exchanges s)[i := ex]\<rparr>"

text \<open>The slots an exchange's buffers own, and those no exchange owns: the channel's and the reader's.\<close>

definition slots_of :: "('sl, 'pool, 'w) exchange \<Rightarrow> 'sl list" where
  "slots_of ex = owned (ex_inner ex) []"

definition shared_transit :: "('pool \<Rightarrow> 'sl set) \<Rightarrow> ('sl, 'pool, 'w) shared_driver \<Rightarrow> 'sl set" where
  "shared_transit live s = live (sd_pool s) - (\<Union>ex \<in> set (sd_exchanges s). set (slots_of ex))"

inductive shared_call ::
  "('d, 'sl, 'pool, 'j) env \<Rightarrow> nat \<Rightarrow> ('sl, 'pool, 'w) shared_driver \<Rightarrow> ('sl, 'pool, 'w) shared_driver \<Rightarrow> bool"
  for X :: "('d, 'sl, 'pool, 'j) env" and i :: nat where
  call: "i < List.length (sd_exchanges s) \<Longrightarrow> exchange_call X (lend s (sd_exchanges s ! i)) ex' \<Longrightarrow>
    shared_call X i s (take_back i ex' s)"

inductive shared_reach ::
  "('d, 'sl, 'pool, 'j) env \<Rightarrow> ('pool \<Rightarrow> 'sl set) \<Rightarrow>
   ('sl, 'pool, 'w) shared_driver \<Rightarrow> ('sl, 'pool, 'w) shared_driver \<Rightarrow> bool"
  for X :: "('d, 'sl, 'pool, 'j) env" and live :: "'pool \<Rightarrow> 'sl set"
    and s0 :: "('sl, 'pool, 'w) shared_driver" where
  built: "shared_reach X live s0 s0"
| call: "shared_reach X live s0 s \<Longrightarrow> shared_call X i s s' \<Longrightarrow> shared_reach X live s0 s'"
| release: "shared_reach X live s0 s \<Longrightarrow> slot \<in> shared_transit live s \<Longrightarrow>
    shared_reach X live s0 (s\<lparr>sd_pool := pool_release X (sd_pool s) slot\<rparr>)"

inductive_cases shared_callE: "shared_call X i s s'"

subsection \<open>The invariant\<close>

text \<open>
  Each exchange, lent the pool, owns its slots in it, and no two exchanges own the same slot.
\<close>

definition shared_ok :: "('pool \<Rightarrow> 'sl set) \<Rightarrow> ('sl, 'pool, 'w) shared_driver \<Rightarrow> bool" where
  "shared_ok live s \<longleftrightarrow>
     (\<forall>ex \<in> set (sd_exchanges s). stream_ok live (ex_inner (lend s ex))) \<and>
     (\<forall>i < List.length (sd_exchanges s). \<forall>j < List.length (sd_exchanges s). i \<noteq> j \<longrightarrow>
        set (slots_of (sd_exchanges s ! i)) \<inter> set (slots_of (sd_exchanges s ! j)) = {})"

lemma owned_lend [simp]: "owned (ex_inner (lend s ex)) ds = owned (ex_inner ex) ds"
  by (simp add: lend_def owned_def)

lemma lend_pool [simp]:
  "es_depth_pool (ex_inner (lend s ex)) = sd_pool s"
  "es_depths_producer (ex_inner (lend s ex)) = sd_depths s"
  by (simp_all add: lend_def)

text \<open>What the invariant of a stream says of the pool it is lent.\<close>

lemma stream_ok_lend:
  "stream_ok live (ex_inner (lend s ex)) \<longleftrightarrow>
    distinct (slots_of ex) \<and> set (slots_of ex) \<subseteq> live (sd_pool s) \<and>
    List.length (es_buffer (ex_inner ex)) \<le> DEPTH_BUFFER_SIZE \<and>
    List.length (es_depth_update_buffer (ex_inner ex)) \<le> DEPTH_BUFFER_SIZE \<and>
    es_websocket_depth_buffer (ex_inner ex) = []"
  by (auto simp: stream_ok_def slots_ok_def slots_of_def lend_def owned_def)

lemma shared_okI:
  assumes "\<And>ex. ex \<in> set (sd_exchanges s) \<Longrightarrow> stream_ok live (ex_inner (lend s ex))"
    and "\<And>i j. i < List.length (sd_exchanges s) \<Longrightarrow> j < List.length (sd_exchanges s) \<Longrightarrow> i \<noteq> j \<Longrightarrow>
      set (slots_of (sd_exchanges s ! i)) \<inter> set (slots_of (sd_exchanges s ! j)) = {}"
  shows "shared_ok live s"
  using assms unfolding shared_ok_def by blast

text \<open>A new driver: exchanges with empty buffers.\<close>

lemma shared_ok_new:
  assumes "\<forall>ex \<in> set (sd_exchanges s). slots_of ex = []"
  shows "shared_ok live s"
  using assms
  by (intro shared_okI) (fastforce simp: stream_ok_lend slots_of_def owned_def set_conv_nth)+

text \<open>
  The effect of a call of exchange \<open>i\<close>: what it sends was in nobody's hands, and the others'
  slots stay theirs.
\<close>

definition shared_effect ::
  "('pool \<Rightarrow> 'sl set) \<Rightarrow> nat \<Rightarrow> ('sl, 'pool, 'w) shared_driver \<Rightarrow> ('sl, 'pool, 'w) shared_driver \<Rightarrow> bool" where
  "shared_effect live i s s' \<longleftrightarrow>
     (\<exists>sent. sd_depths s' = sd_depths s @ sent \<and> distinct sent \<and>
        set sent \<inter> shared_transit live s = {} \<and>
        shared_transit live s' = shared_transit live s \<union> set sent) \<and>
     List.length (sd_exchanges s') = List.length (sd_exchanges s) \<and>
     (\<forall>j < List.length (sd_exchanges s). j \<noteq> i \<longrightarrow> sd_exchanges s' ! j = sd_exchanges s ! j)"

lemma shared_transit_split:
  assumes "i < List.length (sd_exchanges s)"
  shows "shared_transit live s =
    in_transit live (ex_inner (lend s (sd_exchanges s ! i))) [] -
    (\<Union>j \<in> {..<List.length (sd_exchanges s)} - {i}. set (slots_of (sd_exchanges s ! j)))"
proof -
  have "(\<Union>ex \<in> set (sd_exchanges s). set (slots_of ex)) =
      (\<Union>j < List.length (sd_exchanges s). set (slots_of (sd_exchanges s ! j)))"
    by (simp add: set_conv_nth) blast
  also have "{..<List.length (sd_exchanges s)} = insert i ({..<List.length (sd_exchanges s)} - {i})"
    using assms by auto
  finally have "(\<Union>ex \<in> set (sd_exchanges s). set (slots_of ex)) = set (slots_of (sd_exchanges s ! i)) \<union>
      (\<Union>j \<in> {..<List.length (sd_exchanges s)} - {i}. set (slots_of (sd_exchanges s ! j)))"
    by (metis UN_insert)
  then show ?thesis unfolding shared_transit_def in_transit_def by (simp add: slots_of_def Diff_Un) blast
qed

text \<open>What the other exchanges own is on its way to the reader, as far as exchange \<open>i\<close> can tell.\<close>

lemma others_in_transit:
  assumes "shared_ok live s" "i < List.length (sd_exchanges s)" "j < List.length (sd_exchanges s)" "j \<noteq> i"
  shows "set (slots_of (sd_exchanges s ! j)) \<subseteq> in_transit live (ex_inner (lend s (sd_exchanges s ! i))) []"
  using assms by (fastforce simp: shared_ok_def stream_ok_lend in_transit_def slots_of_def)

lemma lend_take_back [simp]: "lend (take_back i ex s) ex = ex"
  by (simp add: lend_def take_back_def ex_depth_pool_def)

lemma take_back_nth:
  "List.length (sd_exchanges (take_back i ex s)) = List.length (sd_exchanges s)"
  "j < List.length (sd_exchanges s) \<Longrightarrow>
    sd_exchanges (take_back i ex s) ! j = (if j = i then ex else sd_exchanges s ! j)"
  by (simp_all add: take_back_def nth_list_update)

text \<open>A call that keeps in transit what was in transit can be taken back.\<close>

lemma take_back_ok:
  assumes ok: "shared_ok live s" and i: "i < List.length (sd_exchanges s)"
    and mine: "stream_ok live (ex_inner ex)"
    and kept: "in_transit live (ex_inner (lend s (sd_exchanges s ! i))) [] \<subseteq> in_transit live (ex_inner ex) []"
  shows "shared_ok live (take_back i ex s)"
proof -
  let ?n = "List.length (sd_exchanges s)" and ?s' = "take_back i ex s"
  note nth = take_back_nth [where i = i and ex = ex and s = s]
  have other: "set (slots_of (sd_exchanges s ! j)) \<subseteq> live (sd_pool ?s') - set (slots_of ex)"
    if "j < ?n" "j \<noteq> i" for j
    using others_in_transit [OF ok i that] kept
    by (fastforce simp: in_transit_def slots_of_def take_back_def ex_depth_pool_def)
  show ?thesis
  proof (rule shared_okI)
    fix ex1 assume "ex1 \<in> set (sd_exchanges ?s')"
    then obtain j where j: "j < ?n" "ex1 = sd_exchanges ?s' ! j" by (auto simp: in_set_conv_nth nth)
    show "stream_ok live (ex_inner (lend ?s' ex1))"
    proof (cases "j = i")
      case True
      then show ?thesis using j mine by (simp add: nth)
    next
      case False
      then have "ex1 \<in> set (sd_exchanges s)" "ex1 = sd_exchanges s ! j" using j by (auto simp: nth)
      then show ?thesis using ok other [OF j(1) False] by (auto simp: shared_ok_def stream_ok_lend)
    qed
  next
    fix j k assume jk: "j < List.length (sd_exchanges ?s')" "k < List.length (sd_exchanges ?s')" "j \<noteq> k"
    then have "set (slots_of (sd_exchanges s ! j)) \<inter> set (slots_of (sd_exchanges s ! k)) = {}"
      using ok by (simp add: shared_ok_def nth)
    then show "set (slots_of (sd_exchanges ?s' ! j)) \<inter> set (slots_of (sd_exchanges ?s' ! k)) = {}"
      using jk other [of j] other [of k] by (auto simp: nth)
  qed
qed

lemma take_back_transit:
  assumes ok: "shared_ok live s" and i: "i < List.length (sd_exchanges s)"
    and fresh: "set sent \<inter> in_transit live (ex_inner (lend s (sd_exchanges s ! i))) [] = {}"
    and moved: "in_transit live (ex_inner ex) [] =
      in_transit live (ex_inner (lend s (sd_exchanges s ! i))) [] \<union> set sent"
  shows "shared_transit live (take_back i ex s) = shared_transit live s \<union> set sent"
    "set sent \<inter> shared_transit live s = {}"
proof -
  let ?others = "\<Union>j \<in> {..<List.length (sd_exchanges s)} - {i}. set (slots_of (sd_exchanges s ! j))"
  note nth = take_back_nth [where i = i and ex = ex and s = s]
  have "(\<Union>j \<in> {..<List.length (sd_exchanges s)} - {i}. set (slots_of (sd_exchanges (take_back i ex s) ! j))) =
      ?others" by (auto simp: nth)
  then have "shared_transit live (take_back i ex s) = in_transit live (ex_inner ex) [] - ?others"
    using shared_transit_split [of i "take_back i ex s"] i by (simp add: nth)
  moreover have "set sent \<inter> ?others = {}" using others_in_transit [OF ok i] fresh by fastforce
  ultimately show "shared_transit live (take_back i ex s) = shared_transit live s \<union> set sent"
    using shared_transit_split [OF i] moved by auto
  show "set sent \<inter> shared_transit live s = {}" using fresh shared_transit_split [OF i] by auto
qed

lemma shared_call_effect:
  assumes env: "env_laws X live emits ends stopped" and ok: "shared_ok live s"
    and call: "shared_call X i s s'"
  shows "shared_ok live s' \<and> shared_effect live i s s'"
proof -
  let ?ex = "sd_exchanges s ! i"
  from call obtain ex' where i: "i < List.length (sd_exchanges s)" and op: "exchange_call X (lend s ?ex) ex'"
    and s': "s' = take_back i ex' s" by (rule shared_callE) blast
  have mine: "stream_ok live (ex_inner (lend s ?ex))" using ok i by (simp add: shared_ok_def)
  note moved = exchange_call_transfers [OF env mine op]
  obtain sent where sent: "es_depths_producer (ex_inner ex') = sd_depths s @ sent" "distinct sent"
    "set sent \<inter> in_transit live (ex_inner (lend s ?ex)) [] = {}"
    "in_transit live (ex_inner ex') [] = in_transit live (ex_inner (lend s ?ex)) [] \<union> set sent"
    using moved unfolding transfers_def by auto
  have "shared_ok live s'"
    using take_back_ok [OF ok i transfers_stream_ok [OF moved stream_okD(2) [OF mine]]] sent(4) s' by blast
  moreover have "sd_depths s' = sd_depths s @ sent" by (simp add: s' take_back_def sent(1))
  ultimately show ?thesis
    using take_back_transit [OF ok i sent(3,4)] sent(2)
    unfolding shared_effect_def s' by (auto simp: take_back_nth)
qed

lemma shared_release_ok:
  assumes env: "env_laws X live emits ends stopped" and ok: "shared_ok live s"
    and slot: "slot \<in> shared_transit live s"
  shows "shared_ok live (s\<lparr>sd_pool := pool_release X (sd_pool s) slot\<rparr>)"
proof -
  have "live (pool_release X (sd_pool s) slot) = live (sd_pool s) - {slot}"
    using env_lawsD(2) [OF env] by (auto simp: pool_laws_def)
  then show ?thesis
    using ok slot by (fastforce simp: shared_ok_def stream_ok_lend shared_transit_def)
qed

lemma shared_reach_ok:
  assumes env: "env_laws X live emits ends stopped" and ok: "shared_ok live s0"
    and "shared_reach X live s0 s"
  shows "shared_ok live s \<and> List.length (sd_exchanges s) = List.length (sd_exchanges s0)"
  using assms(3)
proof (induction rule: shared_reach.induct)
  case built
  then show ?case using ok by simp
next
  case (call s i s')
  then show ?case using shared_call_effect [OF env, of s i s'] by (simp add: shared_effect_def)
next
  case (release s slot)
  then show ?case using shared_release_ok [OF env, of s slot] by simp
qed

text \<open>The driver that \<open>DepthDriver::new\<close> returns, when it builds exchanges with empty buffers.\<close>

definition built_driver ::
  "('j \<Rightarrow> string) \<Rightarrow> (u64 \<Rightarrow> 'pool) \<Rightarrow>
   (exchange_config \<Rightarrow> 'sl list \<Rightarrow> 'pool \<Rightarrow> unit \<Rightarrow> 'j exchange_stream_error + ('sl, 'pool, 'w) exchange) \<Rightarrow>
   exchange_config list \<Rightarrow> ('sl, 'pool, 'w) depth_driver \<Rightarrow> 'sl list \<Rightarrow> bool" where
  "built_driver show_json with_capacity new_exchange configs d depths \<longleftrightarrow>
     driver_new show_json with_capacity new_exchange configs () =
       (Inr (d, depths) :: 'w error_initial_state + ('sl, 'pool, 'w) depth_driver \<times> 'sl list) \<and>
     (\<forall>ex \<in> set (dd_exchanges d). slots_of ex = [])"

lemma built_driver_ok:
  "built_driver show_json with_capacity new_exchange configs d depths \<Longrightarrow> shared_ok live (share_pool d depths)"
  by (rule shared_ok_new) (simp add: built_driver_def share_pool_def)

lemma built_reach_ok:
  assumes "env_laws X live emits ends stopped"
    and "built_driver show_json with_capacity new_exchange configs d depths"
    and "shared_reach X live (share_pool d depths) s"
  shows "shared_ok live s" "List.length (sd_exchanges s) = List.length (dd_exchanges d)"
  using shared_reach_ok [OF assms(1) built_driver_ok [OF assms(2)] assms(3)]
  by (simp_all add: share_pool_def)

text \<open>The room in the pool of a reachable driver.\<close>

lemma shared_pool_room:
  fixes s :: "('sl, 'pool, 'w) shared_driver"
  assumes env: "env_laws X live emits ends stopped"
    and built: "built_driver show_json with_capacity new_exchange configs d depths"
    and fits: "DEPTH_CHANNEL_SIZE + 4000 * List.length configs < 2 ^ 64"
    and reach: "shared_reach X live (share_pool d depths) s"
    and transit: "finite (shared_transit live s)" "card (shared_transit live s) \<le> DEPTH_CHANNEL_SIZE"
  obtains capacity where "driver_pool d = with_capacity capacity" "finite (live (sd_pool s))"
    "card (live (sd_pool s)) + 2 * DEPTH_BUFFER_SIZE * List.length (sd_exchanges s) \<le> unat capacity"
proof -
  note ok = built_reach_ok [OF env built reach]
  have new: "driver_new show_json with_capacity new_exchange configs () =
      (Inr (d, depths) :: 'w error_initial_state + _)" using built by (simp add: built_driver_def)
  have streams: "\<forall>ex \<in> set (map (lend s) (sd_exchanges s)). stream_ok live (ex_inner ex)"
    using ok(1) by (simp add: shared_ok_def)
  have used: "live (sd_pool s) \<subseteq> shared_transit live s \<union>
      (\<Union>ex \<in> set (map (lend s) (sd_exchanges s)). set (owned (ex_inner ex) []))"
    by (auto simp: shared_transit_def slots_of_def)
  then have "finite (live (sd_pool s))" by (rule finite_subset) (simp add: transit(1))
  moreover from driver_pool_is_large_enough [OF new fits _ streams transit used]
  obtain capacity where "driver_pool d = with_capacity capacity"
    "card (live (sd_pool s)) + 2 * DEPTH_BUFFER_SIZE * List.length (dd_exchanges d) \<le> unat capacity"
    using ok(2) by auto
  ultimately show thesis using that ok(2) by simp
qed

text \<open>The sample driver: two exchanges on the pool of \<open>driver_new\<close>.\<close>

lemma sample_built:
  "\<exists>d. built_driver id (\<lambda>c. (unat c, []))
      (\<lambda>c depths pool watch. exchange_new (\<lambda>_ _. pool) c 0 10 depths watch (Inr ())
         :: string exchange_stream_error + (nat, nat \<times> nat list, string) exchange)
      [sample_config 1, sample_config 1] d [] \<and>
    driver_pool d = (18000, []) \<and> List.length (dd_exchanges d) = 2"
  unfolding built_driver_def driver_new_def exchange_new_def pool_capacity_cases
  by (simp add: exchange_stream_new_def sample_config_def slots_of_def owned_def Let_def driver_pool_def
      DEPTH_CHANNEL_SIZE_def MAX_BUFFERED_DEPTHS_def DEPTH_BUFFER_SIZE_def)

subsection \<open>Properties\<close>

text \<open>
  C20. The pool that all exchanges share is as large as the comment in \<open>new\<close> says. Whatever the
  exchanges do, in whatever order, while the channel and the reader hold no more slots than the
  channel has places, there is room left for two more full buffers of every exchange, and the pool
  never runs dry: a payload that fits its buffer is never refused for lack of room.
\<close>

theorem shared_pool_never_runs_dry:
  assumes env: "env_laws X live emits ends stopped"
    and built: "built_driver show_json with_capacity new_exchange configs d depths"
    and fits: "DEPTH_CHANNEL_SIZE + 4000 * List.length configs < 2 ^ 64"
    and pool: "\<And>capacity. driver_pool d = with_capacity capacity \<Longrightarrow> capacity_law X live (unat capacity)"
    and reach: "shared_reach X live (share_pool d depths) s"
    and transit: "finite (shared_transit live s)" "card (shared_transit live s) \<le> DEPTH_CHANNEL_SIZE"
    and some: "sd_exchanges s \<noteq> []"
    and payload: "List.length target + List.length (emits json loc snap) \<le> DEPTH_BUFFER_SIZE"
  shows "(\<exists>capacity. driver_pool d = with_capacity capacity \<and>
      card (live (sd_pool s)) + 2 * DEPTH_BUFFER_SIZE * List.length (sd_exchanges s) \<le> unat capacity) \<and>
    ingest_book X json loc snap (sd_pool s) target \<noteq> Some (Inl Full, pool', target')"
proof -
  obtain capacity where room: "driver_pool d = with_capacity capacity" "finite (live (sd_pool s))"
    "card (live (sd_pool s)) + 2 * DEPTH_BUFFER_SIZE * List.length (sd_exchanges s) \<le> unat capacity"
    by (rule shared_pool_room [OF env built fits reach transit])
  have "List.length (sd_exchanges s) \<noteq> 0" using some by simp
  then have "card (live (sd_pool s)) + DEPTH_BUFFER_SIZE \<le> unat capacity"
    using room(3) by (cases "List.length (sd_exchanges s)") auto
  with ingest_full_means_overflow [OF env pool [OF room(1)] room(2), of target json loc snap pool' target']
    payload
  have "ingest_book X json loc snap (sd_pool s) target \<noteq> Some (Inl Full, pool', target')" by fastforce
  with room show ?thesis by blast
qed

lemma shared_pool_never_runs_dry_witness:
  "\<exists>d :: (nat, nat \<times> nat list, string) depth_driver. driver_pool d = (18000, []) \<and>
    ingest_book (fixed_env 18000) ''ab'' 1 True (sd_pool (share_pool d [])) [] \<noteq>
      Some (Inl Full, (18000, []), [])"
proof -
  obtain d where built: "built_driver id (\<lambda>c. (unat c, []))
      (\<lambda>c depths pool watch. exchange_new (\<lambda>_ _. pool) c 0 10 depths watch (Inr ())
         :: string exchange_stream_error + (nat, nat \<times> nat list, string) exchange)
      [sample_config 1, sample_config 1] d []"
    and pool: "driver_pool d = (18000, [])" and two: "List.length (dd_exchanges d) = 2"
    using sample_built by blast
  have cap: "capacity_law (fixed_env 18000) sample_live (unat capacity)"
    if "driver_pool d = (unat capacity, [])" for capacity :: u64
    using that pool fixed_env_capacity [of 18000] by simp
  have none: "shared_transit sample_live (share_pool d []) = {}"
    using pool by (simp add: shared_transit_def share_pool_def driver_pool_def)
  have some: "sd_exchanges (share_pool d []) \<noteq> []" using two by (auto simp: share_pool_def)
  have payload: "List.length [] + List.length (sample_emits ''ab'' 1 True) \<le> DEPTH_BUFFER_SIZE"
    by (simp add: sample_emits_def DEPTH_BUFFER_SIZE_def)
  have size: "DEPTH_CHANNEL_SIZE + 4000 * List.length [sample_config 1, sample_config 1] < 2 ^ 64"
    by (simp add: DEPTH_CHANNEL_SIZE_def)
  from shared_pool_never_runs_dry [OF fixed_env_laws built size cap shared_reach.built _ _ some payload]
    none have "ingest_book (fixed_env 18000) ''ab'' 1 True (sd_pool (share_pool d [])) [] \<noteq>
      Some (Inl Full, (18000, []), [])" by simp
  with pool show ?thesis by blast
qed

end
