(* ===== verification/Driver_Startup.thy ===== *)
theory Driver_Startup
  imports Driver_Shared
begin

text \<open>
  The start of \<open>run\<close> on the shared pool: \<open>websocket_connect\<close>, \<open>subscribe_depths\<close> and
  \<open>sync_orderbook\<close> with the operations of \<open>Depth_Driver\<close>, each exchange being lent the pool and the
  channel for its turn. That an operation is a call of the exchange is the contract of the locale
  \<open>shared_stage\<close>; it gives that a stage only reaches states of \<open>shared_reach\<close>.
\<close>

subsection \<open>Stages on the shared pool\<close>

fun shared_for_each ::
  "(nat \<Rightarrow> ('sl, 'pool, 'w) exchange \<Rightarrow> (('e + unit) \<times> ('sl, 'pool, 'w) exchange) option) \<Rightarrow> nat list \<Rightarrow>
   ('sl, 'pool, 'w) shared_driver \<Rightarrow> (('e + unit) \<times> ('sl, 'pool, 'w) shared_driver) option" where
  "shared_for_each op [] s = Some (Inr (), s)"
| "shared_for_each op (i # is) s =
     (case op i (lend s (sd_exchanges s ! i)) of
        None \<Rightarrow> None
      | Some (Inl e, ex) \<Rightarrow> Some (Inl e, take_back i ex s)
      | Some (Inr _, ex) \<Rightarrow> shared_for_each op is (take_back i ex s))"

definition all_exchanges :: "('sl, 'pool, 'w) shared_driver \<Rightarrow> nat list" where
  "all_exchanges s = [0..<List.length (sd_exchanges s)]"

definition shared_startup ::
  "('d, 'sl, 'pool, 'j) env \<Rightarrow> (json \<Rightarrow> string) \<Rightarrow> 'w driver_world \<Rightarrow>
   ('sl, 'pool, 'w) shared_driver \<Rightarrow>
   (('w error_initial_state + unit) \<times> ('sl, 'pool, 'w) shared_driver) option" where
  "shared_startup X to_string world s =
     (case shared_for_each (connect_op (json_display X) (dw_conns world)) (all_exchanges s) s of
        None \<Rightarrow> None
      | Some (Inl e, s1) \<Rightarrow> Some (Inl e, s1)
      | Some (Inr _, s1) \<Rightarrow>
     (case shared_for_each (subscribe_op (json_display X) to_string (dw_sents world)) (all_exchanges s1) s1 of
        None \<Rightarrow> None
      | Some (Inl e, s2) \<Rightarrow> Some (Inl e, s2)
      | Some (Inr _, s2) \<Rightarrow>
     (case shared_for_each (snapshot_op X (dw_answers world) (dw_sync_inputs world)) (all_exchanges s2) s2 of
        None \<Rightarrow> None
      | Some (Inl e, s3) \<Rightarrow> Some (Inl e, s3)
      | Some (Inr _, s3) \<Rightarrow> shared_for_each (push_op X) (all_exchanges s3) s3)))"

locale shared_stage =
  fixes X :: "('d, 'sl, 'pool, 'j) env"
    and op :: "nat \<Rightarrow> ('sl, 'pool, 'w) exchange \<Rightarrow> (('e + unit) \<times> ('sl, 'pool, 'w) exchange) option"
  assumes is_call: "op i ex = Some (r, ex') \<Longrightarrow> exchange_call X ex ex'"
begin

lemma stage_reach:
  "shared_for_each op is s = Some (r, s') \<Longrightarrow> \<forall>i \<in> set is. i < List.length (sd_exchanges s) \<Longrightarrow>
    shared_reach X live s0 s \<Longrightarrow> shared_reach X live s0 s'"
proof (induction "is" arbitrary: s)
  case (Cons i "is")
  obtain q ex where op: "op i (lend s (sd_exchanges s ! i)) = Some (q, ex)"
    using Cons.prems(1) by (auto split: option.splits)
  have "shared_call X i s (take_back i ex s)"
    using Cons.prems(2) is_call [OF op] by (intro shared_call.call) simp_all
  note next_reach = shared_reach.call [OF Cons.prems(3) this]
  show ?case
  proof (cases q)
    case (Inl e)
    then show ?thesis using Cons.prems(1) op next_reach by simp
  next
    case (Inr u)
    then have "shared_for_each op is (take_back i ex s) = Some (r, s')" using Cons.prems(1) op by simp
    then show ?thesis by (rule Cons.IH) (use Cons.prems(2) next_reach in \<open>simp_all add: take_back_nth\<close>)
  qed
qed simp

lemma stage_all_reach:
  "shared_for_each op (all_exchanges s) s = Some (r, s') \<Longrightarrow> shared_reach X live s0 s \<Longrightarrow>
    shared_reach X live s0 s'"
  by (rule stage_reach) (auto simp: all_exchanges_def)

end

interpretation shared_connect: shared_stage X "connect_op (json_display X) conns"
  for X :: "('d, 'sl, 'pool, 'j) env" and conns :: "nat \<Rightarrow> string + message list \<times> 'w ws_event list"
proof
  fix i and ex ex' :: "('sl, 'pool, 'w) exchange" and r
  assume "connect_op (json_display X) conns i ex = Some (r, ex')"
  then have "map_prod (convert_error (json_display X)) id (exchange_start (conns i) ex) = (r, ex')"
    by (simp add: connect_op_def)
  from map_prod_snd [OF this] show "exchange_call X ex ex'" using exchange_call.start by metis
qed

interpretation shared_subscribe: shared_stage X "subscribe_op (json_display X) to_string sents"
  for X :: "('d, 'sl, 'pool, 'j) env" and to_string sents
proof
  fix i and ex ex' :: "('sl, 'pool, 'w) exchange" and r
  assume "subscribe_op (json_display X) to_string sents i ex = Some (r, ex')"
  then have "map_prod (convert_error (json_display X)) id
      (exchange_subscribe_orderbooks to_string (sents i) ex) = (r, ex')" by (simp add: subscribe_op_def)
  from map_prod_snd [OF this] show "exchange_call X ex ex'" using exchange_call.subscribe by metis
qed

interpretation shared_snapshot: shared_stage X "snapshot_op X answers inputs" for X answers inputs
  by standard (auto simp: snapshot_op_def dest!: map_prod_snd intro: exchange_call.snapshot)

interpretation shared_push: shared_stage X "push_op X" for X
  by standard (auto simp: push_op_def intro: exchange_call.push_buffered)

interpretation shared_close: shared_stage X "close_op answers"
  for X :: "('d, 'sl, 'pool, 'j) env" and answers
proof
  fix i and ex ex' :: "('sl, 'pool, 'w) exchange" and r
  assume "close_op answers i ex = Some (r, ex')"
  then have "ex' = snd (exchange_close (answers i) ex :: (string exchange_stream_error + unit) \<times> _)"
    by (simp add: close_op_def) (metis id_apply snd_conv snd_map_prod)
  then have "exchange_close (answers i) ex =
      (fst (exchange_close (answers i) ex :: ('j exchange_stream_error + unit) \<times> _), ex')"
    by (auto simp: exchange_close_def split: option.splits sum.splits)
  then show "exchange_call X ex ex'" by (rule exchange_call.close)
qed

lemma startup_reach:
  assumes "shared_startup X to_string world s = Some (r, s')" and "shared_reach X live s0 s"
  shows "shared_reach X live s0 s'"
  using assms
  by (auto simp: shared_startup_def split: option.splits sum.splits
      dest!: shared_connect.stage_all_reach [where live = live and ?s0.0 = s0]
        shared_subscribe.stage_all_reach [where live = live and ?s0.0 = s0]
        shared_snapshot.stage_all_reach [where live = live and ?s0.0 = s0]
        shared_push.stage_all_reach [where live = live and ?s0.0 = s0])

subsection \<open>Properties\<close>

text \<open>
  C34. A slot of the shared pool has one owner. In every reachable state of a new driver, each
  buffer of each exchange owns distinct live slots and no two exchanges own the same one. A call
  of one exchange leaves the other exchanges and their slots alone; what it sends to the channel
  was neither owned by another exchange nor still in the hands of the reader, and what the reader
  holds stays live: no depth is overwritten before it is released. The start of the driver, when it returns, whether with success
  or at the first error, is made of such calls.
\<close>

theorem shared_slots_have_one_owner:
  assumes env: "env_laws X live emits ends stopped"
    and built: "built_driver show_json with_capacity new_exchange configs d depths"
    and reach: "shared_reach X live (share_pool d depths) s"
  shows "shared_ok live s \<and> (\<forall>i s'. shared_call X i s s' \<longrightarrow> shared_effect live i s s') \<and>
    (\<forall>to_string world r s'. shared_startup X to_string world s = Some (r, s') \<longrightarrow>
      shared_ok live s' \<and> shared_reach X live (share_pool d depths) s')"
  using built_reach_ok(1) [OF env built] reach shared_call_effect [OF env]
    startup_reach [where ?s0.0 = "share_pool d depths"] by blast

lemma shared_slots_have_one_owner_witness:
  "\<exists>(d :: (nat, nat \<times> nat list, string) depth_driver) s.
    shared_call the_env 1 (share_pool d []) s \<and> es_ws_connection_orderbook_reader (ex_inner (sd_exchanges s ! 1)) = Some [] \<and>
    sd_exchanges s ! 0 = dd_exchanges d ! 0 \<and> shared_ok sample_live s"
proof -
  obtain d where built: "built_driver id (\<lambda>c. (unat c, []))
      (\<lambda>c depths pool watch. exchange_new (\<lambda>_ _. pool) c 0 10 depths watch (Inr ())
         :: string exchange_stream_error + (nat, nat \<times> nat list, string) exchange)
      [sample_config 1, sample_config 1] d []" and two: "List.length (dd_exchanges d) = 2"
    using sample_built by blast
  let ?s = "share_pool d []" and ?ex = "lend (share_pool d []) (dd_exchanges d ! 1)"
  let ?ex' = "?ex\<lparr>ex_inner := (ex_inner ?ex)\<lparr>es_ws_connection_orderbook_reader := Some []\<rparr>, ex_ws_sink := Some []\<rparr>"
  have "exchange_start (Inr ([], [])) ?ex = (Inr () :: string exchange_stream_error + unit, ?ex')"
    by (simp add: exchange_start_def stream_start_def)
  from exchange_call.start [OF this] have call: "shared_call the_env 1 ?s (take_back 1 ?ex' ?s)"
    using two by (intro shared_call.call) (simp_all add: share_pool_def)
  note reach = shared_reach.call [OF shared_reach.built call]
  have "shared_effect sample_live 1 ?s (take_back 1 ?ex' ?s)"
    using shared_slots_have_one_owner [OF the_env_laws built shared_reach.built] call by blast
  then have "sd_exchanges (take_back 1 ?ex' ?s) ! 0 = dd_exchanges d ! 0"
    using two by (simp add: shared_effect_def share_pool_def)
  moreover have "shared_ok sample_live (take_back 1 ?ex' ?s)"
    using shared_slots_have_one_owner [OF the_env_laws built reach] by blast
  moreover have "es_ws_connection_orderbook_reader (ex_inner (sd_exchanges (take_back 1 ?ex' ?s) ! 1)) = Some []"
    using two by (simp add: take_back_def share_pool_def)
  ultimately show ?thesis using call by blast
qed

end
