(* ===== verification/Driver_Tasks.thy ===== *)
theory Driver_Tasks
  imports Driver_Startup
begin

text \<open>
  \<open>run_streams\<close> of \<open>depth-driver/src/lib.rs\<close>, on the one pool and the one channel of the driver: one
  task per exchange, which calls \<open>stream_depths\<close> until it fails. The runtime interleaves the tasks;
  a call sleeps first and then polls once without awaiting anything, so a call is one step, for which
  the task's exchange is lent the pool and the channel. Between calls the reader releases slots it
  received. What the channel and the socket answer to a call is arbitrary, so it may depend on what
  the other tasks did before.
\<close>

subsection \<open>The tasks\<close>

text \<open>How a task was joined: with its result, or with the error of a task that panicked.\<close>

datatype joined = Joined "error_hot_path + unit" | JoinError

fun joined_result :: "joined \<Rightarrow> error_hot_path + unit \<Rightarrow> error_hot_path + unit" where
  "joined_result (Joined (Inr _)) result = result"
| "joined_result (Joined (Inl err)) result = Inl err"
| "joined_result JoinError result = Inl OrderBookDealSendFail"

text \<open>The driver, and for each exchange how its task ended, if it did.\<close>

record ('sl, 'pool, 'w) stream_jobs =
  sj_driver :: "('sl, 'pool, 'w) shared_driver"
  sj_joined :: "joined option list"

definition spawn_streams :: "('sl, 'pool, 'w) shared_driver \<Rightarrow> ('sl, 'pool, 'w) stream_jobs" where
  "spawn_streams s = \<lparr>sj_driver = s, sj_joined = map (\<lambda>exchange. None) (sd_exchanges s)\<rparr>"

text \<open>One round of the loop of task \<open>idx\<close>.\<close>

definition job_step ::
  "('d, 'sl, 'pool, 'j) env \<Rightarrow> nat \<Rightarrow> 'w poll_input \<Rightarrow> ('sl, 'pool, 'w) stream_jobs \<Rightarrow>
   ('sl, 'pool, 'w) stream_jobs" where
  "job_step X idx input jobs =
     (let s = sj_driver jobs
      in case (exchange_stream_depths X input (lend s (sd_exchanges s ! idx))
                 :: (('j exchange_stream_error + unit) \<times> ('sl, 'pool, 'w) exchange) option) of
           None \<Rightarrow> jobs\<lparr>sj_joined := (sj_joined jobs)[idx := Some JoinError]\<rparr>
         | Some (Inl err, exchange) \<Rightarrow>
             jobs\<lparr>sj_driver := take_back idx exchange s,
                  sj_joined := (sj_joined jobs)[idx := Some (Joined (Inl OrderBookDealSendFail))]\<rparr>
         | Some (Inr _, exchange) \<Rightarrow> jobs\<lparr>sj_driver := take_back idx exchange s\<rparr>)"

definition unended :: "('sl, 'pool, 'w) stream_jobs \<Rightarrow> nat \<Rightarrow> bool" where
  "unended jobs i \<longleftrightarrow> i < List.length (sj_joined jobs) \<and> sj_joined jobs ! i = None"

definition all_joined :: "('sl, 'pool, 'w) stream_jobs \<Rightarrow> bool" where
  "all_joined jobs \<longleftrightarrow> None \<notin> set (sj_joined jobs)"

definition reader_releases ::
  "('d, 'sl, 'pool, 'j) env \<Rightarrow> 'sl \<Rightarrow> ('sl, 'pool, 'w) stream_jobs \<Rightarrow> ('sl, 'pool, 'w) stream_jobs" where
  "reader_releases X slot jobs =
     jobs\<lparr>sj_driver := (sj_driver jobs)\<lparr>sd_pool := pool_release X (sd_pool (sj_driver jobs)) slot\<rparr>\<rparr>"

inductive jobs_step ::
  "('d, 'sl, 'pool, 'j) env \<Rightarrow> ('pool \<Rightarrow> 'sl set) \<Rightarrow>
   ('sl, 'pool, 'w) stream_jobs \<Rightarrow> ('sl, 'pool, 'w) stream_jobs \<Rightarrow> bool"
  for X :: "('d, 'sl, 'pool, 'j) env" and live :: "'pool \<Rightarrow> 'sl set" where
  poll: "unended jobs i \<Longrightarrow> jobs_step X live jobs (job_step X i input jobs)"
| release: "slot \<in> shared_transit live (sj_driver jobs) \<Longrightarrow>
    jobs_step X live jobs (reader_releases X slot jobs)"

text \<open>
  What \<open>run_streams\<close> returns under a schedule: \<open>join_all\<close> waits until every task has ended. A turn of
  a task that has ended, and a release of a slot the reader does not have, are no steps. \<open>None\<close> is a
  \<open>run_streams\<close> that never returns.
\<close>

datatype ('sl, 'w) stream_event = Poll nat "'w poll_input" | Release 'sl

definition jobs_event ::
  "('d, 'sl, 'pool, 'j) env \<Rightarrow> ('pool \<Rightarrow> 'sl set) \<Rightarrow> ('sl, 'w) stream_event \<Rightarrow>
   ('sl, 'pool, 'w) stream_jobs \<Rightarrow> ('sl, 'pool, 'w) stream_jobs" where
  "jobs_event X live event jobs =
     (case event of
        Poll i input \<Rightarrow> if unended jobs i then job_step X i input jobs else jobs
      | Release slot \<Rightarrow>
          if slot \<in> shared_transit live (sj_driver jobs) then reader_releases X slot jobs else jobs)"

partial_function (option) join_streams ::
  "('d, 'sl, 'pool, 'j) env \<Rightarrow> ('pool \<Rightarrow> 'sl set) \<Rightarrow> (nat \<Rightarrow> ('sl, 'w) stream_event) \<Rightarrow>
   ('sl, 'pool, 'w) stream_jobs \<Rightarrow> ('sl, 'pool, 'w) stream_jobs option" where
  "join_streams X live schedule jobs =
     (if all_joined jobs then Some jobs
      else join_streams X live (\<lambda>n. schedule (Suc n)) (jobs_event X live (schedule 0) jobs))"

definition streams_result :: "('sl, 'pool, 'w) stream_jobs \<Rightarrow> error_hot_path + unit" where
  "streams_result jobs = fold joined_result (map the (sj_joined jobs)) (Inr ())"

definition driver_run_streams ::
  "('d, 'sl, 'pool, 'j) env \<Rightarrow> ('pool \<Rightarrow> 'sl set) \<Rightarrow> (nat \<Rightarrow> ('sl, 'w) stream_event) \<Rightarrow>
   ('sl, 'pool, 'w) shared_driver \<Rightarrow>
   ((error_hot_path + unit) \<times> ('sl, 'pool, 'w) shared_driver) option" where
  "driver_run_streams X live schedule s =
     map_option (\<lambda>jobs. (streams_result jobs, sj_driver jobs)) (join_streams X live schedule (spawn_streams s))"

text \<open>\<open>run\<close>: the stages on the shared pool, then the streams.\<close>

definition driver_run ::
  "('d, 'sl, 'pool, 'j) env \<Rightarrow> ('pool \<Rightarrow> 'sl set) \<Rightarrow> (json \<Rightarrow> string) \<Rightarrow> 'w driver_world \<Rightarrow>
   (nat \<Rightarrow> ('sl, 'w) stream_event) \<Rightarrow> ('sl, 'pool, 'w) shared_driver \<Rightarrow>
   (('w error_initial_state + unit) \<times> ('sl, 'pool, 'w) shared_driver) option" where
  "driver_run X live to_string world schedule s =
     (case shared_startup X to_string world s of
        None \<Rightarrow> None
      | Some (Inl e, s1) \<Rightarrow> Some (Inl e, s1)
      | Some (Inr _, s1) \<Rightarrow>
     (case driver_run_streams X live schedule s1 of
        None \<Rightarrow> None
      | Some (Inl e, s2) \<Rightarrow> Some (Inl (InitWSConnection (hot_path_display e)), s2)
      | Some (Inr _, s2) \<Rightarrow> Some (Inr (), s2)))"

subsection \<open>The invariant\<close>

text \<open>The driver keeps its invariant, and a task that has ended did so with the error.\<close>

definition jobs_ok :: "('pool \<Rightarrow> 'sl set) \<Rightarrow> ('sl, 'pool, 'w) stream_jobs \<Rightarrow> bool" where
  "jobs_ok live jobs \<longleftrightarrow>
     shared_ok live (sj_driver jobs) \<and>
     List.length (sj_joined jobs) = List.length (sd_exchanges (sj_driver jobs)) \<and>
     set (sj_joined jobs) \<subseteq> {None, Some (Joined (Inl OrderBookDealSendFail))}"

lemma spawn_ok: "shared_ok live s \<Longrightarrow> jobs_ok live (spawn_streams s)"
  by (auto simp: jobs_ok_def spawn_streams_def)

lemma spawn_simps [simp]:
  "sj_driver (spawn_streams s) = s" "List.length (sj_joined (spawn_streams s)) = List.length (sd_exchanges s)"
  "unended (spawn_streams s) i \<longleftrightarrow> i < List.length (sd_exchanges s)"
  by (auto simp: spawn_streams_def unended_def)

text \<open>A call of \<open>stream_depths\<close> returns, whatever the answers are and whatever the others did.\<close>

lemma stream_depths_returns:
  fixes X :: "('d, 'sl, 'pool, 'j) env" and s :: "('sl, 'pool, 'w) shared_driver"
  assumes env: "env_laws X live emits ends stopped" and ok: "shared_ok live s"
    and i: "i < List.length (sd_exchanges s)"
  obtains r :: "'j exchange_stream_error + unit" and ex where
    "exchange_stream_depths X input (lend s (sd_exchanges s ! i)) = Some (r, ex)"
    "shared_call X i s (take_back i ex s)"
proof -
  let ?ex = "lend s (sd_exchanges s ! i)"
  have "stream_ok live (ex_inner ?ex)" using ok i by (simp add: shared_ok_def)
  then obtain r :: "'j exchange_stream_error + unit" and es where
    "stream_run X input (ex_inner ?ex) = Some (r, es)"
    using stream_run_transfers [OF env stream_okD(1)] by blast
  then have run: "exchange_stream_depths X input ?ex = Some (r, ?ex\<lparr>ex_inner := es\<rparr>)"
    by (cases r) (simp_all add: exchange_stream_depths_def)
  moreover have "shared_call X i s (take_back i (?ex\<lparr>ex_inner := es\<rparr>) s)"
    using i exchange_call.stream_depths [OF run] by (rule shared_call.call)
  ultimately show thesis by (rule that)
qed

text \<open>A round of an unended task: it goes on, or it ends with the error; nothing else is touched.\<close>

lemma job_step_cases:
  fixes X :: "('d, 'sl, 'pool, 'j) env" and jobs :: "('sl, 'pool, 'w) stream_jobs"
  assumes env: "env_laws X live emits ends stopped" and ok: "jobs_ok live jobs" and i: "unended jobs i"
  obtains (goes_on) ex where
      "exchange_stream_depths X input (lend (sj_driver jobs) (sd_exchanges (sj_driver jobs) ! i)) =
        Some (Inr () :: 'j exchange_stream_error + unit, ex)"
      "job_step X i input jobs = jobs\<lparr>sj_driver := take_back i ex (sj_driver jobs)\<rparr>"
      "shared_call X i (sj_driver jobs) (take_back i ex (sj_driver jobs))"
  | (ends) e ex where
      "exchange_stream_depths X input (lend (sj_driver jobs) (sd_exchanges (sj_driver jobs) ! i)) =
        Some (Inl e :: 'j exchange_stream_error + unit, ex)"
      "job_step X i input jobs = jobs\<lparr>sj_driver := take_back i ex (sj_driver jobs),
        sj_joined := (sj_joined jobs)[i := Some (Joined (Inl OrderBookDealSendFail))]\<rparr>"
      "shared_call X i (sj_driver jobs) (take_back i ex (sj_driver jobs))"
proof -
  have "i < List.length (sd_exchanges (sj_driver jobs))" and "shared_ok live (sj_driver jobs)"
    using ok i by (simp_all add: jobs_ok_def unended_def)
  then obtain r :: "'j exchange_stream_error + unit" and ex where
    run: "exchange_stream_depths X input (lend (sj_driver jobs) (sd_exchanges (sj_driver jobs) ! i)) = Some (r, ex)"
    and call: "shared_call X i (sj_driver jobs) (take_back i ex (sj_driver jobs))"
    using stream_depths_returns [OF env] by metis
  show thesis
  proof (cases r)
    case (Inl e)
    then show thesis using run call by (intro ends) (simp_all add: job_step_def Let_def)
  next
    case (Inr u)
    then show thesis using run call by (intro goes_on) (simp_all add: job_step_def Let_def)
  qed
qed

text \<open>The tasks that have ended are left alone.\<close>

definition keeps_ended :: "('sl, 'pool, 'w) stream_jobs \<Rightarrow> ('sl, 'pool, 'w) stream_jobs \<Rightarrow> bool" where
  "keeps_ended jobs jobs' \<longleftrightarrow>
     List.length (sj_joined jobs') = List.length (sj_joined jobs) \<and>
     List.length (sd_exchanges (sj_driver jobs')) = List.length (sd_exchanges (sj_driver jobs)) \<and>
     (\<forall>i < List.length (sj_joined jobs). \<not> unended jobs i \<longrightarrow>
        sj_joined jobs' ! i = sj_joined jobs ! i \<and>
        sd_exchanges (sj_driver jobs') ! i = sd_exchanges (sj_driver jobs) ! i)"

lemma keeps_ended_trans: "keeps_ended jobs jobs1 \<Longrightarrow> keeps_ended jobs1 jobs2 \<Longrightarrow> keeps_ended jobs jobs2"
  by (auto simp: keeps_ended_def unended_def)

lemma job_step_ok:
  assumes env: "env_laws X live emits ends stopped" and ok: "jobs_ok live jobs" and i: "unended jobs i"
  shows "jobs_ok live (job_step X i input jobs) \<and> keeps_ended jobs (job_step X i input jobs) \<and>
    shared_call X i (sj_driver jobs) (sj_driver (job_step X i input jobs)) \<and>
    shared_effect live i (sj_driver jobs) (sj_driver (job_step X i input jobs))"
proof -
  have call: "shared_call X i (sj_driver jobs) (sj_driver (job_step X i input jobs))"
    by (rule job_step_cases [OF env ok i, of input]) simp_all
  have "shared_ok live (sj_driver jobs)" using ok by (simp add: jobs_ok_def)
  note effect = shared_call_effect [OF env this call]
  have joined: "sj_joined (job_step X i input jobs) = sj_joined jobs \<or>
      sj_joined (job_step X i input jobs) = (sj_joined jobs)[i := Some (Joined (Inl OrderBookDealSendFail))]"
    by (rule job_step_cases [OF env ok i, of input]) simp_all
  have "jobs_ok live (job_step X i input jobs)"
    using ok effect joined set_update_subset_insert [of "sj_joined jobs" i]
    by (fastforce simp: jobs_ok_def shared_effect_def)
  moreover have "keeps_ended jobs (job_step X i input jobs)"
  proof -
    have "j \<noteq> i \<and> (sj_joined jobs)[i := r] ! j = sj_joined jobs ! j" if "\<not> unended jobs j" for j r
      using that i by (cases "j = i") simp_all
    then show ?thesis
      using ok effect joined by (auto simp: keeps_ended_def jobs_ok_def shared_effect_def)
  qed
  ultimately show ?thesis using call effect by blast
qed

lemma jobs_step_ok:
  assumes env: "env_laws X live emits ends stopped" and ok: "jobs_ok live jobs"
    and step: "jobs_step X live jobs jobs'"
  shows "jobs_ok live jobs' \<and> keeps_ended jobs jobs' \<and>
    (shared_reach X live s0 (sj_driver jobs) \<longrightarrow> shared_reach X live s0 (sj_driver jobs'))"
  using step
proof cases
  case (poll i input)
  then show ?thesis using job_step_ok [OF env ok poll(2), of input] shared_reach.call by blast
next
  case (release slot)
  have "shared_ok live (sj_driver jobs')"
    using shared_release_ok [OF env _ release(2)] ok release(1)
    by (simp add: jobs_ok_def reader_releases_def)
  then show ?thesis
    using ok release shared_reach.release [of X live s0 "sj_driver jobs" slot]
    by (auto simp: jobs_ok_def keeps_ended_def reader_releases_def)
qed

lemma jobs_steps_ok:
  assumes env: "env_laws X live emits ends stopped" and run: "(jobs_step X live)\<^sup>*\<^sup>* jobs jobs'"
    and ok: "jobs_ok live jobs"
  shows "jobs_ok live jobs' \<and> keeps_ended jobs jobs' \<and>
    (shared_reach X live s0 (sj_driver jobs) \<longrightarrow> shared_reach X live s0 (sj_driver jobs'))"
  using run
proof (induction rule: rtranclp_induct)
  case base
  then show ?case using ok by (simp add: keeps_ended_def)
next
  case (step jobs1 jobs2)
  then show ?case using jobs_step_ok [OF env _ step(2)] keeps_ended_trans by blast
qed

text \<open>When all have ended, the result is the error of any of them.\<close>

lemma streams_result_failed:
  assumes "jobs_ok live jobs" and "all_joined jobs"
  shows "streams_result jobs =
    (if sd_exchanges (sj_driver jobs) = [] then Inr () else Inl OrderBookDealSendFail)"
proof -
  have "fold joined_result (map the js) r = (if js = [] then r else Inl OrderBookDealSendFail)"
    if "set js \<subseteq> {Some (Joined (Inl OrderBookDealSendFail))}" for js r
    using that by (induction js arbitrary: r) auto
  moreover have "set (sj_joined jobs) \<subseteq> {Some (Joined (Inl OrderBookDealSendFail))}"
    using assms by (auto simp: jobs_ok_def all_joined_def)
  moreover have "sj_joined jobs = [] \<longleftrightarrow> sd_exchanges (sj_driver jobs) = []"
    using assms(1) unfolding jobs_ok_def by (metis length_0_conv)
  ultimately show ?thesis by (simp add: streams_result_def)
qed

text \<open>A \<open>run_streams\<close> that returns went through steps of the tasks and the reader.\<close>

lemma jobs_event_step: "(jobs_step X live)\<^sup>*\<^sup>* jobs (jobs_event X live event jobs)"
  by (cases event) (auto simp: jobs_event_def intro: jobs_step.intros)

lemma join_streams_run:
  assumes "join_streams X live schedule jobs = Some jobs'"
  shows "(jobs_step X live)\<^sup>*\<^sup>* jobs jobs' \<and> all_joined jobs'"
  using assms
proof (rule join_streams.raw_induct [where
      P = "\<lambda>X live schedule jobs jobs'. (jobs_step X live)\<^sup>*\<^sup>* jobs jobs' \<and> all_joined jobs'", rotated])
  fix rec and X :: "('d, 'sl, 'pool, 'j) env" and live :: "'pool \<Rightarrow> 'sl set"
    and schedule :: "nat \<Rightarrow> ('sl, 'w) stream_event" and jobs jobs' :: "('sl, 'pool, 'w) stream_jobs"
  assume ih: "\<And>X live schedule jobs jobs'. rec X live schedule jobs = Some jobs' \<Longrightarrow>
      (jobs_step X live)\<^sup>*\<^sup>* jobs jobs' \<and> all_joined jobs'"
    and body: "(if all_joined jobs then Some jobs
      else rec X live (\<lambda>n. schedule (Suc n)) (jobs_event X live (schedule 0) jobs)) = Some jobs'"
  show "(jobs_step X live)\<^sup>*\<^sup>* jobs jobs' \<and> all_joined jobs'"
  proof (cases "all_joined jobs")
    case False
    then have "rec X live (\<lambda>n. schedule (Suc n)) (jobs_event X live (schedule 0) jobs) = Some jobs'"
      using body by simp
    from ih [OF this] show ?thesis using jobs_event_step by (meson rtranclp_trans)
  qed (use body in simp)
qed

text \<open>When the streams return, with at least one task, they do so with an error.\<close>

lemma run_streams_error:
  assumes "driver_run_streams X live schedule s = Some (r, s')" and "sd_exchanges s \<noteq> []"
  shows "\<exists>e. r = Inl e"
proof -
  obtain jobs where run: "(jobs_step X live)\<^sup>*\<^sup>* (spawn_streams s) jobs" "all_joined jobs"
    and r: "r = streams_result jobs"
    using assms(1) join_streams_run [of X live schedule "spawn_streams s"]
    by (auto simp: driver_run_streams_def)
  have never: "fold joined_result (map the js) q = q \<and> js = [] \<or> (\<exists>e. fold joined_result (map the js) q = Inl e)"
    if "set js \<subseteq> insert (Some JoinError) (range (\<lambda>e. Some (Joined (Inl e))))" for js q
    using that
  proof (induction js arbitrary: q)
    case (Cons j js)
    then show ?case
      using Cons.IH [of "joined_result (the j) q"] by fastforce
  qed simp
  have "List.length (sj_joined jobs) = List.length (sd_exchanges s) \<and>
      set (sj_joined jobs) \<subseteq> insert None (insert (Some JoinError) (range (\<lambda>e. Some (Joined (Inl e)))))"
    using run(1)
  proof (induction rule: rtranclp_induct)
    case base
    then show ?case by (auto simp: spawn_streams_def)
  next
    case (step jobs1 jobs2)
    from step(2,3) show ?case
      by cases (auto simp: job_step_def reader_releases_def Let_def dest!: set_update_subset_insert [THEN subsetD]
          split: option.splits sum.splits)
  qed
  then show ?thesis using never [of "sj_joined jobs" "Inr ()"] run(2) assms(2) r
    by (fastforce simp: all_joined_def streams_result_def)
qed

subsection \<open>Properties\<close>

text \<open>The round of a task as the property states it.\<close>

lemma job_step_round:
  fixes X :: "('d, 'sl, 'pool, 'j) env" and jobs :: "('sl, 'pool, 'w) stream_jobs"
  assumes env: "env_laws X live emits ends stopped" and ok: "jobs_ok live jobs" and i: "unended jobs i"
  shows "\<exists>(r :: 'j exchange_stream_error + unit) ex.
    exchange_stream_depths X input (lend (sj_driver jobs) (sd_exchanges (sj_driver jobs) ! i)) = Some (r, ex) \<and>
    sj_driver (job_step X i input jobs) = take_back i ex (sj_driver jobs) \<and>
    shared_effect live i (sj_driver jobs) (sj_driver (job_step X i input jobs)) \<and>
    (unended (job_step X i input jobs) i \<longleftrightarrow> r = Inr ()) \<and>
    (\<forall>j. j \<noteq> i \<longrightarrow> unended (job_step X i input jobs) j = unended jobs j)"
proof -
  have effect: "shared_effect live i (sj_driver jobs) (sj_driver (job_step X i input jobs))"
    using job_step_ok [OF env ok i] by blast
  from env ok i show ?thesis
  proof (cases rule: job_step_cases [where input = input])
    case (goes_on ex)
    then show ?thesis
      using i effect by (intro exI [of _ "Inr ()"] exI [of _ ex]) (simp add: unended_def)
  next
    case (ends e ex)
    then show ?thesis
      using i effect by (intro exI [of _ "Inl e"] exI [of _ ex]) (auto simp: unended_def)
  qed
qed

text \<open>
  C36. The streams of the exchanges, which share one pool and one channel, run independently. Start
  the tasks on a driver whose exchanges own their slots, and let the tasks and the reader take any
  steps, in any order, with any answers of the channel and the sockets. Then no slot has two owners
  and the driver is in a state that calls and releases reach; no task has panicked, and each that
  ended did so with \<open>OrderBookDealSendFail\<close>; a task that has not ended can take its next round
  whatever the others did and whatever it is answered, which leaves the other exchanges, their slots
  and their tasks alone and ends the task exactly when \<open>stream_depths\<close> fails; a task that ended and
  its exchange are never touched again; and when all have ended, the result is the error, or \<open>Ok\<close> if
  there is no exchange. \<open>run_streams\<close> returns under a schedule only through such a run.
\<close>

theorem streams_run_in_any_order:
  fixes X :: "('d, 'sl, 'pool, 'j) env" and s :: "('sl, 'pool, 'w) shared_driver"
  assumes env: "env_laws X live emits ends stopped" and ok: "shared_ok live s"
    and run: "(jobs_step X live)\<^sup>*\<^sup>* (spawn_streams s) jobs"
  shows "shared_ok live (sj_driver jobs) \<and> shared_reach X live s (sj_driver jobs) \<and>
    set (sj_joined jobs) \<subseteq> {None, Some (Joined (Inl OrderBookDealSendFail))} \<and>
    (\<forall>i input. unended jobs i \<longrightarrow>
      (\<exists>(r :: 'j exchange_stream_error + unit) ex.
        exchange_stream_depths X input (lend (sj_driver jobs) (sd_exchanges (sj_driver jobs) ! i)) = Some (r, ex) \<and>
        sj_driver (job_step X i input jobs) = take_back i ex (sj_driver jobs) \<and>
        shared_effect live i (sj_driver jobs) (sj_driver (job_step X i input jobs)) \<and>
        (unended (job_step X i input jobs) i \<longleftrightarrow> r = Inr ()) \<and>
        (\<forall>j. j \<noteq> i \<longrightarrow> unended (job_step X i input jobs) j = unended jobs j))) \<and>
    (\<forall>jobs'. (jobs_step X live)\<^sup>*\<^sup>* jobs jobs' \<longrightarrow> keeps_ended jobs jobs') \<and>
    (all_joined jobs \<longrightarrow>
      streams_result jobs = (if sd_exchanges s = [] then Inr () else Inl OrderBookDealSendFail)) \<and>
    (\<forall>schedule r s'. driver_run_streams X live schedule s = Some (r, s') \<longrightarrow>
      (\<exists>jobs'. (jobs_step X live)\<^sup>*\<^sup>* (spawn_streams s) jobs' \<and> all_joined jobs' \<and>
        r = streams_result jobs' \<and> s' = sj_driver jobs'))"
proof -
  note now = jobs_steps_ok [OF env run spawn_ok [OF ok], of s]
  then have inv: "jobs_ok live jobs" by blast
  have "sd_exchanges (sj_driver jobs) = [] \<longleftrightarrow> sd_exchanges s = []"
    using now unfolding keeps_ended_def spawn_simps by (metis length_0_conv)
  then have result: "all_joined jobs \<longrightarrow>
      streams_result jobs = (if sd_exchanges s = [] then Inr () else Inl OrderBookDealSendFail)"
    using streams_result_failed [OF inv] by simp
  have later: "\<forall>jobs'. (jobs_step X live)\<^sup>*\<^sup>* jobs jobs' \<longrightarrow> keeps_ended jobs jobs'"
    using jobs_steps_ok [OF env _ inv] by blast
  have "\<exists>jobs'. (jobs_step X live)\<^sup>*\<^sup>* (spawn_streams s) jobs' \<and> all_joined jobs' \<and>
      r = streams_result jobs' \<and> s' = sj_driver jobs'"
    if "driver_run_streams X live schedule s = Some (r, s')" for schedule r s'
    using that join_streams_run [of X live schedule "spawn_streams s"]
    by (auto simp: driver_run_streams_def)
  with now inv result later show ?thesis
    using job_step_round [OF env inv] shared_reach.built [of X live s]
    unfolding jobs_ok_def by (simp del: fun_upd_apply)
qed

text \<open>Two exchanges on the sample pool, both with an open socket that has nothing to read.\<close>

definition two_streams :: "(nat, nat \<times> nat list, string) shared_driver" where
  "two_streams = \<lparr>sd_pool = (8, []), sd_depths = [], sd_exchanges = [sample_exchange 1, sample_exchange 2]\<rparr>"

lemma two_streams_ok: "shared_ok sample_live two_streams"
  by (rule shared_ok_new)
    (simp add: two_streams_def sample_exchange_def sample_stream_def slots_of_def owned_def)

lemma two_streams_call:
  assumes "i < 2"
  shows "exchange_stream_depths the_env (a, []) (lend two_streams (sd_exchanges two_streams ! i)) =
      Some (Inr () :: string exchange_stream_error + unit, lend two_streams (sd_exchanges two_streams ! i))"
    and "\<exists>e. exchange_stream_depths the_env (a, [WsFail w]) (lend two_streams (sd_exchanges two_streams ! i)) =
      Some (Inl e :: string exchange_stream_error + unit, lend two_streams (sd_exchanges two_streams ! i))"
  using assms stream_run_idle [OF the_env_laws, of "ex_inner (lend two_streams (sd_exchanges two_streams ! i))"]
  by (auto simp: exchange_stream_depths_def two_streams_def less_2_cases_iff lend_def sample_exchange_def
      sample_stream_def)

text \<open>The socket of the second exchange fails; the first goes on.\<close>

lemma streams_run_in_any_order_witness:
  "\<exists>jobs. (jobs_step the_env sample_live)\<^sup>*\<^sup>* (spawn_streams two_streams) jobs \<and>
    sj_joined jobs = [None, Some (Joined (Inl OrderBookDealSendFail))] \<and>
    shared_reach the_env sample_live two_streams (sj_driver jobs) \<and>
    unended (job_step the_env 0 (Inr True, [WsMessage (Text ''ab'')]) jobs) 1 = False"
proof -
  let ?jobs = "job_step the_env 1 (Inr True, [WsFail ''reset'']) (spawn_streams two_streams)"
  have two: "List.length (sd_exchanges two_streams) = 2" by (simp add: two_streams_def)
  have "jobs_step the_env sample_live (spawn_streams two_streams) ?jobs"
    by (rule jobs_step.poll) (simp add: two)
  then have run: "(jobs_step the_env sample_live)\<^sup>*\<^sup>* (spawn_streams two_streams) ?jobs" by blast
  obtain e where "exchange_stream_depths the_env (Inr True, [WsFail ''reset''])
      (lend two_streams (sd_exchanges two_streams ! 1)) =
      Some (Inl e :: string exchange_stream_error + unit, lend two_streams (sd_exchanges two_streams ! 1))"
    using two_streams_call(2) [of 1] by auto
  then have joined: "sj_joined ?jobs = [None, Some (Joined (Inl OrderBookDealSendFail))]"
    by (simp add: job_step_def Let_def) (simp add: spawn_streams_def two_streams_def)
  note all = streams_run_in_any_order [OF the_env_laws two_streams_ok run]
  have "unended ?jobs 0" using joined by (simp add: unended_def)
  then have "unended (job_step the_env 0 (Inr True, [WsMessage (Text ''ab'')]) ?jobs) 1 = unended ?jobs 1"
    using all by (metis one_neq_zero)
  moreover have "shared_reach the_env sample_live two_streams (sj_driver ?jobs)" using all by blast
  ultimately show ?thesis using run joined by (auto simp: unended_def)
qed







end
