(* ===== verification/Engine_Core.thy ===== *)
theory Engine_Core
  imports Driver_Tasks Book_Properties
begin

text \<open>
  \<open>core/src/lib.rs\<close>: the core builds the order book, the runtime and the driver, and starts the
  driver once. The runtime is an argument, and so are the two calls of \<open>DepthDriver::new\<close> that do
  not match the code they call.
\<close>

datatype error_core = Startup string

record ('d, 'sl, 'pool, 'w) core =
  co_ob :: "'d order_book"
  co_depth_driver :: "('sl, 'pool, 'w) depth_driver option"
  co_depth_consumer :: "'sl list"

definition core_new ::
  "'d decimal \<Rightarrow> string + unit \<Rightarrow> ('w \<Rightarrow> string) \<Rightarrow> ('j \<Rightarrow> string) \<Rightarrow> (u64 \<Rightarrow> 'pool) \<Rightarrow>
   (exchange_config \<Rightarrow> 'sl list \<Rightarrow> 'pool \<Rightarrow> unit \<Rightarrow> 'j exchange_stream_error + ('sl, 'pool, 'w) exchange) \<Rightarrow>
   config \<Rightarrow> (error_core + ('d, 'sl, 'pool, 'w) core) option" where
  "core_new D runtime show_ws show_json with_capacity new_exchange config =
     (case order_book_new D (cf_orderbook config) of
        None \<Rightarrow> None
      | Some _ \<Rightarrow>
          (case runtime of
             Inl e \<Rightarrow> Some (Inl (Startup e))
           | Inr _ \<Rightarrow>
               (case driver_new show_json with_capacity new_exchange (cf_exchanges config) () of
                  Inl e \<Rightarrow> Some (Inl (Startup (initial_state_display show_ws e)))
                | Inr (depth_driver, depth_consumer) \<Rightarrow>
                    (case order_book_new D (cf_orderbook config) of
                       None \<Rightarrow> None
                     | Some ob \<Rightarrow>
                         Some (Inr \<lparr>co_ob = ob, co_depth_driver = Some depth_driver,
                                    co_depth_consumer = depth_consumer\<rparr>)))))"

text \<open>As no order book can be built, no core can: \<open>Core::new\<close> panics before it opens a runtime.\<close>

lemma core_new_panics: "new_panics_above_max_scale D \<Longrightarrow>
    core_new D runtime show_ws show_json with_capacity new_exchange config = None"
  by (simp add: core_new_def order_book_new_None)

text \<open>
  \<open>run\<close> takes the driver out of the core. What it returns is the joined task; here its result,
  with \<open>None\<close> as a task that never ends. The core keeps the reading end of the driver's channel.
\<close>

definition core_run ::
  "('e, 'sl, 'pool, 'j) env \<Rightarrow> ('pool \<Rightarrow> 'sl set) \<Rightarrow> (json \<Rightarrow> string) \<Rightarrow> 'w driver_world \<Rightarrow>
   (nat \<Rightarrow> ('sl, 'w) stream_event) \<Rightarrow> ('d, 'sl, 'pool, 'w) core \<Rightarrow>
   ('w error_initial_state + ('w error_initial_state + unit) option) \<times> ('d, 'sl, 'pool, 'w) core" where
  "core_run X live to_string world schedule core =
     (case co_depth_driver core of
        None \<Rightarrow> (Inl (InitWSConnection ''depth driver is already running''), core)
      | Some driver \<Rightarrow>
          (Inr (map_option fst (driver_run X live to_string world schedule
              (share_pool driver (co_depth_consumer core)))),
           core\<lparr>co_depth_driver := None\<rparr>))"

text \<open>The second \<open>run\<close> of a core is refused, whatever the first one did.\<close>

lemma core_runs_once:
  "fst (core_run X live to_string world schedule (snd (core_run X' live to_string' world' schedule' core))) =
     Inl (InitWSConnection ''depth driver is already running'')"
  by (cases "co_depth_driver core") (simp_all add: core_run_def)

end
