(* ===== verification/Channel_Executor.thy ===== *)
theory Channel_Executor
  imports Channel_Properties
begin

text \<open>
  The channel under an executor, as the tests of \<open>zc-async-channel\<close> drive it: one task per sender
  awaits \<open>send\<close> for each of its values and then drops the sender, one task awaits \<open>recv\<close> until the
  end of the stream and then drops the receiver. The executor polls a task only at its start, after
  progress, or when it has been woken since its last poll; which ready task runs is arbitrary, and
  several futures may share a task, as under \<open>join!\<close>. The result: the tasks come to their end within
  a bounded number of polls, with every value delivered.
\<close>

subsection \<open>Counting\<close>

lemma sum_length_upd:
  "i < n \<Longrightarrow> (\<Sum>j<n. List.length ((f(i := xs)) j)) + List.length (f i) =
    (\<Sum>j<n. List.length (f j)) + List.length xs" for n :: nat
  by (simp add: sum.remove [of "{..<n}" i])

lemma card_flip:
  fixes P Q :: "nat \<Rightarrow> bool"
  assumes "\<not> Q i" and "\<And>j. j \<noteq> i \<Longrightarrow> Q j = P j" and "P i" and "i < n"
  shows "card {j \<in> {..<n}. Q j} < card {j \<in> {..<n}. P j}"
proof (rule psubset_card_mono)
  have "Q j \<Longrightarrow> P j" for j using assms(1,2) by (cases "j = i") auto
  then show "{j \<in> {..<n}. Q j} \<subset> {j \<in> {..<n}. P j}" using assms(1,3,4) by auto
qed simp

subsection \<open>The tasks\<close>

record 't tasks =
  tk_system :: "'t system"
  tk_todo :: "nat \<Rightarrow> 't list"
  tk_accepted :: "(nat \<times> 't) list"
  tk_finished :: bool

abbreviation tk_chan :: "'t tasks \<Rightarrow> 't channel" where
  "tk_chan e \<equiv> chan (tk_system e)"

text \<open>What sender \<open>i\<close> still has to send: the value its parked future owns comes first.\<close>

definition remaining :: "'t tasks \<Rightarrow> nat \<Rightarrow> 't list" where
  "remaining e i =
     (case tx_parked (tk_system e) i of
        None \<Rightarrow> tk_todo e i
      | Some (t, v, n) \<Rightarrow> v # tk_todo e i)"

definition tx_ready :: "'t tasks \<Rightarrow> nat \<Rightarrow> bool" where
  "tx_ready e i \<longleftrightarrow> i \<in> live_ids (tk_chan e) \<and>
     (case tx_parked (tk_system e) i of
        None \<Rightarrow> True
      | Some (t, v, n) \<Rightarrow> t \<in> set (drop n (wake_log (tk_chan e))))"

definition rx_ready :: "'t tasks \<Rightarrow> bool" where
  "rx_ready e \<longleftrightarrow> \<not> tk_finished e \<and>
     (case rx_parked (tk_system e) of
        None \<Rightarrow> True
      | Some (t, n) \<Rightarrow> t \<in> set (drop n (wake_log (tk_chan e))))"

definition after_send_poll ::
  "'t tasks \<Rightarrow> nat \<Rightarrow> task \<Rightarrow> 't \<Rightarrow> 't list \<Rightarrow> ('t + unit) poll \<Rightarrow> 't channel \<Rightarrow> 't tasks" where
  "after_send_poll e i t v rest r ch =
     e\<lparr>tk_system := after_send (tk_system e) i t v r ch, tk_todo := (tk_todo e)(i := rest),
       tk_accepted := tk_accepted e @ (case r of Ready (Inr _) \<Rightarrow> [(i, v)] | _ \<Rightarrow> [])\<rparr>"

definition after_drop_tx :: "'t tasks \<Rightarrow> nat \<Rightarrow> 't tasks" where
  "after_drop_tx e i =
     e\<lparr>tk_system := (tk_system e)\<lparr>chan := drop_sender (tk_chan e) i\<rparr>\<rparr>"

definition after_recv_poll :: "'t tasks \<Rightarrow> task \<Rightarrow> 't option poll \<Rightarrow> 't channel \<Rightarrow> 't tasks" where
  "after_recv_poll e t r ch =
     (let s = after_recv (tk_system e) t r ch
      in if r = Ready None
         then e\<lparr>tk_system := s\<lparr>chan := drop_receiver (chan s)\<rparr>, tk_finished := True\<rparr>
         else e\<lparr>tk_system := s\<rparr>)"

text \<open>\<open>T\<close> names the task of each sender, \<open>R\<close> that of the receiver.\<close>

inductive task_step :: "(nat \<Rightarrow> task) \<Rightarrow> task \<Rightarrow> 't tasks \<Rightarrow> 't tasks \<Rightarrow> bool" for T R where
  send: "tx_ready e i \<Longrightarrow> remaining e i = v # rest \<Longrightarrow>
     send_poll (tk_chan e) i (T i) (Some v) = Some (r, v', ch) \<Longrightarrow>
     task_step T R e (after_send_poll e i (T i) v rest r ch)"
| drop_tx: "tx_ready e i \<Longrightarrow> remaining e i = [] \<Longrightarrow> task_step T R e (after_drop_tx e i)"
| recv: "rx_ready e \<Longrightarrow> recv_poll (tk_chan e) R = (r, ch) \<Longrightarrow>
     task_step T R e (after_recv_poll e R r ch)"

definition tasks_start :: "'t system \<Rightarrow> (nat \<Rightarrow> 't list) \<Rightarrow> 't tasks" where
  "tasks_start s todo = \<lparr>tk_system = s, tk_todo = todo, tk_accepted = [], tk_finished = False\<rparr>"

text \<open>The values of one sender among those accepted, in the order of their acceptance.\<close>

definition sent_by :: "nat \<Rightarrow> (nat \<times> 't) list \<Rightarrow> 't list" where
  "sent_by i values = map snd (filter (\<lambda>a. fst a = i) values)"

lemma sent_by_simps [simp]:
  "sent_by i [] = []"
  "sent_by i (xs @ [(j, v)]) = (if j = i then sent_by i xs @ [v] else sent_by i xs)"
  by (simp_all add: sent_by_def)

subsection \<open>The invariant\<close>

definition tasks_ok :: "'t list \<Rightarrow> (nat \<Rightarrow> 't list) \<Rightarrow> 't tasks \<Rightarrow> bool" where
  "tasks_ok before todo e \<longleftrightarrow>
     system_ok (tk_system e) \<and> tx_behind (tk_system e) = [] \<and> rx_behind (tk_system e) = [] \<and>
     (\<forall>i. remaining e i \<noteq> [] \<longrightarrow> i \<in> live_ids (tk_chan e)) \<and>
     (if tk_finished e then live_ids (tk_chan e) = {} \<and> contents (tk_chan e) = []
      else rx_alive (tk_chan e)) \<and>
     sent (tk_system e) = before @ map snd (tk_accepted e) \<and>
     (\<forall>i. todo i = sent_by i (tk_accepted e) @ remaining e i)"

lemma tasks_okD:
  assumes "tasks_ok before todo e"
  shows "system_ok (tk_system e)" "ring_ok (tk_chan e)" "ids_ok (tk_chan e)"
    "remaining e i \<noteq> [] \<Longrightarrow> i \<in> live_ids (tk_chan e)"
    "sent (tk_system e) = before @ map snd (tk_accepted e)"
    "todo i = sent_by i (tk_accepted e) @ remaining e i"
    "i \<in> live_ids (tk_chan e) \<Longrightarrow> rx_alive (tk_chan e) \<and> \<not> tk_finished e \<and> i < 64"
    "\<not> tk_finished e \<Longrightarrow> rx_alive (tk_chan e)"
    "tk_finished e \<Longrightarrow> live_ids (tk_chan e) = {} \<and> contents (tk_chan e) = []"
    "tx_behind (tk_system e) = []" "rx_behind (tk_system e) = []"
  using assms system_okD(1,2) [of "tk_system e"] bit_u64_bound [of "tx_ids (tk_chan e)"]
  by (auto simp: tasks_ok_def live_ids_def split: if_splits)

text \<open>The tasks await one future each, so nothing ever falls behind.\<close>

lemma poll_behind [simp]:
  "tx_behind (tk_system (after_send_poll e i t v rest r ch)) = tx_behind (tk_system e)"
  "rx_behind (tk_system (after_send_poll e i t v rest r ch)) = rx_behind (tk_system e)"
  "tx_behind (tk_system (after_drop_tx e i)) = tx_behind (tk_system e)"
  "rx_behind (tk_system (after_drop_tx e i)) = rx_behind (tk_system e)"
  "tx_behind (tk_system (after_recv_poll e t q ch)) = tx_behind (tk_system e)"
  "rx_behind (tk_system (after_recv_poll e t q ch)) = rx_behind (tk_system e)"
  by (simp_all add: after_send_poll_def after_send_def after_drop_tx_def after_recv_poll_def
      after_recv_def Let_def)

text \<open>
  The weight of a state: a value to send counts twice and a value in the ring once, for it has to
  be accepted and received; every task alive counts once; then the number of ready tasks, of
  which there are at most 65.
\<close>

definition work_left :: "'t tasks \<Rightarrow> nat" where
  "work_left e = 2 * (\<Sum>i<64. List.length (remaining e i)) + len (tk_chan e) +
     card (live_ids (tk_chan e)) + (if tk_finished e then 0 else 1)"

definition ready_tasks :: "'t tasks \<Rightarrow> nat" where
  "ready_tasks e = card {i \<in> {..<64}. tx_ready e i} + (if rx_ready e then 1 else 0)"

definition tasks_weight :: "'t tasks \<Rightarrow> nat" where
  "tasks_weight e = 66 * work_left e + ready_tasks e"

lemma ready_tasks_bound: "ready_tasks e \<le> 65"
proof -
  have "card {i \<in> {..<64}. tx_ready e i} \<le> card {..<64 :: nat}" by (rule card_mono) auto
  then show ?thesis by (simp add: ready_tasks_def)
qed

lemma weight_progress: "work_left e' < work_left e \<Longrightarrow> tasks_weight e' < tasks_weight e"
  using ready_tasks_bound [of e'] by (simp add: tasks_weight_def)

lemma weight_park:
  assumes "work_left e' = work_left e" and "ready_tasks e' < ready_tasks e"
  shows "tasks_weight e' < tasks_weight e"
  using assms by (simp add: tasks_weight_def)

lemma live_ids_64: "live_ids ch \<subseteq> {..<64}"
  by (auto simp: live_ids_def dest: bit_u64_bound)

lemma finite_live_ids [simp]: "finite (live_ids ch)"
  using finite_subset [OF live_ids_64] by blast

subsection \<open>The steps keep the invariant and lower the weight\<close>

lemma send_accepted:
  fixes t :: task
  assumes ok: "tasks_ok before todo e" and some: "remaining e i = v # rest"
    and p: "push (tk_chan e) v = (Inr (), ch)"
  defines "e' \<equiv> after_send_poll e i t v rest (Ready (Inr ())) ch"
  shows "tasks_ok before todo e' \<and> tasks_weight e' < tasks_weight e"
proof -
  have behind: "tx_behind (tk_system e') = []" "rx_behind (tk_system e') = []"
    using tasks_okD(10,11) [OF ok] by (simp_all add: e'_def)
  note kept = push_keeps [OF tasks_okD(2,3) [OF ok] p] and frame = push_frame [OF p]
  have live: "i \<in> live_ids (tk_chan e)" using tasks_okD(4) [OF ok, of i] some by simp
  have rem: "remaining e' j = (if j = i then rest else remaining e j)" for j
    by (auto simp: e'_def after_send_poll_def after_send_def remaining_def split: option.split)
  have sys: "system_ok (tk_system e')"
    using system_ok_sent(1) [OF tasks_okD(1) [OF ok] p, of i]
    by (simp add: e'_def after_send_poll_def after_send_def)
  have e': "tk_chan e' = ch" "tk_finished e' = tk_finished e" "tk_accepted e' = tk_accepted e @ [(i, v)]"
    "sent (tk_system e') = sent (tk_system e) @ [v]"
    by (simp_all add: e'_def after_send_poll_def after_send_def)
  have "tasks_ok before todo e'"
    using behind sys tasks_okD(4,5,6) [OF ok] tasks_okD(7) [OF ok live] some live kept
    unfolding tasks_ok_def e' rem by (auto split: if_splits)
  moreover have "work_left e' < work_left e"
  proof -
    have "remaining e' = (remaining e)(i := rest)" by (auto simp: rem)
    then have "(\<Sum>j<64. List.length (remaining e' j)) + Suc (List.length rest) =
        (\<Sum>j<64. List.length (remaining e j)) + List.length rest"
      using sum_length_upd [of i 64 "remaining e" rest] tasks_okD(7) [OF ok live] some by simp
    then show ?thesis by (simp add: work_left_def e' kept(3) frame(5))
  qed
  ultimately show ?thesis using weight_progress by blast
qed

lemma send_parked:
  assumes ok: "tasks_ok before todo e" and ready: "tx_ready e i" and some: "remaining e i = v # rest"
    and poll: "send_poll (tk_chan e) i t (Some v) = Some (Pending, v', ch)"
    and ch: "ch = (tk_chan e)\<lparr>tx_wakers := (tx_wakers (tk_chan e))[i := Some t]\<rparr>"
  defines "e' \<equiv> after_send_poll e i t v rest Pending ch"
  shows "tasks_ok before todo e' \<and> tasks_weight e' < tasks_weight e"
proof -
  have behind: "tx_behind (tk_system e') = []" "rx_behind (tk_system e') = []"
    using tasks_okD(10,11) [OF ok] by (simp_all add: e'_def)
  have live: "i \<in> live_ids (tk_chan e)" using ready by (simp add: tx_ready_def)
  have rem: "remaining e' j = remaining e j" for j
    using some by (auto simp: e'_def after_send_poll_def after_send_def remaining_def split: option.split)
  have sys: "system_ok (tk_system e')"
    using system_ok_after_send [OF tasks_okD(1) [OF ok] live poll]
    by (simp add: e'_def after_send_poll_def)
  have e': "tk_chan e' = ch" "tk_finished e' = tk_finished e" "tk_accepted e' = tk_accepted e"
    "sent (tk_system e') = sent (tk_system e)" "rx_parked (tk_system e') = rx_parked (tk_system e)"
    by (simp_all add: e'_def after_send_poll_def after_send_def)
  have same: "live_ids ch = live_ids (tk_chan e)" "contents ch = contents (tk_chan e)"
    "rx_alive ch = rx_alive (tk_chan e)" "len ch = len (tk_chan e)" "wake_log ch = wake_log (tk_chan e)"
    using contents_frame [of ch "tk_chan e"] by (simp_all add: ch live_ids_def)
  have "tasks_ok before todo e'"
    using behind ok sys unfolding tasks_ok_def e' rem same by simp
  moreover have "work_left e' = work_left e" by (simp add: work_left_def e' rem same)
  moreover have "ready_tasks e' < ready_tasks e"
  proof -
    have "tx_parked (tk_system e') = (tx_parked (tk_system e))(i \<mapsto> (t, v, List.length (wake_log (tk_chan e))))"
      by (simp add: e'_def after_send_poll_def after_send_def same)
    then have "\<not> tx_ready e' i" "\<And>j. j \<noteq> i \<Longrightarrow> tx_ready e' j = tx_ready e j"
      unfolding tx_ready_def e'(1) same by simp_all
    then have "card {j \<in> {..<64}. tx_ready e' j} < card {j \<in> {..<64}. tx_ready e j}"
      using ready tasks_okD(7) [OF ok live] by (intro card_flip) auto
    moreover have "rx_ready e' = rx_ready e" by (simp only: rx_ready_def e' same)
    ultimately show ?thesis by (simp add: ready_tasks_def)
  qed
  ultimately show ?thesis using weight_park by blast
qed

lemma sender_dropped:
  assumes ok: "tasks_ok before todo e" and ready: "tx_ready e i" and none: "remaining e i = []"
  defines "e' \<equiv> after_drop_tx e i"
  shows "tasks_ok before todo e' \<and> tasks_weight e' < tasks_weight e"
proof -
  have behind: "tx_behind (tk_system e') = []" "rx_behind (tk_system e') = []"
    using tasks_okD(10,11) [OF ok] by (simp_all add: e'_def)
  have live: "i \<in> live_ids (tk_chan e)" using ready by (simp add: tx_ready_def)
  have free: "tx_parked (tk_system e) i = None"
    using none by (simp add: remaining_def split: option.splits prod.splits)
  have sys: "system_ok (tk_system e')"
    using system_ok_drop_sender [OF tasks_okD(1) [OF ok] free] tasks_okD(10) [OF ok] by (simp add: e'_def after_drop_tx_def)
  have e': "tk_chan e' = drop_sender (tk_chan e) i" "tk_finished e' = tk_finished e"
    "tk_accepted e' = tk_accepted e" "sent (tk_system e') = sent (tk_system e)"
    by (simp_all add: e'_def after_drop_tx_def)
  have rem: "remaining e' j = remaining e j" for j
    by (simp add: e'_def after_drop_tx_def remaining_def split: option.split)
  have same: "live_ids (tk_chan e') = live_ids (tk_chan e) - {i}" "len (tk_chan e') = len (tk_chan e)"
    "rx_alive (tk_chan e') = rx_alive (tk_chan e)"
    by (simp add: e' drop_sender_ids) (simp_all add: e' drop_sender_def Let_def)
  have "tasks_ok before todo e'"
    using behind sys tasks_okD(4,5,6) [OF ok] tasks_okD(7) [OF ok live] none
    unfolding tasks_ok_def rem same e'(2-4) by auto
  moreover have "work_left e' < work_left e"
    using card_Diff1_less [OF finite_live_ids live] by (simp add: work_left_def rem same e'(2))
  ultimately show ?thesis using weight_progress by blast
qed

lemma value_received:
  fixes t :: task
  assumes ok: "tasks_ok before todo e" and go: "\<not> tk_finished e" and p: "pop (tk_chan e) = (Some x, ch)"
  defines "e' \<equiv> after_recv_poll e t (Ready (Some x)) ch"
  shows "tasks_ok before todo e' \<and> tasks_weight e' < tasks_weight e"
proof -
  have behind: "tx_behind (tk_system e') = []" "rx_behind (tk_system e') = []"
    using tasks_okD(10,11) [OF ok] by (simp_all add: e'_def)
  note kept = pop_keeps [OF tasks_okD(2,3) [OF ok] p]
  have sys: "system_ok (tk_system e')"
    using system_ok_received(1) [OF tasks_okD(1) [OF ok] p]
    by (simp add: e'_def after_recv_poll_def after_recv_def)
  have e': "tk_chan e' = ch" "tk_finished e' = tk_finished e" "tk_accepted e' = tk_accepted e"
    "sent (tk_system e') = sent (tk_system e)"
    by (simp_all add: e'_def after_recv_poll_def after_recv_def)
  have rem: "remaining e' j = remaining e j" for j
    by (simp add: e'_def after_recv_poll_def after_recv_def remaining_def split: option.split)
  have "tasks_ok before todo e'"
    using behind sys tasks_okD(4,5,6) [OF ok] tasks_okD(8) [OF ok go] go kept(3,5)
    unfolding tasks_ok_def rem e' by auto
  moreover have "work_left e' < work_left e"
    using arg_cong [OF kept(4), of List.length] by (simp add: work_left_def rem kept(3) e' del: contents_Nil)
  ultimately show ?thesis using weight_progress by blast
qed

lemma stream_ended:
  fixes t :: task
  assumes ok: "tasks_ok before todo e" and go: "\<not> tk_finished e"
    and over: "len (tk_chan e) = 0" "\<not> tx_alive (tk_chan e)"
  defines "e' \<equiv> after_recv_poll e t (Ready None) (tk_chan e)"
  shows "tasks_ok before todo e' \<and> tasks_weight e' < tasks_weight e"
proof -
  have behind: "tx_behind (tk_system e') = []" "rx_behind (tk_system e') = []"
    using tasks_okD(10,11) [OF ok] by (simp_all add: e'_def)
  define s where "s = (tk_system e)\<lparr>rx_parked := None\<rparr>"
  have s: "after_recv (tk_system e) t (Ready None) (tk_chan e) = s"
    by (simp add: s_def after_recv_def)
  have "system_ok s" using system_ok_unpark(2) [OF tasks_okD(1) [OF ok]] by (simp add: s_def)
  then have sys: "system_ok (tk_system e')"
    using system_ok_drop_receiver [of s] s tasks_okD(11) [OF ok] by (simp add: e'_def after_recv_poll_def s_def)
  have e': "tk_chan e' = drop_receiver (tk_chan e)" "tk_finished e'" "tk_accepted e' = tk_accepted e"
    "sent (tk_system e') = sent (tk_system e)"
    by (simp_all add: e'_def after_recv_poll_def s) (simp_all add: s_def)
  have rem: "remaining e' j = remaining e j" for j
    by (simp add: e'_def after_recv_poll_def after_recv_def remaining_def split: option.split)
  have same: "live_ids (tk_chan e') = live_ids (tk_chan e)" "len (tk_chan e') = len (tk_chan e)"
    by (simp_all add: e' drop_receiver_def live_ids_def)
  have "live_ids (tk_chan e) = {}" using over(2) by (simp add: tx_alive_iff)
  then have "tasks_ok before todo e'"
    using behind sys tasks_okD(4,5,6) [OF ok] over(1) e'(2) unfolding tasks_ok_def rem same e'(3,4) by (auto simp: same)
  moreover have "work_left e' < work_left e"
    using go by (simp add: work_left_def rem same e'(2))
  ultimately show ?thesis using weight_progress by blast
qed

lemma receive_parked:
  assumes ok: "tasks_ok before todo e" and ready: "rx_ready e"
    and poll: "recv_poll (tk_chan e) t = (Pending, ch)" and ch: "ch = (tk_chan e)\<lparr>rx_waker := Some t\<rparr>"
  defines "e' \<equiv> after_recv_poll e t Pending ch"
  shows "tasks_ok before todo e' \<and> tasks_weight e' < tasks_weight e"
proof -
  have behind: "tx_behind (tk_system e') = []" "rx_behind (tk_system e') = []"
    using tasks_okD(10,11) [OF ok] by (simp_all add: e'_def)
  have go: "\<not> tk_finished e" using ready by (simp add: rx_ready_def)
  have sys: "system_ok (tk_system e')"
    using system_ok_after_recv [OF tasks_okD(1) [OF ok] tasks_okD(8) [OF ok go] poll]
    by (simp add: e'_def after_recv_poll_def)
  have e': "tk_chan e' = ch" "tk_finished e' = tk_finished e" "tk_accepted e' = tk_accepted e"
    "sent (tk_system e') = sent (tk_system e)" "tx_parked (tk_system e') = tx_parked (tk_system e)"
    "rx_parked (tk_system e') = Some (t, List.length (wake_log ch))" "tk_todo e' = tk_todo e"
    by (simp_all add: e'_def after_recv_poll_def after_recv_def)
  have rem: "remaining e' j = remaining e j" for j
    by (simp add: remaining_def e' split: option.split)
  have same: "live_ids ch = live_ids (tk_chan e)" "len ch = len (tk_chan e)"
    "wake_log ch = wake_log (tk_chan e)" "rx_alive ch = rx_alive (tk_chan e)"
    by (simp_all add: ch live_ids_def)
  have "tasks_ok before todo e'"
    using behind sys tasks_okD(4,5,6) [OF ok] tasks_okD(8) [OF ok go] go
    unfolding tasks_ok_def rem e' same by simp
  moreover have "work_left e' = work_left e" by (simp add: work_left_def e' rem same)
  moreover have "tx_ready e' j = tx_ready e j" for j by (simp only: tx_ready_def e' same)
  then have "ready_tasks e' < ready_tasks e"
    using ready by (simp add: ready_tasks_def rx_ready_def e')
  ultimately show ?thesis using weight_park by blast
qed

lemma task_step_ok:
  assumes ok: "tasks_ok before todo e" and step: "task_step T R e e'"
  shows "tasks_ok before todo e' \<and> tasks_weight e' < tasks_weight e"
  using step
proof cases
  case (send i v rest r v' ch)
  have "i \<in> live_ids (tk_chan e)" using send(2) by (simp add: tx_ready_def)
  then have alive: "rx_alive (tk_chan e)" using tasks_okD(7) [OF ok] by blast
  show ?thesis
    using tasks_okD(2) [OF ok] send(4)
  proof (cases rule: send_poll_cases)
    case closed
    then show ?thesis using alive by simp
  next
    case sent
    then show ?thesis using send_accepted [OF ok send(3)] send(1) by simp
  next
    case parked
    then show ?thesis using send_parked [OF ok send(2,3)] send(1,4) by simp
  qed
next
  case (drop_tx i)
  then show ?thesis using sender_dropped [OF ok] by simp
next
  case (recv r ch)
  then have go: "\<not> tk_finished e" by (simp add: rx_ready_def)
  show ?thesis
    using tasks_okD(2) [OF ok] recv(3)
  proof (cases rule: recv_poll_cases)
    case (got x xs)
    then show ?thesis using value_received [OF ok go] recv(1) by simp
  next
    case closed
    then show ?thesis using stream_ended [OF ok go] recv(1) by simp
  next
    case parked
    then show ?thesis using receive_parked [OF ok recv(2)] recv(1,3) by simp
  qed
qed

text \<open>As long as the receiver's task has not come to its end, some task can run.\<close>

lemma some_task_ready:
  assumes ok: "tasks_ok before todo e" and go: "\<not> tk_finished e"
  shows "\<exists>e'. task_step T R e e'"
proof -
  have tx: "\<exists>e'. task_step T R e e'" if ready: "tx_ready e i" for i
  proof (cases "remaining e i")
    case Nil
    then show ?thesis using ready by (blast intro: task_step.drop_tx)
  next
    case (Cons v rest)
    obtain r v' ch where "send_poll (tk_chan e) i (T i) (Some v) = Some (r, v', ch)"
      by (cases "send_poll (tk_chan e) i (T i) (Some v)") (auto simp: send_poll_def)
    with ready Cons show ?thesis by (blast intro: task_step.send)
  qed
  have rx: "\<exists>e'. task_step T R e e'" if "rx_ready e"
  proof -
    obtain r ch where "recv_poll (tk_chan e) R = (r, ch)" by (meson surj_pair)
    with that show ?thesis by (blast intro: task_step.recv)
  qed
  show ?thesis
  proof (cases "rx_ready e")
    case False
    then obtain t n where parked: "rx_parked (tk_system e) = Some (t, n)"
      and asleep: "t \<notin> set (drop n (wake_log (tk_chan e)))"
      using go by (auto simp: rx_ready_def split: option.splits)
    then have empty: "len (tk_chan e) = 0" "tx_alive (tk_chan e)"
      using system_okD(8) [OF tasks_okD(1) [OF ok] parked] by (auto simp: rx_waits_def)
    then obtain i where live: "i \<in> live_ids (tk_chan e)" by (auto simp: tx_alive_iff)
    have "tx_ready e i"
    proof (rule ccontr)
      assume "\<not> tx_ready e i"
      then obtain u v m where p: "tx_parked (tk_system e) i = Some (u, v, m)"
        and "u \<notin> set (drop m (wake_log (tk_chan e)))"
        using live by (auto simp: tx_ready_def split: option.splits)
      then have "len (tk_chan e) = ring_size (tk_chan e)"
        using system_okD(6) [OF tasks_okD(1) [OF ok] p] by (auto simp: tx_waits_def)
      then show False using empty(1) tasks_okD(2) [OF ok] by (simp add: ring_ok_def)
    qed
    then show ?thesis by (rule tx)
  qed (rule rx)
qed

lemma tasks_start_ok:
  assumes "chan_reach N S s" and "tx_parked s = Map.empty" and "rx_alive (chan s)"
    and "tx_behind s = []" and "rx_behind s = []" and "\<And>i. todo i \<noteq> [] \<Longrightarrow> i \<in> live_ids (chan s)"
  shows "tasks_ok (sent s) todo (tasks_start s todo)"
  using chan_reach_ok [OF assms(1)] assms(2-6)
  by (simp add: tasks_ok_def tasks_start_def remaining_def)

subsection \<open>The property\<close>

lemma start_weight:
  assumes "tx_parked s = Map.empty"
  shows "tasks_weight (tasks_start s todo) \<le>
    66 * (2 * (\<Sum>i<64. List.length (todo i)) + len (chan s) + card (live_ids (chan s)) + 1) + 65"
proof -
  have "work_left (tasks_start s todo) =
      2 * (\<Sum>i<64. List.length (todo i)) + len (chan s) + card (live_ids (chan s)) + 1"
    using assms by (simp add: work_left_def tasks_start_def remaining_def)
  then show ?thesis using ready_tasks_bound [of "tasks_start s todo"] by (simp add: tasks_weight_def)
qed

text \<open>The bound on the polls, and the state in which no task can run.\<close>

lemma tasks_run_to_end:
  assumes reach: "chan_reach N S s"
    and idle: "tx_parked s = Map.empty" "rx_alive (chan s)" "tx_behind s = []" "rx_behind s = []"
    and todo: "{i. todo i \<noteq> []} \<subseteq> live_ids (chan s)"
    and run: "(task_step T R ^^ n) (tasks_start s todo) e"
  shows "n \<le> 66 * (2 * (\<Sum>i<64. List.length (todo i)) + len (chan s) + card (live_ids (chan s)) + 1) + 65 \<and>
    ((\<nexists>e'. task_step T R e e') \<longrightarrow>
      tk_finished e \<and> live_ids (tk_chan e) = {} \<and>
      received (tk_system e) = sent s @ map snd (tk_accepted e) \<and>
      (\<forall>i. sent_by i (tk_accepted e) = todo i))"
proof -
  have inv: "tasks_ok (sent s) todo e \<and> n + tasks_weight e \<le> tasks_weight (tasks_start s todo)"
  proof (rule run_bounded_by [where r = "task_step T R", OF _ run])
    show "tasks_ok (sent s) todo (tasks_start s todo)" using tasks_start_ok [OF reach idle] todo by blast
  qed (rule task_step_ok)
  then have ok: "tasks_ok (sent s) todo e" by blast
  have "tk_finished e \<and> live_ids (tk_chan e) = {} \<and>
      received (tk_system e) = sent s @ map snd (tk_accepted e) \<and>
      (\<forall>i. sent_by i (tk_accepted e) = todo i)" if stuck: "\<nexists>e'. task_step T R e e'"
  proof -
    have over: "tk_finished e" using some_task_ready [OF ok] stuck by blast
    note end_state = tasks_okD(9) [OF ok over]
    have "remaining e i = []" for i using tasks_okD(4) [OF ok, of i] end_state by blast
    then show ?thesis
      using over end_state tasks_okD(5,6) [OF ok] system_okD(3) [OF tasks_okD(1) [OF ok]]
      by (simp del: contents_Nil)
  qed
  then show ?thesis using inv start_weight [OF idle(1), of todo] by auto
qed

text \<open>
  C4. Tasks that use the channel come to their end. Start, in any reachable state with no future in
  flight, one task per sender that sends its values and drops the sender, and one that receives
  until the end of the stream. Whatever ready task the executor polls next, and however the futures
  are grouped into tasks, the number of polls is bounded; and when no task can run any more, the
  receiver has seen the end of the stream, all senders are gone, the receiver got every value the
  channel accepted, in order, and each sender's values are all among them, in that sender's order.
\<close>

theorem tasks_deliver_everything:
  assumes reach: "chan_reach N S s"
    and idle: "tx_parked s = Map.empty" "rx_alive (chan s)" "tx_behind s = []" "rx_behind s = []"
    and todo: "{i. todo i \<noteq> []} \<subseteq> live_ids (chan s)"
    and run: "(task_step T R ^^ n) (tasks_start s todo) e"
  shows "n \<le> 66 * (2 * (\<Sum>i<64. List.length (todo i)) + len (chan s) + card (live_ids (chan s)) + 1) + 65 \<and>
    ((\<nexists>e'. task_step T R e e') \<longrightarrow>
      tk_finished e \<and> live_ids (tk_chan e) = {} \<and>
      received (tk_system e) = sent s @ map snd (tk_accepted e) \<and>
      (\<forall>i. sent_by i (tk_accepted e) = todo i))"
  by (rule tasks_run_to_end [OF assms])

text \<open>Sender 0 sends two values through a channel of capacity 1, to a receiver in another task.\<close>

lemma tasks_deliver_everything_witness:
  "\<exists>n e. (task_step (\<lambda>_. 3) 5 ^^ n) (tasks_start run0 ((\<lambda>_. [])(0 := [7, 8]))) e \<and>
     tk_finished e \<and> sent_by 0 (tk_accepted e) = [7, 8] \<and>
     received (tk_system e) = map snd (tk_accepted e)"
proof -
  let ?todo = "(\<lambda>_ :: nat. [])(0 := [7, 8 :: nat])"
  have idle: "tx_parked run0 = Map.empty" "rx_alive (chan run0)" "tx_behind run0 = []"
    "rx_behind run0 = []" and none: "sent run0 = []"
    by (simp_all add: run_defs)
  have live: "{i. ?todo i \<noteq> []} \<subseteq> live_ids (chan run0)"
    by (auto simp: live_ids_def run_defs bit_simps split: if_splits)
  note all = tasks_deliver_everything [where T = "\<lambda>_. 3" and R = 5 and todo = ?todo, OF run0_reach idle live]
  have "\<exists>n e. (task_step (\<lambda>_. 3) 5 ^^ n) (tasks_start run0 ?todo) e \<and> (\<nexists>e'. task_step (\<lambda>_. 3) 5 e e')"
    by (rule bounded_run_stops [OF all [THEN conjunct1]])
  then obtain n e where run: "(task_step (\<lambda>_. 3) 5 ^^ n) (tasks_start run0 ?todo) e"
    and stuck: "\<nexists>e'. task_step (\<lambda>_. 3) 5 e e'" by (elim exE conjE)
  note final = all [OF run, THEN conjunct2, THEN mp, OF stuck]
  have "sent_by 0 (tk_accepted e) = ?todo 0" using final by (elim conjE) (drule spec [where x = 0], assumption)
  moreover have "tk_finished e" using final by (rule conjunct1)
  moreover have "received (tk_system e) = sent run0 @ map snd (tk_accepted e)"
    using final by (elim conjE)
  ultimately show ?thesis using run none by (intro exI conjI) simp_all
qed

end
