(* ===== verification/Quoter_Server.thy ===== *)
theory Quoter_Server
  imports Market_Objects Engine_Config
begin

text \<open>
  \<open>quoter-grpc-server/src/lib.rs\<close> and \<open>objs/internal-objects/src/lib.rs\<close>: the task that turns
  broadcast quotes into gRPC responses. tokio's broadcast stream and mpsc channel are arguments:
  what the stream yields, and for each send whether the client's channel took the response.
\<close>

record deal =
  de_p :: f64
  de_q :: f64
  de_l :: u8

text \<open>The arrays of ten deals are lists.\<close>

record deals =
  ds_asks :: "deal list"
  ds_bids :: "deal list"

record quote =
  qt_spread :: f64
  qt_ask_deals :: "deal list"
  qt_bid_deals :: "deal list"

text \<open>The generated protobuf messages \<open>pb::Deal\<close> and \<open>pb::QuoterResponse\<close>.\<close>

record pb_deal =
  pd_location :: i32
  pd_price :: f64
  pd_quantity :: f64

record quoter_response =
  qr_spread :: i32
  qr_ask_deals :: "pb_deal list"
  qr_bid_deals :: "pb_deal list"

definition pb_deal_of :: "deal \<Rightarrow> pb_deal" where
  "pb_deal_of d = \<lparr>pd_location = ucast (de_l d), pd_price = de_p d, pd_quantity = de_q d\<rparr>"

definition response_of :: "quote \<Rightarrow> quoter_response" where
  "response_of quote =
     \<lparr>qr_spread = f64_to_i32 (qt_spread quote),
      qr_ask_deals = map pb_deal_of (qt_ask_deals quote),
      qr_bid_deals = map pb_deal_of (qt_bid_deals quote)\<rparr>"

text \<open>
  The task's loop over the broadcast stream, whose results so far are a list: \<open>Inl\<close> is a
  \<open>BroadcastStreamRecvError\<close> (the receiver lagged). After them the stream is at its end when every
  broadcast sender is gone; otherwise \<open>sender_alive\<close> holds and the task waits for the next quote.
  \<open>took k\<close> says whether the k-th send succeeded. The result is the responses queued for the client and
  whether the task still runs, which keeps the channel to the client open.
\<close>

fun quote_loop :: "('e + quote) list \<Rightarrow> bool \<Rightarrow> (nat \<Rightarrow> bool) \<Rightarrow> quoter_response list \<times> bool" where
  "quote_loop [] sender_alive took = ([], sender_alive)"
| "quote_loop (Inr quote # rest) sender_alive took =
     (if took 0
      then (case quote_loop rest sender_alive (\<lambda>k. took (Suc k)) of
              (queued, runs) \<Rightarrow> (response_of quote # queued, runs))
      else ([], False))"
| "quote_loop (Inl e # rest) sender_alive took = ([], False)"

text \<open>
  A stream of messages, item by item: it has some messages and then goes on as \<open>rest\<close>. The
  \<open>ReceiverStream\<close> of the task's channel has what was queued; then it waits while the task holds the
  sending end, and ends when the task is over.
\<close>

definition stream_of ::
  "'r list \<Rightarrow> ('s + 'r) option run \<Rightarrow> nat \<Rightarrow> ('s + 'r) option run" where
  "stream_of items rest k = (if k < List.length items then Returns (Some (Inr (items ! k))) else rest)"

definition receiver_stream :: "'r list \<times> bool \<Rightarrow> nat \<Rightarrow> ('s + 'r) option run" where
  "receiver_stream task = stream_of (fst task) (if snd task then Runs_On else Returns None)"

subsection \<open>The service\<close>

text \<open>
  The server owns a broadcast sender, so a subscription stays open while it serves. \<open>subscribe\<close> is
  what the client's broadcast stream yields, and whether a sender is alive after that.
\<close>

record 'b order_book_quoter_server =
  oq_quote_broadcaster :: 'b

definition order_book_quoter_server_new :: "'b \<Rightarrow> 'b order_book_quoter_server" where
  "order_book_quoter_server_new quote_broadcaster = \<lparr>oq_quote_broadcaster = quote_broadcaster\<rparr>"

definition server_streaming_quoter ::
  "('b \<Rightarrow> ('e + quote) list \<times> bool) \<Rightarrow> (nat \<Rightarrow> bool) \<Rightarrow> 'b order_book_quoter_server \<Rightarrow>
   's + (nat \<Rightarrow> ('s + quoter_response) option run)" where
  "server_streaming_quoter subscribe took this =
     (case subscribe (oq_quote_broadcaster this) of
        (results, sender_alive) \<Rightarrow> Inr (receiver_stream (quote_loop results sender_alive took)))"

text \<open>
  \<open>run_server\<close>: name resolution and tonic's \<open>serve\<close> are arguments. An address that does not
  resolve, resolves to nothing, or cannot be served panics.
\<close>

definition run_server ::
  "(string \<Rightarrow> 'e + 'addr list) \<Rightarrow> ('b order_book_quoter_server \<Rightarrow> 'addr \<Rightarrow> ('t + unit) run) \<Rightarrow>
   config \<Rightarrow> 'b \<Rightarrow> unit run" where
  "run_server to_socket_addrs serve config quotes_producer =
     then_run (unwrap (to_socket_addrs (gc_host_uri (cf_grpc_server config))))
       (\<lambda>addrs. case addrs of
          [] \<Rightarrow> Panics
        | addr # _ \<Rightarrow> then_run (serve (order_book_quoter_server_new quotes_producer) addr) unwrap)"

text \<open>The server returns only when its address resolves and serving it came to an end without error.\<close>

lemma run_server_returns:
  "run_server to_socket_addrs serve config quotes_producer = Returns u \<longleftrightarrow>
    (\<exists>addr rest. to_socket_addrs (gc_host_uri (cf_grpc_server config)) = Inr (addr # rest) \<and>
      serve \<lparr>oq_quote_broadcaster = quotes_producer\<rparr> addr = Returns (Inr u))"
proof (cases "to_socket_addrs (gc_host_uri (cf_grpc_server config))")
  case (Inr addrs)
  then show ?thesis
    by (cases addrs) (auto simp: run_server_def order_book_quoter_server_new_def then_run_Returns)
qed (simp add: run_server_def)

subsection \<open>What a client receives\<close>

lemma trunc_below_one: "\<bar>r\<bar> < 1 \<Longrightarrow> trunc_rat r = 0"
  by (auto simp: trunc_rat_def floor_eq_iff abs_if split: if_splits)

lemma sint_word_of_int_in_range:
  "- (2 ^ 31) \<le> i \<Longrightarrow> i \<le> 2 ^ 31 - 1 \<Longrightarrow> sint (word_of_int i :: i32) = i"
  by (simp add: signed_of_int signed_take_bit_int_eq_self_iff)

lemma f64_to_i32_truncates:
  assumes "\<bar>r\<bar> < 2 ^ 31"
  shows "sint (f64_to_i32 (F64_Fin r)) = (if r < 0 then \<lceil>r\<rceil> else \<lfloor>r\<rfloor>)"
proof -
  have t: "trunc_rat r = (if r < 0 then \<lceil>r\<rceil> else \<lfloor>r\<rfloor>)" by (simp add: trunc_rat_def ceiling_def)
  have "- (2 ^ 31) \<le> trunc_rat r" "trunc_rat r \<le> 2 ^ 31 - 1"
    using assms unfolding t by (auto simp: abs_if le_floor_iff floor_le_iff le_ceiling_iff ceiling_le_iff split: if_splits)
  then show ?thesis unfolding t [symmetric]
    by (simp add: f64_to_i32_def sint_word_of_int_in_range)
qed

text \<open>The results before the first error of the broadcast stream.\<close>

fun before_error :: "('e + quote) list \<Rightarrow> quote list" where
  "before_error (Inr q # rest) = q # before_error rest"
| "before_error _ = []"

lemma quote_loop_result:
  "quote_loop results sender_alive took =
     (map response_of (map fst (takeWhile snd (zip (before_error results)
        (map took [0..<List.length (before_error results)])))),
      sender_alive \<and> List.length (before_error results) = List.length results \<and>
        list_all took [0..<List.length results])"
proof (induction results sender_alive took rule: quote_loop.induct)
  case (2 quote rest sender_alive took)
  have "map took [0..<Suc (List.length (before_error rest))] =
      took 0 # map (\<lambda>k. took (Suc k)) [0..<List.length (before_error rest)]"
    by (simp only: upt_conv_Cons [OF zero_less_Suc] list.map map_Suc_upt [symmetric] map_map o_def)
  moreover have "list_all took [0..<Suc (List.length rest)] \<longleftrightarrow>
      took 0 \<and> list_all (\<lambda>k. took (Suc k)) [0..<List.length rest]"
    by (simp only: upt_conv_Cons [OF zero_less_Suc] list.pred_inject map_Suc_upt [symmetric] list.pred_map o_def)
  ultimately show ?case using 2 by (simp del: upt_Suc)
qed simp_all

lemma quote_loop_all:
  "quote_loop results sender_alive (\<lambda>_. True) =
    (map response_of (before_error results),
     sender_alive \<and> List.length (before_error results) = List.length results)"
proof -
  have "map fst (takeWhile snd (zip xs (map (\<lambda>_. True) [0..<List.length xs]))) = xs" for xs :: "quote list"
    by (subst takeWhile_eq_all_conv [THEN iffD2]) (auto simp: set_zip)
  then show ?thesis by (simp add: quote_loop_result list_all_iff)
qed

lemma location_widens: "sint (ucast (l :: u8) :: i32) = uint l"
proof -
  have "uint l < 2 ^ 31" using uint_lt2p [of l] by simp
  moreover have "- (2 ^ 31) \<le> uint l" by (rule order_trans [OF _ uint_nonnegative]) simp
  ultimately show ?thesis by (simp add: sint_uint uint_up_ucast is_up signed_take_bit_int_eq_self_iff)
qed

text \<open>
  C40. A client receives the responses of the quotes in order, up to the first quote its channel
  does not take or the first error of the broadcast stream: a receiver that lags once gets
  nothing any more, and its task ends; without either the task goes on as long as a broadcast
  sender lives. A response keeps the price and the quantity of every deal of both sides, and the
  location as a number. The spread is truncated towards zero: every spread between minus one and
  one is served as zero, and minus two and a half as minus two.
\<close>

theorem client_receives_prefix:
  "quote_loop results sender_alive took =
     (map response_of (map fst (takeWhile snd (zip (before_error results)
        (map took [0..<List.length (before_error results)])))),
      sender_alive \<and> List.length (before_error results) = List.length results \<and>
        list_all took [0..<List.length results]) \<and>
   map (\<lambda>d. (pd_price d, pd_quantity d, sint (pd_location d))) (qr_ask_deals (response_of quote)) =
     map (\<lambda>d. (de_p d, de_q d, uint (de_l d))) (qt_ask_deals quote) \<and>
   map (\<lambda>d. (pd_price d, pd_quantity d, sint (pd_location d))) (qr_bid_deals (response_of quote)) =
     map (\<lambda>d. (de_p d, de_q d, uint (de_l d))) (qt_bid_deals quote) \<and>
   (qt_spread quote = F64_Fin r \<and> \<bar>r\<bar> < 2 ^ 31 \<longrightarrow>
      sint (qr_spread (response_of quote)) = (if r < 0 then \<lceil>r\<rceil> else \<lfloor>r\<rfloor>))"
proof (intro conjI impI)
  assume "qt_spread quote = F64_Fin r \<and> \<bar>r\<bar> < 2 ^ 31"
  then show "sint (qr_spread (response_of quote)) = (if r < 0 then \<lceil>r\<rceil> else \<lfloor>r\<rfloor>)"
    by (simp only: response_of_def quoter_response.select_convs f64_to_i32_truncates)
qed (simp_all only: quote_loop_result response_of_def quoter_response.select_convs pb_deal_of_def map_map o_def
    pb_deal.select_convs location_widens)

text \<open>A merged book with a negative spread, and a client that does not take a third response.\<close>

definition crossed_quote :: quote where
  "crossed_quote = \<lparr>qt_spread = F64_Fin (- 5 / 2),
     qt_ask_deals = [\<lparr>de_p = F64_Fin 1, de_q = F64_Fin 2, de_l = 1\<rparr>],
     qt_bid_deals = [\<lparr>de_p = F64_Fin (7 / 2), de_q = F64_Fin 4, de_l = 200\<rparr>]\<rparr>"

lemma floor_two_and_half: "\<lfloor>5 / 2 :: rat\<rfloor> = 2"
  by (simp add: floor_eq_iff)

lemma client_receives_prefix_witness:
  "quote_loop [Inr crossed_quote, Inr crossed_quote, Inr crossed_quote, Inl ()] True (\<lambda>k. k < 2) =
     ([response_of crossed_quote, response_of crossed_quote], False) \<and>
   sint (qr_spread (response_of crossed_quote)) = - 2 \<and>
   map (\<lambda>d. (pd_price d, pd_quantity d, sint (pd_location d))) (qr_bid_deals (response_of crossed_quote)) =
     [(F64_Fin (7 / 2), F64_Fin 4, 200)]"
  using floor_two_and_half client_receives_prefix [of "[Inr crossed_quote, Inr crossed_quote, Inr crossed_quote, Inl ()]" True
      "\<lambda>k. k < 2" crossed_quote "- 5 / 2"]
  by (simp add: crossed_quote_def ceiling_def upt_conv_Cons)

end
