(* ===== verification/Quoter_Main.thy ===== *)
theory Quoter_Main
  imports Driver_Tasks Quoter_Server
begin

text \<open>
  \<open>bin/orderbook-quoter-server/src/main.rs\<close>: the configuration, the four threads, and the task of
  the websocket thread that runs the depth driver. \<open>OrderBook::new\<close> with the quote channel,
  \<open>process_all_depths\<close>, \<open>package_deals\<close> and the driver's \<open>build_orderbook\<close> are not in the
  repository: they are arguments. Pinning a thread to a core is left out, looking the core up is not.
\<close>

subsection \<open>The websocket task\<close>

text \<open>
  The part of the task before \<open>build_orderbook\<close>: after a successful connect the exchanges are
  closed, and the results of closing and subscribing are dropped.
\<close>

definition ws_start ::
  "('j \<Rightarrow> string) \<Rightarrow> (json \<Rightarrow> string) \<Rightarrow> 'w driver_world \<Rightarrow> (nat \<Rightarrow> string + unit) \<Rightarrow>
   ('sl, 'pool, 'w) depth_driver \<Rightarrow> ('sl, 'pool, 'w) depth_driver option" where
  "ws_start show_json to_string world closes driver =
     (case driver_websocket_connect show_json (dw_conns world) driver of
        None \<Rightarrow> None
      | Some (Inl stream_error, _) \<Rightarrow> None
      | Some (Inr _, connected_driver) \<Rightarrow>
          (case driver_close_exchanges closes connected_driver of
             None \<Rightarrow> None
           | Some (_, closed_driver) \<Rightarrow>
               map_option snd (driver_subscribe_depths show_json to_string (dw_sents world) closed_driver)))"

text \<open>
  The streams run on the pool and the channel that \<open>DepthDriver::new\<close> made: nothing before them
  touches either. \<open>schedule\<close> is what the runtime and the sockets do during \<open>run_streams\<close>.
\<close>

definition ws_task ::
  "('d, 'sl, 'pool, 'j) env \<Rightarrow> ('pool \<Rightarrow> 'sl set) \<Rightarrow> (json \<Rightarrow> string) \<Rightarrow> (u64 \<Rightarrow> 'pool) \<Rightarrow>
   (exchange_config \<Rightarrow> 'sl list \<Rightarrow> 'pool \<Rightarrow> unit \<Rightarrow> 'j exchange_stream_error + ('sl, 'pool, 'w) exchange) \<Rightarrow>
   (('sl, 'pool, 'w) depth_driver \<Rightarrow> ('sl, 'pool, 'w) depth_driver run) \<Rightarrow>
   'w driver_world \<Rightarrow> (nat \<Rightarrow> ('sl, 'w) stream_event) \<Rightarrow>
   (nat \<Rightarrow> string + unit) \<Rightarrow> (nat \<Rightarrow> string + unit) \<Rightarrow> config \<Rightarrow> unit run" where
  "ws_task X live to_string with_capacity new_exchange driver_build world schedule closes closes' config =
     then_run (unwrap (driver_new (json_display X) with_capacity new_exchange (cf_exchanges config) ()))
       (\<lambda>(depth_driver, depth_consumer).
          case ws_start (json_display X) to_string world closes depth_driver of
            None \<Rightarrow> Panics
          | Some driver \<Rightarrow>
              then_run (driver_build driver)
                (\<lambda>driver. case driver_run_streams X live schedule (share_pool driver depth_consumer) of
                     None \<Rightarrow> Runs_On
                   | Some (Inl stream_error, _) \<Rightarrow> Panics
                   | Some (Inr _, s) \<Rightarrow>
                       (case driver_close_exchanges closes'
                               \<lparr>dd_pool = sd_pool s, dd_exchanges = sd_exchanges s\<rparr> of
                          None \<Rightarrow> Panics
                        | Some _ \<Rightarrow> Returns ())))"

subsection \<open>The threads and the process\<close>

text \<open>A task whose handle is not looked at: its panic stays in the handle and the runtime ends.\<close>

definition detached :: "unit run \<Rightarrow> unit run" where
  "detached task = (if task = Runs_On then Runs_On else Returns ())"

definition package_thread :: "('e + unit) run \<Rightarrow> unit run" where
  "package_thread package_deals = then_run package_deals unwrap"

text \<open>
  The four threads run at once; each is given by how it ends. The main thread needs three core
  ids, and joins the threads without looking at how they ended.
\<close>

definition orderbook_quoter_server ::
  "nat list option \<Rightarrow> (orderbook_config \<Rightarrow> 'ob run) \<Rightarrow> ('ob \<Rightarrow> unit run) \<Rightarrow> ('ob \<Rightarrow> ('e + unit) run) \<Rightarrow>
   (config \<Rightarrow> unit run) \<Rightarrow> (config \<Rightarrow> unit run) \<Rightarrow> config \<Rightarrow> ('x + unit) run" where
  "orderbook_quoter_server core_ids new_orderbook process_all_depths package_deals grpc ws config =
     (case core_ids of
        None \<Rightarrow> Panics
      | Some ids \<Rightarrow>
          then_run (new_orderbook (cf_orderbook config))
            (\<lambda>orderbook.
               if List.length ids < 3 then Panics
               else
                 let t1 = process_all_depths orderbook;
                     t2 = package_thread (package_deals orderbook);
                     t3 = detached (grpc config);
                     t4 = detached (ws config)
                 in if Runs_On \<in> set [t1, t2, t3, t4] then Runs_On else Returns (Inr ())))"

definition quoter_main ::
  "string option \<Rightarrow> (string \<Rightarrow> 'e + config) \<Rightarrow> (config \<Rightarrow> ('x + unit) run) \<Rightarrow> unit run" where
  "quoter_main config_arg read_config server =
     (let config_path = (case config_arg of None \<Rightarrow> ''/etc/config.yaml'' | Some path \<Rightarrow> path)
      in then_run (unwrap (read_config config_path))
           (\<lambda>config. then_run (server config) (\<lambda>res. Returns ())))"

text \<open>
  The process ends normally exactly when the four threads come to an end, even if all of them
  panicked, and never because of an error of the server.
\<close>

lemma quoter_main_returns:
  fixes read_config :: "string \<Rightarrow> 'e + config" and package_deals :: "'ob \<Rightarrow> ('p + unit) run"
  shows "quoter_main config_arg read_config
      (orderbook_quoter_server core_ids new_orderbook process_all_depths package_deals grpc ws
        :: config \<Rightarrow> ('x + unit) run) = Returns () \<longleftrightarrow>
    (\<exists>config ids orderbook. read_config (case_option ''/etc/config.yaml'' id config_arg) = Inr config \<and>
      core_ids = Some ids \<and> 3 \<le> List.length ids \<and> new_orderbook (cf_orderbook config) = Returns orderbook \<and>
      process_all_depths orderbook \<noteq> Runs_On \<and> package_deals orderbook \<noteq> Runs_On \<and>
      grpc config \<noteq> Runs_On \<and> ws config \<noteq> Runs_On)"
proof -
  have [simp]: "Runs_On \<noteq> detached r \<longleftrightarrow> r \<noteq> Runs_On" for r
    by (auto simp: detached_def)
  have [simp]: "Runs_On \<noteq> package_thread r \<longleftrightarrow> r \<noteq> Runs_On" for r :: "('p + unit) run"
    by (cases r) (auto simp: package_thread_def)
  show ?thesis
    by (cases core_ids; cases config_arg)
      (auto simp: quoter_main_def orderbook_quoter_server_def then_run_Returns Let_def)
qed

subsection \<open>Properties\<close>

lemma connect_op_sink:
  "connect_op show_json conns i ex = Some (Inr u, ex') \<Longrightarrow>
    \<exists>sink events. conns i = Inr (sink, events) \<and> ex_ws_sink ex' = Some sink"
  by (auto simp: connect_op_def exchange_start_def stream_start_def convert_error_def
      split: sum.splits prod.splits)

definition after_close :: "('sl, 'pool, 'w) exchange \<Rightarrow> ('sl, 'pool, 'w) exchange" where
  "after_close ex = ex\<lparr>ex_ws_sink := Some (the (ex_ws_sink ex) @ [Close])\<rparr>"

lemma close_all:
  assumes "\<forall>ex \<in> set (dd_exchanges d). ex_ws_sink ex \<noteq> None" and "\<And>i. closes i = Inr ()"
  shows "driver_close_exchanges closes d =
    Some (Inr (), d\<lparr>dd_exchanges := map after_close (dd_exchanges d)\<rparr>)"
proof -
  have "for_each (close_op closes) 0 (dd_exchanges d) = Some (Inr (), map after_close (dd_exchanges d))"
  proof (rule for_each_intro)
    fix j assume j: "j < List.length (dd_exchanges d)"
    then have "ex_ws_sink (dd_exchanges d ! j) \<noteq> None" using assms(1) by simp
    then show "close_op closes (0 + j) (dd_exchanges d ! j) = Some (Inr (), map after_close (dd_exchanges d) ! j)"
      using j assms(2) by (auto simp: close_op_def exchange_close_def after_close_def)
  qed simp
  then show ?thesis by (simp add: driver_close_exchanges_def over_exchanges_some)
qed

text \<open>A sink that has been closed refuses the subscription, and the stage reports success all the same.\<close>

lemma subscribe_refused:
  assumes refuses: "\<And>i. refuses_after_close (sents i)"
    and closed: "\<forall>ex \<in> set (dd_exchanges d). \<exists>sink. ex_ws_sink ex = Some sink \<and> Close \<in> set sink"
  shows "driver_subscribe_depths show_json to_string sents d = Some (Inr (), d)"
proof -
  have "for_each (subscribe_op show_json to_string sents) 0 (dd_exchanges d) = Some (Inr (), dd_exchanges d)"
  proof (rule for_each_intro)
    fix j assume j: "j < List.length (dd_exchanges d)"
    then obtain sink where sink: "ex_ws_sink (dd_exchanges d ! j) = Some sink" "Close \<in> set sink"
      using closed by fastforce
    then have "isl (sents j sink)" using refuses [of j] by (simp add: refuses_after_close_def)
    then show "subscribe_op show_json to_string sents (0 + j) (dd_exchanges d ! j) =
        Some (Inr (), dd_exchanges d ! j)"
      using sink by (cases "sents j sink")
        (simp_all add: subscribe_op_def exchange_subscribe_orderbooks_def convert_error_def)
  qed simp
  then show ?thesis by (simp add: driver_subscribe_depths_def over_exchanges_some)
qed

text \<open>Connecting all exchanges gives each the sink of its connection.\<close>

lemma connect_all:
  assumes "driver_websocket_connect show_json conns d = Some (Inr u, d')"
  shows "List.length (dd_exchanges d') = List.length (dd_exchanges d) \<and>
    (\<forall>i < List.length (dd_exchanges d).
      \<exists>sink events. conns i = Inr (sink, events) \<and> ex_ws_sink (dd_exchanges d' ! i) = Some sink)"
proof -
  obtain exs where run: "for_each (connect_op show_json conns) 0 (dd_exchanges d) = Some (Inr u, exs)"
    and d': "d' = d\<lparr>dd_exchanges := exs\<rparr>"
    using assms by (auto simp: driver_websocket_connect_def over_exchanges_some)
  show ?thesis
    using connect_stage.for_each_ok [OF run] connect_op_sink [of show_json conns] d' by fastforce
qed

lemma driver_new_length:
  "driver_new show_json with_capacity new_exchange configs watch = Inr (d, depths) \<Longrightarrow>
    List.length (dd_exchanges d) = List.length configs"
  by (auto simp: driver_new_def Let_def new_exchanges_ok list_all2_lengthD split: sum.splits)

lemma stage_length:
  assumes "over_exchanges op d = Some (r, d')"
  shows "List.length (dd_exchanges d') = List.length (dd_exchanges d)"
proof -
  have "List.length xs' = List.length xs" if "for_each op i xs = Some (r, xs')" for i xs xs'
    using that by (induction xs arbitrary: i xs')
      (auto split: option.splits sum.splits prod.splits)
  then show ?thesis using assms by (auto simp: over_exchanges_some)
qed

lemma ws_start_length:
  "ws_start show_json to_string world closes d = Some d' \<Longrightarrow>
    List.length (dd_exchanges d') = List.length (dd_exchanges d)"
  by (auto simp: ws_start_def driver_websocket_connect_def driver_close_exchanges_def
      driver_subscribe_depths_def dest!: stage_length split: option.splits sum.splits)

lemma ws_task_returns:
  assumes "ws_task X live to_string with_capacity new_exchange build world schedule closes closes' config = Returns ()"
  shows "\<exists>d depths d' e s.
    driver_new (json_display X) with_capacity new_exchange (cf_exchanges config) () = Inr (d, depths) \<and>
    ws_start (json_display X) to_string world closes d = Some d' \<and> build d' = Returns e \<and>
    driver_run_streams X live schedule (share_pool e depths) = Some (Inr (), s)"
  using assms by (auto simp: ws_task_def then_run_Returns split: prod.split_asm)

text \<open>
  C38. The websocket task of the quoter server closes what it has just connected. Let every exchange
  have been connected and every close frame been taken; a socket refuses what is sent after its close
  frame, as tungstenite documents. Then no exchange is subscribed: each sink ends with the close frame
  and \<open>subscribe_depths\<close> changes nothing, yet returns \<open>Ok\<close>, and the task goes on to \<open>build_orderbook\<close>
  and the streams. Moreover, whatever the sockets answer to any of this, with an exchange configured
  and a \<open>build_orderbook\<close> that does not remove the exchanges the task never comes to its end under any
  schedule: it panics, or its streams run for ever.
\<close>

theorem socket_task_closes_then_subscribes:
  fixes X :: "('d, 'sl, 'pool, 'j) env" and world :: "'w driver_world"
  assumes configured: "cf_exchanges config \<noteq> []"
    and new: "driver_new (json_display X) with_capacity new_exchange (cf_exchanges config) () = Inr (d, depths)"
    and build: "\<And>e e'. build e = Returns e' \<Longrightarrow> List.length (dd_exchanges e') = List.length (dd_exchanges e)"
  shows "(\<forall>u d1. driver_websocket_connect (json_display X) (dw_conns world) d = Some (Inr u, d1) \<and>
        (\<forall>i. closes i = Inr ()) \<and> (\<forall>i. refuses_after_close (dw_sents world i)) \<longrightarrow>
      (\<exists>d2. driver_close_exchanges closes d1 = Some (Inr (), d2) \<and>
        driver_subscribe_depths (json_display X) to_string (dw_sents world) d2 = Some (Inr (), d2) \<and>
        ws_start (json_display X) to_string world closes d = Some d2 \<and>
        (\<forall>i < List.length (cf_exchanges config). \<exists>sink events. dw_conns world i = Inr (sink, events) \<and>
          ex_ws_sink (dd_exchanges d2 ! i) = Some (sink @ [Close])))) \<and>
    ws_task X live to_string with_capacity new_exchange build world schedule closes closes' config \<noteq> Returns ()"
proof
  have len: "List.length (dd_exchanges d) = List.length (cf_exchanges config)"
    using new by (rule driver_new_length)
  show "\<forall>u d1. driver_websocket_connect (json_display X) (dw_conns world) d = Some (Inr u, d1) \<and>
        (\<forall>i. closes i = Inr ()) \<and> (\<forall>i. refuses_after_close (dw_sents world i)) \<longrightarrow>
      (\<exists>d2. driver_close_exchanges closes d1 = Some (Inr (), d2) \<and>
        driver_subscribe_depths (json_display X) to_string (dw_sents world) d2 = Some (Inr (), d2) \<and>
        ws_start (json_display X) to_string world closes d = Some d2 \<and>
        (\<forall>i < List.length (cf_exchanges config). \<exists>sink events. dw_conns world i = Inr (sink, events) \<and>
          ex_ws_sink (dd_exchanges d2 ! i) = Some (sink @ [Close])))"
  proof (intro allI impI, elim conjE)
    fix u d1
    assume conn: "driver_websocket_connect (json_display X) (dw_conns world) d = Some (Inr u, d1)"
      and closes: "\<forall>i. closes i = Inr ()" and refuses: "\<forall>i. refuses_after_close (dw_sents world i)"
    let ?d2 = "d1\<lparr>dd_exchanges := map after_close (dd_exchanges d1)\<rparr>"
    note c = connect_all [OF conn]
    have "\<forall>ex \<in> set (dd_exchanges d1). ex_ws_sink ex \<noteq> None"
      using c by (fastforce simp: in_set_conv_nth)
    then have close: "driver_close_exchanges closes d1 = Some (Inr (), ?d2)" by (rule close_all) (use closes in simp)
    have sub: "driver_subscribe_depths (json_display X) to_string (dw_sents world) ?d2 = Some (Inr (), ?d2)"
      by (rule subscribe_refused) (use refuses in \<open>auto simp: after_close_def\<close>)
    have "ws_start (json_display X) to_string world closes d = Some ?d2"
      by (simp add: ws_start_def conn close sub)
    moreover have "\<forall>i < List.length (cf_exchanges config). \<exists>sink events.
        dw_conns world i = Inr (sink, events) \<and> ex_ws_sink (dd_exchanges ?d2 ! i) = Some (sink @ [Close])"
      using c len by (fastforce simp: after_close_def)
    ultimately show "\<exists>d2. driver_close_exchanges closes d1 = Some (Inr (), d2) \<and>
        driver_subscribe_depths (json_display X) to_string (dw_sents world) d2 = Some (Inr (), d2) \<and>
        ws_start (json_display X) to_string world closes d = Some d2 \<and>
        (\<forall>i < List.length (cf_exchanges config). \<exists>sink events. dw_conns world i = Inr (sink, events) \<and>
          ex_ws_sink (dd_exchanges d2 ! i) = Some (sink @ [Close]))"
      using close sub by blast
  qed
  show "ws_task X live to_string with_capacity new_exchange build world schedule closes closes' config \<noteq> Returns ()"
  proof
    assume "ws_task X live to_string with_capacity new_exchange build world schedule closes closes' config = Returns ()"
    from ws_task_returns [OF this] obtain d' e s where
      "ws_start (json_display X) to_string world closes d = Some d'" "build d' = Returns e"
      "driver_run_streams X live schedule (share_pool e depths) = Some (Inr (), s)" using new by auto
    moreover from this have "List.length (dd_exchanges e) = List.length (cf_exchanges config)"
      using ws_start_length [of "json_display X" to_string world closes d d'] build [of d' e] len by simp
    then have "sd_exchanges (share_pool e depths) \<noteq> []"
      using configured by (cases "dd_exchanges e") (simp_all add: share_pool_def)
    ultimately show False using run_streams_error by blast
  qed
qed

text \<open>A quoter server with one exchange, whose socket connects, takes the close frame and stays quiet.\<close>

definition one_exchange :: config where
  "one_exchange = \<lparr>cf_io_thread_percentage = F64_Fin 0, cf_exchanges = [sample_config 1],
     cf_orderbook = orderbook_config_default, cf_grpc_server = \<lparr>gc_host_uri = ''[::1]:9090''\<rparr>\<rparr>"

definition quiet_world :: "string driver_world" where
  "quiet_world = \<lparr>dw_conns = (\<lambda>_. Inr ([], [])),
     dw_sents = (\<lambda>_ sink. if Close \<in> set sink then Inl ''Sending after closing is not allowed'' else Inr ()),
     dw_answers = (\<lambda>_. sample_answer ''ab''), dw_sync_inputs = (\<lambda>_ _. (Inr True, []))\<rparr>"

definition pooled_exchange ::
  "exchange_config \<Rightarrow> nat list \<Rightarrow> nat \<times> nat list \<Rightarrow> unit \<Rightarrow>
   string exchange_stream_error + (nat, nat \<times> nat list, string) exchange" where
  "pooled_exchange config depths pool watch = exchange_new (\<lambda>_ _. pool) config 0 10 depths watch (Inr ())"

lemma socket_task_closes_then_subscribes_witness:
  "(\<exists>d d'. driver_new (json_display the_env) (\<lambda>c. (unat c, [])) pooled_exchange (cf_exchanges one_exchange) () =
       (Inr (d, []) :: string error_initial_state + _) \<and>
     ws_start (json_display the_env) (\<lambda>_. ''sub'') quiet_world (\<lambda>_. Inr ()) d = Some d' \<and>
     ex_ws_sink (dd_exchanges d' ! 0) = Some [Close]) \<and>
   ws_task the_env sample_live (\<lambda>_. ''sub'') (\<lambda>c. (unat c, [])) pooled_exchange Returns quiet_world
     (\<lambda>_. Poll 0 (Inr True, [])) (\<lambda>_. Inr ()) (\<lambda>_. Inr ()) one_exchange \<noteq> Returns ()"
proof -
  obtain d where new: "driver_new (json_display the_env) (\<lambda>c. (unat c, [])) pooled_exchange
      (cf_exchanges one_exchange) () = (Inr (d, []) :: string error_initial_state + _)"
    and one: "dd_exchanges d = [hd (dd_exchanges d)]"
    unfolding driver_new_def pooled_exchange_def exchange_new_def pool_capacity_cases
    by (force simp: one_exchange_def exchange_stream_new_def sample_config_def Let_def)
  have conn: "driver_websocket_connect (json_display the_env) (dw_conns quiet_world) d =
      Some (Inr (), d\<lparr>dd_exchanges := [(hd (dd_exchanges d))\<lparr>ex_inner := (ex_inner (hd (dd_exchanges d)))
        \<lparr>es_ws_connection_orderbook_reader := Some []\<rparr>, ex_ws_sink := Some []\<rparr>]\<rparr>)"
    by (subst driver_websocket_connect_def, subst over_exchanges_some, subst one)
      (simp add: connect_op_def exchange_start_def stream_start_def quiet_world_def convert_error_def)
  have refuses: "refuses_after_close (dw_sents quiet_world i)" for i
    by (simp add: refuses_after_close_def quiet_world_def)
  have "cf_exchanges one_exchange \<noteq> []" "List.length (cf_exchanges one_exchange) = 1"
    by (simp_all add: one_exchange_def)
  with socket_task_closes_then_subscribes [OF _ new, where build = Returns and world = quiet_world
      and closes = "\<lambda>_. Inr ()" and closes' = "\<lambda>_. Inr ()" and to_string = "\<lambda>_. ''sub''"
      and live = sample_live and schedule = "\<lambda>_. Poll 0 (Inr True, [])"] new conn refuses
  show ?thesis by (fastforce simp: quiet_world_def)
qed

end
