(* ===== verification/Quoter_Threads.thy ===== *)
theory Quoter_Threads
  imports Quoter_Main
begin

text \<open>
  The threads of \<open>orderbook_quoter_server\<close> as they interleave: the main thread looks up the core
  ids, spawns the four threads and joins them in order, while each spawned thread comes to its end
  at any time, if it does. A panic of the main thread ends the process. What the process comes to
  does not depend on the interleaving, and is what \<open>Quoter_Main.orderbook_quoter_server\<close> computes.
\<close>

subsection \<open>The process\<close>

text \<open>What the main thread does after \<open>OrderBook::new\<close>, in order.\<close>

datatype main_action = Core_Id nat | Spawn nat | Join nat

definition main_script :: "main_action list" where
  "main_script =
     [Core_Id 0, Spawn 0, Spawn 1, Core_Id 1, Spawn 2, Core_Id 2, Spawn 3,
      Join 0, Join 1, Join 2, Join 3]"

datatype thread = Not_Spawned | Running | Ended "unit run"

record 'x process =
  pr_script :: "main_action list"
  pr_threads :: "thread list"
  pr_result :: "('x + unit) run option"

definition process_start :: "'x process" where
  "process_start = \<lparr>pr_script = main_script, pr_threads = replicate 4 Not_Spawned, pr_result = None\<rparr>"

inductive process_step :: "nat \<Rightarrow> unit run list \<Rightarrow> 'x process \<Rightarrow> 'x process \<Rightarrow> bool"
  for cores :: nat and ends :: "unit run list" where
  core_id: "pr_result p = None \<Longrightarrow> pr_script p = Core_Id i # rest \<Longrightarrow> i < cores \<Longrightarrow>
    process_step cores ends p (p\<lparr>pr_script := rest\<rparr>)"
| core_id_panics: "pr_result p = None \<Longrightarrow> pr_script p = Core_Id i # rest \<Longrightarrow> cores \<le> i \<Longrightarrow>
    process_step cores ends p (p\<lparr>pr_result := Some Panics\<rparr>)"
| spawn: "pr_result p = None \<Longrightarrow> pr_script p = Spawn t # rest \<Longrightarrow>
    process_step cores ends p (p\<lparr>pr_script := rest, pr_threads := (pr_threads p)[t := Running]\<rparr>)"
| join: "pr_result p = None \<Longrightarrow> pr_script p = Join t # rest \<Longrightarrow> pr_threads p ! t = Ended r \<Longrightarrow>
    process_step cores ends p (p\<lparr>pr_script := rest\<rparr>)"
| return: "pr_result p = None \<Longrightarrow> pr_script p = [] \<Longrightarrow>
    process_step cores ends p (p\<lparr>pr_result := Some (Returns (Inr ()))\<rparr>)"
| thread_ends: "pr_result p = None \<Longrightarrow> t < List.length (pr_threads p) \<Longrightarrow> pr_threads p ! t = Running \<Longrightarrow>
    ends ! t \<noteq> Runs_On \<Longrightarrow>
    process_step cores ends p (p\<lparr>pr_threads := (pr_threads p)[t := Ended (ends ! t)]\<rparr>)"

subsection \<open>Invariant\<close>

definition process_ok :: "nat \<Rightarrow> unit run list \<Rightarrow> 'x process \<Rightarrow> bool" where
  "process_ok cores ends p \<longleftrightarrow> List.length (pr_threads p) = 4 \<and>
     (\<exists>past. main_script = past @ pr_script p \<and>
        (\<forall>i. Core_Id i \<in> set past \<longrightarrow> i < cores) \<and>
        (\<forall>t < 4. pr_threads p ! t = Not_Spawned \<longleftrightarrow> Spawn t \<notin> set past) \<and>
        (\<forall>t < 4. Join t \<in> set past \<longrightarrow> (\<exists>r. pr_threads p ! t = Ended r))) \<and>
     (\<forall>t < 4. \<forall>r. pr_threads p ! t = Ended r \<longrightarrow> ends ! t \<noteq> Runs_On) \<and>
     (case pr_result p of
        None \<Rightarrow> True
      | Some Panics \<Rightarrow> cores < 3
      | Some (Returns x) \<Rightarrow> x = Inr () \<and> pr_script p = []
      | Some Runs_On \<Rightarrow> False)"

definition process_weight :: "'x process \<Rightarrow> nat" where
  "process_weight p = List.length (pr_script p) + (if pr_result p = None then 1 else 0) +
     List.length (filter (\<lambda>t. \<forall>r. t \<noteq> Ended r) (pr_threads p))"

lemma process_start_ok: "process_ok cores ends process_start"
  by (simp add: process_ok_def process_start_def nth_replicate)

lemma script_head:
  assumes "main_script = past @ a # rest"
  shows "a = Core_Id i \<Longrightarrow> i < 3"
    and "a = Spawn t \<Longrightarrow> t < 4 \<and> Spawn t \<notin> set past \<and> Join t \<notin> set past"
    and "a = Join t \<Longrightarrow> t < 4 \<and> (\<forall>u < 4. Spawn u \<in> set past) \<and> Core_Id 2 \<in> set past \<and>
      (\<forall>u < 4. Join u \<in> set past \<longleftrightarrow> u < t)"
  using assms by (auto simp: main_script_def Cons_eq_append_conv)

lemma script_done:
  "main_script = past @ [] \<Longrightarrow> Core_Id 2 \<in> set past \<and> (\<forall>t < 4. Join t \<in> set past)"
  by (auto simp: main_script_def less_Suc_eq numeral_eq_Suc)

lemma ended_update:
  "t < List.length ts \<Longrightarrow> ts ! t = Running \<Longrightarrow>
    List.length (filter (\<lambda>t. \<forall>r. t \<noteq> Ended r) (ts[t := Ended r])) <
    List.length (filter (\<lambda>t. \<forall>r. t \<noteq> Ended r) ts)"
  by (induction ts arbitrary: t) (auto split: nat.splits simp: nth_Cons)

lemma spawned_update:
  "ts ! t = Not_Spawned \<Longrightarrow> List.length (filter (\<lambda>t. \<forall>r. t \<noteq> Ended r) (ts[t := Running])) =
    List.length (filter (\<lambda>t. \<forall>r. t \<noteq> Ended r) ts)"
  by (induction ts arbitrary: t) (auto split: nat.splits)

lemma process_okI:
  assumes "List.length (pr_threads p) = 4" and "main_script = past @ pr_script p"
    and "\<And>i. Core_Id i \<in> set past \<Longrightarrow> i < cores"
    and "\<And>t. t < 4 \<Longrightarrow> pr_threads p ! t = Not_Spawned \<longleftrightarrow> Spawn t \<notin> set past"
    and "\<And>t. t < 4 \<Longrightarrow> Join t \<in> set past \<Longrightarrow> \<exists>r. pr_threads p ! t = Ended r"
    and "\<And>t r. t < 4 \<Longrightarrow> pr_threads p ! t = Ended r \<Longrightarrow> ends ! t \<noteq> Runs_On"
    and "pr_result p = None \<or> pr_result p = Some Panics \<and> cores < 3 \<or>
      pr_result p = Some (Returns (Inr ())) \<and> pr_script p = []"
  shows "process_ok cores ends p"
proof -
  have "case pr_result p of None \<Rightarrow> True | Some Panics \<Rightarrow> cores < 3
      | Some (Returns x) \<Rightarrow> x = Inr () \<and> pr_script p = [] | Some Runs_On \<Rightarrow> False"
    using assms(7) by (elim disjE) simp_all
  with assms(1-6) show ?thesis unfolding process_ok_def by (intro conjI exI [of _ past]) blast+
qed

lemma process_step_ok:
  assumes "process_ok cores ends p" and "process_step cores ends p q"
  shows "process_ok cores ends q \<and> process_weight q < process_weight p"
proof -
  obtain past where len: "List.length (pr_threads p) = 4" and past: "main_script = past @ pr_script p"
    and cores: "\<And>i. Core_Id i \<in> set past \<Longrightarrow> i < cores"
    and spawned: "\<And>t. t < 4 \<Longrightarrow> pr_threads p ! t = Not_Spawned \<longleftrightarrow> Spawn t \<notin> set past"
    and joined: "\<And>t. t < 4 \<Longrightarrow> Join t \<in> set past \<Longrightarrow> \<exists>r. pr_threads p ! t = Ended r"
    and ended: "\<And>t r. t < 4 \<Longrightarrow> pr_threads p ! t = Ended r \<Longrightarrow> ends ! t \<noteq> Runs_On"
    using assms(1) unfolding process_ok_def by blast
  from assms(2) show ?thesis
  proof cases
    case (core_id i rest)
    have "process_ok cores ends q"
      by (rule process_okI [of _ "past @ [Core_Id i]"])
        (use core_id len past cores spawned joined ended in auto)
    then show ?thesis using core_id by (simp add: process_weight_def)
  next
    case (core_id_panics i rest)
    have "cores < 3" using script_head(1) [of past "Core_Id i" rest i] core_id_panics past by simp
    then have "process_ok cores ends q"
      by (intro process_okI [of _ past]) (use core_id_panics len past cores spawned joined ended in auto)
    then show ?thesis using core_id_panics by (simp add: process_weight_def)
  next
    case (spawn t rest)
    have t: "t < 4" "Spawn t \<notin> set past" "Join t \<notin> set past"
      using script_head(2) [of past "Spawn t" rest t] spawn past by simp_all
    have "process_ok cores ends q"
      by (rule process_okI [of _ "past @ [Spawn t]"])
        (use spawn len past cores spawned joined ended t in \<open>auto simp: nth_list_update split: if_splits\<close>)
    then show ?thesis using spawn spawned t by (simp add: process_weight_def spawned_update)
  next
    case (join t rest r)
    have "process_ok cores ends q"
      by (rule process_okI [of _ "past @ [Join t]"])
        (use join len past cores spawned joined ended in auto)
    then show ?thesis using join by (simp add: process_weight_def)
  next
    case return
    have "process_ok cores ends q"
      by (rule process_okI [of _ past]) (use return len past cores spawned joined ended in auto)
    then show ?thesis using return by (simp add: process_weight_def)
  next
    case (thread_ends t)
    have "Spawn t \<in> set past" using thread_ends spawned [of t] len by auto
    then have "process_ok cores ends q"
      by (intro process_okI [of _ past])
        (use thread_ends len past cores spawned joined ended in \<open>auto simp: nth_list_update split: if_splits\<close>)
    then show ?thesis using thread_ends by (simp add: process_weight_def ended_update)
  qed
qed

text \<open>A process that has come to rest without a result waits for a thread that runs on.\<close>

lemma process_stuck:
  assumes ok: "process_ok cores ends p" and stuck: "\<nexists>q. process_step cores ends p q"
    and none: "pr_result p = None"
  shows "3 \<le> cores \<and> (\<exists>t < 4. ends ! t = Runs_On)"
proof -
  obtain past where len: "List.length (pr_threads p) = 4" and past: "main_script = past @ pr_script p"
    and cores: "\<And>i. Core_Id i \<in> set past \<Longrightarrow> i < cores"
    and spawned: "\<And>t. t < 4 \<Longrightarrow> pr_threads p ! t = Not_Spawned \<longleftrightarrow> Spawn t \<notin> set past"
    using ok unfolding process_ok_def by blast
  obtain t rest where t: "pr_script p = Join t # rest"
  proof (cases "pr_script p")
    case Nil
    then show ?thesis using stuck none process_step.return by blast
  next
    case (Cons a rest)
    then show ?thesis
      using stuck none that process_step.core_id process_step.core_id_panics process_step.spawn
      by (cases a) (blast intro: leI)+
  qed
  note h = script_head(3) [of past "Join t" rest t, OF past [unfolded t] HOL.refl]
  have "pr_threads p ! t \<noteq> Not_Spawned" using h spawned by blast
  moreover have "pr_threads p ! t \<noteq> Ended r" for r using stuck none t process_step.join by blast
  ultimately have "pr_threads p ! t = Running" by (cases "pr_threads p ! t") auto
  then have "ends ! t = Runs_On" using stuck none h len process_step.thread_ends [of p t] by auto
  then show ?thesis using h cores [of 2] by auto
qed

lemma process_finished:
  assumes ok: "process_ok cores ends p" and finished: "pr_script p = []"
  shows "3 \<le> cores \<and> (\<forall>t < 4. ends ! t \<noteq> Runs_On)"
proof -
  obtain past where past: "main_script = past @ []" and cores: "\<And>i. Core_Id i \<in> set past \<Longrightarrow> i < cores"
    and joined: "\<And>t. t < 4 \<Longrightarrow> Join t \<in> set past \<Longrightarrow> \<exists>r. pr_threads p ! t = Ended r"
    and ended: "\<And>t r. t < 4 \<Longrightarrow> pr_threads p ! t = Ended r \<Longrightarrow> ends ! t \<noteq> Runs_On"
    using ok finished unfolding process_ok_def by auto
  then show ?thesis using script_done [OF past] cores [of 2] by fastforce
qed

text \<open>
  C19. Every interleaving of the threads comes to rest after at most sixteen steps, and then the process
  has come to what \<open>orderbook_quoter_server\<close> computes: it panics without a third core id, whatever
  the threads do, it waits for ever exactly when some thread runs on, and otherwise returns.
\<close>

theorem threads_refine_server:
  fixes p :: "'x process" and package_deals :: "'ob \<Rightarrow> ('e + unit) run"
  assumes ob: "core_ids = Some ids" "new_orderbook (cf_orderbook config) = Returns orderbook"
    and ends: "ends = [process_all_depths orderbook, package_thread (package_deals orderbook),
      detached (grpc config), detached (ws config)]"
    and run: "(process_step (List.length ids) ends ^^ n) process_start p"
  shows "n \<le> 16 \<and> ((\<nexists>q. process_step (List.length ids) ends p q) \<longrightarrow>
    (case pr_result p of None \<Rightarrow> Runs_On | Some r \<Rightarrow> r) =
      orderbook_quoter_server core_ids new_orderbook process_all_depths package_deals grpc ws config)"
proof -
  let ?n = "List.length ids"
  have four: "List.length ends = 4" by (simp add: ends)
  have "process_ok ?n ends p \<and> n + process_weight p \<le> process_weight (process_start :: 'x process)"
    by (rule run_bounded_by [where ok = "process_ok ?n ends" and r = "process_step ?n ends"
          and weight = process_weight, OF _ run process_start_ok]) (rule process_step_ok)
  then have ok: "process_ok ?n ends p" and "n \<le> process_weight (process_start :: 'x process)" by simp_all
  then have "n \<le> 16" by (simp add: process_weight_def process_start_def main_script_def)
  moreover have "(case pr_result p of None \<Rightarrow> Runs_On | Some r \<Rightarrow> r) =
      orderbook_quoter_server core_ids new_orderbook process_all_depths package_deals grpc ws config"
    if stuck: "\<nexists>q. process_step ?n ends p q"
  proof (cases "pr_result p")
    case None
    from process_stuck [OF ok stuck None] four have "3 \<le> ?n" "Runs_On \<in> set ends"
      by (auto simp: in_set_conv_nth)
    then show ?thesis using None ob ends by (simp add: orderbook_quoter_server_def)
  next
    case (Some r)
    then consider "r = Panics" "?n < 3" | "r = Returns (Inr ())" "pr_script p = []"
      using ok unfolding process_ok_def by (cases r) auto
    then show ?thesis
    proof cases
      case 1
      then show ?thesis using Some ob by (simp add: orderbook_quoter_server_def)
    next
      case 2
      from process_finished [OF ok 2(2)] have "3 \<le> ?n" "Runs_On \<notin> set ends"
        using four by (auto simp: in_set_conv_nth)
      then show ?thesis using 2 Some ob ends by (simp add: orderbook_quoter_server_def)
    qed
  qed
  ultimately show ?thesis by blast
qed

text \<open>One core id: the process panics after both threads of the book have been spawned and run.\<close>

definition one_core :: "nat \<Rightarrow> unit process" where
  "one_core k = \<lparr>pr_script = drop (min k 3) main_script,
     pr_threads = [if k < 2 then Not_Spawned else Running, if k < 3 then Not_Spawned else Running,
       Not_Spawned, Not_Spawned],
     pr_result = (if k < 4 then None else Some Panics)\<rparr>"

lemma one_core_run: "(process_step 1 [Runs_On, Runs_On, Runs_On, Runs_On] ^^ 4) process_start (one_core 4)"
proof -
  let ?r = "process_step 1 [Runs_On, Runs_On, Runs_On, Runs_On]"
  have "?r (one_core 0) (one_core 1)"
    using process_step.core_id [of "one_core 0" 0] by (simp add: one_core_def main_script_def)
  moreover have "?r (one_core 1) (one_core 2)"
    using process_step.spawn [of "one_core 1" 0] by (simp add: one_core_def main_script_def)
  moreover have "?r (one_core 2) (one_core 3)"
    using process_step.spawn [of "one_core 2" 1] by (simp add: one_core_def main_script_def)
  moreover have "?r (one_core 3) (one_core 4)"
    using process_step.core_id_panics [of "one_core 3" 1] by (simp add: one_core_def main_script_def)
  moreover have "process_start = one_core 0"
    by (simp add: one_core_def process_start_def numeral_eq_Suc)
  ultimately show ?thesis by (auto simp: numeral_eq_Suc)
qed

theorem threads_refine_server_witness:
  "pr_result (one_core 4) = Some Panics \<and>
   (orderbook_quoter_server (Some [7]) (\<lambda>_. Returns ()) (\<lambda>_. Runs_On) (\<lambda>_. Runs_On :: (unit + unit) run)
      (\<lambda>_. Runs_On) (\<lambda>_. Runs_On) one_exchange :: (unit + unit) run) = Panics"
proof -
  have "\<nexists>q. process_step 1 [Runs_On, Runs_On, Runs_On, Runs_On] (one_core 4) q"
    by (auto elim: process_step.cases simp: one_core_def)
  then show ?thesis
    using threads_refine_server [where core_ids = "Some [7]" and ids = "[7]" and orderbook = "()" and n = 4
        and p = "one_core 4" and new_orderbook = "\<lambda>_. Returns ()" and process_all_depths = "\<lambda>_. Runs_On"
        and package_deals = "\<lambda>_. Runs_On :: (unit + unit) run" and grpc = "\<lambda>_. Runs_On"
        and ws = "\<lambda>_. Runs_On" and config = one_exchange, OF HOL.refl HOL.refl HOL.refl] one_core_run
    by (simp add: package_thread_def detached_def one_core_def)
qed

end
