(* ===== verification/Quoter_Rpc.thy ===== *)
theory Quoter_Rpc
  imports Quoter_Server "HOL-Library.Sublist"
begin

text \<open>
  The gRPC stubs checked in as \<open>proto-source/lib.rs\<close>: the client the market maker calls and the
  server that dispatches on the path of a request. tonic and its transport are arguments: how a
  method is served as an HTTP response, how a client reads one, and what a channel delivers.
\<close>

subsection \<open>Requests, responses and tonic\<close>

datatype quoter_request = QuoterRequest

record 'm http_request =
  rq_path :: string
  rq_message :: 'm
  rq_grpc_method :: "(string \<times> string) option"

record 'body http_response =
  hr_status :: nat
  hr_headers :: "(string \<times> string) list"
  hr_body :: 'body

datatype code = Unknown | Unimplemented | OtherCode nat

datatype status = Status code string

text \<open>
  The settings of a service, \<open>'enc\<close> the set of enabled encodings, and tonic's own operations:
  enabling an encoding, serving a streaming method, the empty body, and what a client reads from
  a response: the stream of messages that the items of one poll after another are.
\<close>

type_synonym 'r item_stream = "nat \<Rightarrow> (status + 'r) option run"

record 'enc grpc_settings =
  gs_accept_compression_encodings :: 'enc
  gs_send_compression_encodings :: 'enc
  gs_max_decoding_message_size :: "u64 option"
  gs_max_encoding_message_size :: "u64 option"

record ('enc, 'body, 'm, 'r) tonic =
  tn_no_encodings :: 'enc
  tn_enable :: "'enc \<Rightarrow> string \<Rightarrow> 'enc"
  tn_empty_body :: 'body
  tn_serve :: "'enc grpc_settings \<Rightarrow> ('m \<Rightarrow> status + 'r item_stream) \<Rightarrow> 'm http_request \<Rightarrow> 'body http_response"
  tn_read :: "'body http_response \<Rightarrow> status + 'r item_stream"

subsection \<open>The server\<close>

text \<open>\<open>QuoterServer<T>\<close>: the service, an \<open>Arc\<close> of it shared by the clones, and its settings.\<close>

record ('t, 'enc) quoter_server =
  qs_inner :: 't
  qs_settings :: "'enc grpc_settings"

definition quoter_server_from_arc ::
  "('enc, 'body, 'm, 'r) tonic \<Rightarrow> 't \<Rightarrow> ('t, 'enc) quoter_server" where
  "quoter_server_from_arc G inner =
     \<lparr>qs_inner = inner,
      qs_settings = \<lparr>gs_accept_compression_encodings = tn_no_encodings G,
        gs_send_compression_encodings = tn_no_encodings G,
        gs_max_decoding_message_size = None, gs_max_encoding_message_size = None\<rparr>\<rparr>"

definition quoter_server_new ::
  "('enc, 'body, 'm, 'r) tonic \<Rightarrow> 't \<Rightarrow> ('t, 'enc) quoter_server" where
  "quoter_server_new G inner = quoter_server_from_arc G inner"

definition server_with_interceptor ::
  "('enc, 'body, 'm, 'r) tonic \<Rightarrow> (('t, 'enc) quoter_server \<Rightarrow> 'f \<Rightarrow> 'svc) \<Rightarrow> 't \<Rightarrow> 'f \<Rightarrow> 'svc" where
  "server_with_interceptor G intercepted inner interceptor = intercepted (quoter_server_new G inner) interceptor"

definition server_accept_compressed ::
  "('enc, 'body, 'm, 'r) tonic \<Rightarrow> ('t, 'enc) quoter_server \<Rightarrow> string \<Rightarrow> ('t, 'enc) quoter_server" where
  "server_accept_compressed G this encoding =
     this\<lparr>qs_settings := (qs_settings this)\<lparr>gs_accept_compression_encodings :=
       tn_enable G (gs_accept_compression_encodings (qs_settings this)) encoding\<rparr>\<rparr>"

definition server_send_compressed ::
  "('enc, 'body, 'm, 'r) tonic \<Rightarrow> ('t, 'enc) quoter_server \<Rightarrow> string \<Rightarrow> ('t, 'enc) quoter_server" where
  "server_send_compressed G this encoding =
     this\<lparr>qs_settings := (qs_settings this)\<lparr>gs_send_compression_encodings :=
       tn_enable G (gs_send_compression_encodings (qs_settings this)) encoding\<rparr>\<rparr>"

definition server_max_decoding_message_size ::
  "('t, 'enc) quoter_server \<Rightarrow> u64 \<Rightarrow> ('t, 'enc) quoter_server" where
  "server_max_decoding_message_size this limit =
     this\<lparr>qs_settings := (qs_settings this)\<lparr>gs_max_decoding_message_size := Some limit\<rparr>\<rparr>"

definition server_max_encoding_message_size ::
  "('t, 'enc) quoter_server \<Rightarrow> u64 \<Rightarrow> ('t, 'enc) quoter_server" where
  "server_max_encoding_message_size this limit =
     this\<lparr>qs_settings := (qs_settings this)\<lparr>gs_max_encoding_message_size := Some limit\<rparr>\<rparr>"

definition server_clone :: "('t, 'enc) quoter_server \<Rightarrow> ('t, 'enc) quoter_server" where
  "server_clone this = \<lparr>qs_inner = qs_inner this, qs_settings = qs_settings this\<rparr>"

definition SERVICE_NAME :: string where "SERVICE_NAME = ''lib.Quoter''"

definition server_poll_ready :: "('t, 'enc) quoter_server \<Rightarrow> (unit + unit) poll" where
  "server_poll_ready this = Ready (Inr ())"

text \<open>\<open>call\<close>: the one method of the service, and the answer to every other path.\<close>

definition server_call ::
  "('enc, 'body, 'm, 'r) tonic \<Rightarrow> ('t \<Rightarrow> 'm \<Rightarrow> status + 'r item_stream) \<Rightarrow> ('t, 'enc) quoter_server \<Rightarrow>
   'm http_request \<Rightarrow> 'body http_response" where
  "server_call G method this req =
     (if rq_path req = ''/lib.Quoter/ServerStreamingQuoter''
      then tn_serve G (qs_settings this) (method (qs_inner this)) req
      else \<lparr>hr_status = 200,
            hr_headers = [(''grpc-status'', ''12''), (''content-type'', ''application/grpc'')],
            hr_body = tn_empty_body G\<rparr>)"

subsection \<open>The client\<close>

text \<open>
  tonic's \<open>Grpc\<close> client over a channel: its settings, whether it is ready, and the call of a
  streaming method, which sends a request and reads the response.
\<close>

record ('ch, 'g, 'm, 'r) grpc_client =
  gc_new :: "'ch \<Rightarrow> 'g"
  gc_with_origin :: "'ch \<Rightarrow> string \<Rightarrow> 'g"
  gc_send_compressed :: "'g \<Rightarrow> string \<Rightarrow> 'g"
  gc_accept_compressed :: "'g \<Rightarrow> string \<Rightarrow> 'g"
  gc_max_decoding_message_size :: "'g \<Rightarrow> u64 \<Rightarrow> 'g"
  gc_max_encoding_message_size :: "'g \<Rightarrow> u64 \<Rightarrow> 'g"
  gc_ready :: "'g \<Rightarrow> string + unit"
  gc_server_streaming :: "'g \<Rightarrow> 'm http_request \<Rightarrow> string \<Rightarrow> status + 'r item_stream"

record 'g quoter_client =
  qc_inner :: 'g

definition client_new :: "('ch, 'g, 'm, 'r) grpc_client \<Rightarrow> 'ch \<Rightarrow> 'g quoter_client" where
  "client_new C inner = \<lparr>qc_inner = gc_new C inner\<rparr>"

definition client_with_origin ::
  "('ch, 'g, 'm, 'r) grpc_client \<Rightarrow> 'ch \<Rightarrow> string \<Rightarrow> 'g quoter_client" where
  "client_with_origin C inner origin = \<lparr>qc_inner = gc_with_origin C inner origin\<rparr>"

definition client_with_interceptor ::
  "('ch, 'g, 'm, 'r) grpc_client \<Rightarrow> ('ch0 \<Rightarrow> 'f \<Rightarrow> 'ch) \<Rightarrow> 'ch0 \<Rightarrow> 'f \<Rightarrow> 'g quoter_client" where
  "client_with_interceptor C intercepted inner interceptor = client_new C (intercepted inner interceptor)"

definition client_connect ::
  "('ch, 'g, 'm, 'r) grpc_client \<Rightarrow> (string \<Rightarrow> 'e + 'endpoint) \<Rightarrow> ('endpoint \<Rightarrow> 'e + 'ch) \<Rightarrow> string \<Rightarrow>
   'e + 'g quoter_client" where
  "client_connect C endpoint_new endpoint_connect dst =
     (case endpoint_new dst of
        Inl e \<Rightarrow> Inl e
      | Inr endpoint \<Rightarrow>
          (case endpoint_connect endpoint of
             Inl e \<Rightarrow> Inl e
           | Inr conn \<Rightarrow> Inr (client_new C conn)))"

definition client_send_compressed ::
  "('ch, 'g, 'm, 'r) grpc_client \<Rightarrow> 'g quoter_client \<Rightarrow> string \<Rightarrow> 'g quoter_client" where
  "client_send_compressed C this encoding = this\<lparr>qc_inner := gc_send_compressed C (qc_inner this) encoding\<rparr>"

definition client_accept_compressed ::
  "('ch, 'g, 'm, 'r) grpc_client \<Rightarrow> 'g quoter_client \<Rightarrow> string \<Rightarrow> 'g quoter_client" where
  "client_accept_compressed C this encoding = this\<lparr>qc_inner := gc_accept_compressed C (qc_inner this) encoding\<rparr>"

definition client_max_decoding_message_size ::
  "('ch, 'g, 'm, 'r) grpc_client \<Rightarrow> 'g quoter_client \<Rightarrow> u64 \<Rightarrow> 'g quoter_client" where
  "client_max_decoding_message_size C this limit =
     this\<lparr>qc_inner := gc_max_decoding_message_size C (qc_inner this) limit\<rparr>"

definition client_max_encoding_message_size ::
  "('ch, 'g, 'm, 'r) grpc_client \<Rightarrow> 'g quoter_client \<Rightarrow> u64 \<Rightarrow> 'g quoter_client" where
  "client_max_encoding_message_size C this limit =
     this\<lparr>qc_inner := gc_max_encoding_message_size C (qc_inner this) limit\<rparr>"

text \<open>\<open>server_streaming_quoter\<close> of the client; \<open>into_request\<close> makes a request without a path.\<close>

definition client_server_streaming_quoter ::
  "('ch, 'g, 'm, 'r) grpc_client \<Rightarrow> 'g quoter_client \<Rightarrow> 'm \<Rightarrow> status + 'r item_stream" where
  "client_server_streaming_quoter C this message =
     (case gc_ready C (qc_inner this) of
        Inl e \<Rightarrow> Inl (Status Unknown (''Service was not ready: '' @ e))
      | Inr _ \<Rightarrow>
          (let path = ''/lib.Quoter/ServerStreamingQuoter'';
               req = \<lparr>rq_path = [], rq_message = message, rq_grpc_method = None\<rparr>;
               req = req\<lparr>rq_grpc_method := Some (''lib.Quoter'', ''ServerStreamingQuoter'')\<rparr>
           in gc_server_streaming C (qc_inner this) req path))"

subsection \<open>What the stubs rely on\<close>

text \<open>
  tonic's client reads the items of a method's stream as the server's method makes them, its end
  and its waits included, and the grpc status 12 as \<open>Unimplemented\<close>; tonic's router hands a
  service the requests below its name; a call over a channel is its request with the path.
\<close>

definition tonic_laws :: "('enc, 'body, 'm, 'r) tonic \<Rightarrow> bool" where
  "tonic_laws G \<longleftrightarrow>
     (\<forall>settings method req. tn_read G (tn_serve G settings method req) =
        method (rq_message req)) \<and>
     (\<forall>response. (''grpc-status'', ''12'') \<in> set (hr_headers response) \<longrightarrow>
        (\<exists>m. tn_read G response = Inl (Status Unimplemented m)))"

definition routed ::
  "('m http_request \<Rightarrow> 'body http_response) \<Rightarrow> ('m http_request \<Rightarrow> 'body http_response) \<Rightarrow> bool" where
  "routed deliver service \<longleftrightarrow>
     (\<forall>req. prefix (''/'' @ SERVICE_NAME @ ''/'') (rq_path req) \<longrightarrow> deliver req = service req)"

definition calls_over ::
  "('ch, 'g, 'm, 'r) grpc_client \<Rightarrow> ('enc, 'body, 'm, 'r) tonic \<Rightarrow>
   ('m http_request \<Rightarrow> 'body http_response) \<Rightarrow> 'g \<Rightarrow> bool" where
  "calls_over C G deliver g \<longleftrightarrow> gc_ready C g = Inr () \<and>
     (\<forall>req path. gc_server_streaming C g req path = tn_read G (deliver (req\<lparr>rq_path := path\<rparr>)))"

text \<open>The client's path is one the router hands over and the server dispatches to its method.\<close>

lemma client_reaches_method:
  assumes laws: "tonic_laws G" and route: "routed deliver (server_call G method server)"
    and over: "calls_over C G deliver (qc_inner client)"
  shows "client_server_streaming_quoter C client message = method (qs_inner server) message"
proof -
  let ?req = "\<lparr>rq_path = ''/lib.Quoter/ServerStreamingQuoter'', rq_message = message,
    rq_grpc_method = Some (''lib.Quoter'', ''ServerStreamingQuoter'')\<rparr>"
  have "deliver ?req = server_call G method server ?req"
    using route by (simp add: routed_def SERVICE_NAME_def)
  then have "client_server_streaming_quoter C client message = tn_read G (server_call G method server ?req)"
    using over by (simp add: client_server_streaming_quoter_def calls_over_def)
  then show ?thesis using laws by (simp add: server_call_def tonic_laws_def)
qed

lemma other_paths_unimplemented:
  assumes "tonic_laws G" and "rq_path req \<noteq> ''/lib.Quoter/ServerStreamingQuoter''"
  shows "\<exists>m. tn_read G (server_call G method server req) = Inl (Status Unimplemented m)"
  using assms by (simp add: server_call_def tonic_laws_def)

text \<open>A channel that is not ready is an error of the call, and nothing is sent.\<close>

lemma not_ready_is_reported:
  "gc_ready C (qc_inner client) = Inl e \<Longrightarrow>
    client_server_streaming_quoter C client message = Inl (Status Unknown (''Service was not ready: '' @ e))"
  by (simp add: client_server_streaming_quoter_def)

end
