(* ===== verification/Market_Maker.thy ===== *)
theory Market_Maker
  imports Quoter_Rpc
begin

text \<open>
  \<open>bin/market-maker/src/main.rs\<close>: the client that connects to the quoter server and prints the
  first quotes of its stream. The environment, the connection and what the stream yields at each
  \<open>next\<close> are arguments; what is printed for a quote is its counter and the quote.
\<close>

definition AGENT :: string where "AGENT = ''market-maker-strategy-tbd''"

record market_maker =
  mm_agent :: string

definition market_maker_new :: market_maker where
  "market_maker_new = \<lparr>mm_agent = ''market-maker-strategy-tbd''\<rparr>"

text \<open>
  The loop over \<open>stream.take(num)\<close>: \<open>next k\<close> is the stream's k-th item, \<open>None\<close> its end, \<open>Runs_On\<close>
  a wait without end. The counter is an \<open>i32\<close>.
\<close>

fun quote_prints ::
  "(nat \<Rightarrow> ('s + quoter_response) option run) \<Rightarrow> nat \<Rightarrow> nat \<Rightarrow> i32 \<Rightarrow>
   (i32 \<times> quoter_response) list \<times> unit run" where
  "quote_prints next_item 0 k counter = ([], Returns ())"
| "quote_prints next_item (Suc num) k counter =
     (case next_item k of
        Panics \<Rightarrow> ([], Panics)
      | Runs_On \<Rightarrow> ([], Runs_On)
      | Returns None \<Rightarrow> ([], Returns ())
      | Returns (Some (Inl _)) \<Rightarrow> ([], Panics)
      | Returns (Some (Inr quote)) \<Rightarrow>
          (case quote_prints next_item num (Suc k) (counter + 1) of
             (printed, result) \<Rightarrow> ((counter, quote) # printed, result)))"

definition stream_quotes ::
  "market_maker \<Rightarrow> 's + (nat \<Rightarrow> ('s + quoter_response) option run) \<Rightarrow> nat \<Rightarrow>
   (i32 \<times> quoter_response) list \<times> unit run" where
  "stream_quotes self stream num =
     (case stream of Inl _ \<Rightarrow> ([], Panics) | Inr next_item \<Rightarrow> quote_prints next_item num 0 0)"

text \<open>
  \<open>main\<close>: without the environment variable the process exits with 0; its value is printed and
  not used.
\<close>

definition market_maker_main ::
  "string option \<Rightarrow> (string \<Rightarrow> 'e + 'client) \<Rightarrow>
   ('client \<Rightarrow> 's + (nat \<Rightarrow> ('s + quoter_response) option run)) \<Rightarrow>
   (i32 \<times> quoter_response) list \<times> unit run" where
  "market_maker_main uri connect quoter =
     (case uri of
        None \<Rightarrow> ([], Returns ())
      | Some _ \<Rightarrow>
          (case connect ''http://[::1]:9090'' of
             Inl _ \<Rightarrow> ([], Panics)
           | Inr client \<Rightarrow> stream_quotes market_maker_new (quoter client) 50000))"

subsection \<open>What is printed\<close>

lemma quote_prints_all:
  "k + num \<le> List.length quotes \<Longrightarrow>
    quote_prints (stream_of quotes rest) num k c =
      (zip (map (\<lambda>i. c + of_nat i) [0..<num]) (take num (drop k quotes)), Returns ())"
proof (induction num arbitrary: k c)
  case (Suc num)
  have "map (\<lambda>i. c + of_nat i) [0..<Suc num] = c # map (\<lambda>i. (c + 1) + of_nat i) [0..<num]"
    by (simp add: upt_conv_Cons map_Suc_upt [symmetric] o_def add.assoc del: upt_Suc)
  moreover have "take (Suc num) (drop k quotes) = quotes ! k # take num (drop (Suc k) quotes)"
    using Suc.prems by (simp add: Cons_nth_drop_Suc [symmetric])
  moreover have "stream_of quotes rest k = Returns (Some (Inr (quotes ! k)))"
    using Suc.prems by (simp add: stream_of_def)
  ultimately show ?case using Suc.IH [of "Suc k" "c + 1"] Suc.prems by simp
qed simp

lemma quote_prints_short:
  "num = Suc n \<Longrightarrow> k \<le> List.length quotes \<Longrightarrow> List.length quotes < k + num \<Longrightarrow>
    quote_prints (receiver_stream (quotes, waits)) num k c =
      (zip (map (\<lambda>i. c + of_nat i) [0..<List.length quotes - k]) (drop k quotes),
       if waits then Runs_On else Returns ())"
proof (induction num arbitrary: k c n)
  case (Suc num)
  show ?case
  proof (cases "k = List.length quotes")
    case False
    then have k: "k < List.length quotes" using Suc.prems by simp
    then have num: "num = Suc (num - 1)" using Suc.prems by simp
    have "List.length quotes - k = Suc (List.length quotes - Suc k)" using k by simp
    then have "map (\<lambda>i. c + of_nat i) [0..<List.length quotes - k] =
        c # map (\<lambda>i. (c + 1) + of_nat i) [0..<List.length quotes - Suc k]"
      by (simp add: upt_conv_Cons map_Suc_upt [symmetric] o_def add.assoc del: upt_Suc)
    moreover have "drop k quotes = quotes ! k # drop (Suc k) quotes"
      using k by (simp add: Cons_nth_drop_Suc)
    ultimately show ?thesis
      using Suc.IH [OF num, of "Suc k" "c + 1"] Suc.prems k by (simp add: receiver_stream_def stream_of_def)
  qed (simp add: receiver_stream_def stream_of_def)
qed simp

lemma quote_prints_prefix:
  "quote_prints (receiver_stream (quotes, waits)) num 0 0 =
    (zip (map of_nat [0..<min num (List.length quotes)]) (take num quotes),
     if List.length quotes < num \<and> waits then Runs_On else Returns ())"
proof (cases "num \<le> List.length quotes")
  case True
  then have "quote_prints (stream_of quotes rest) num 0 0 =
      (zip (map of_nat [0..<num]) (take num quotes), Returns ())" for rest :: "('a + quoter_response) option run"
    using quote_prints_all [of 0 num quotes rest 0] by simp
  then show ?thesis using True by (simp add: receiver_stream_def min_absorb1)
next
  case False
  then show ?thesis
    using quote_prints_short [of num "num - 1" 0 quotes waits 0] by (simp add: min_absorb2)
qed

text \<open>
  The market maker prints the quotes in order, numbered from zero, at most 50000 of them; with fewer
  quotes it ends when the stream does, and waits while the stream does. The address it was given
  makes no difference.
\<close>

lemma market_maker_prints:
  assumes connect: "connect ''http://[::1]:9090'' = Inr client"
    and quoter: "quoter client = Inr (receiver_stream (quotes, waits))"
  shows "market_maker_main (Some uri) connect quoter =
    (zip (map of_nat [0..<min 50000 (List.length quotes)]) (take 50000 quotes),
     if List.length quotes < 50000 \<and> waits then Runs_On else Returns ())"
  unfolding market_maker_main_def stream_quotes_def option.case connect sum.case quoter
  by (rule quote_prints_prefix)

text \<open>
  C39. From the quoter server to the market maker, through the gRPC stubs: when the fixed address
  leads to the quoter server, a market maker that stays connected prints the responses of the
  quotes that were broadcast, in their order and numbered from zero, up to the first lag of the
  server's receiver and at most 50000. It ends normally after 50000 quotes, after a lag, and when
  every broadcast sender is gone; with fewer quotes and no lag, while a sender lives (as the one the
  server holds), it waits for ever. The address in its environment makes no difference, as long
  as there is one.
\<close>

theorem market_maker_prints_served_quotes:
  assumes laws: "tonic_laws G"
    and connect: "endpoint_new ''http://[::1]:9090'' = Inr endpoint" "endpoint_connect endpoint = Inr ch"
    and over: "calls_over C G deliver (gc_new C ch)"
    and route: "routed deliver (server_call G (\<lambda>this _. server_streaming_quoter subscribe (\<lambda>_. True) this)
      (quoter_server_new G (order_book_quoter_server_new broadcaster)))"
    and broadcast: "subscribe broadcaster = (results, sender_alive)"
  shows "market_maker_main (Some uri) (client_connect C endpoint_new endpoint_connect)
      (\<lambda>client. client_server_streaming_quoter C client QuoterRequest) =
    (let served = take 50000 (before_error results);
         lagged = (List.length (before_error results) \<noteq> List.length results)
     in (zip (map of_nat [0..<List.length served]) (map response_of served),
         if List.length served < 50000 \<and> \<not> lagged \<and> sender_alive then Runs_On else Returns ()))"
proof -
  let ?all = "before_error results"
  let ?waits = "sender_alive \<and> List.length ?all = List.length results"
  have client: "client_connect C endpoint_new endpoint_connect ''http://[::1]:9090'' = Inr (client_new C ch)"
    using connect by (simp add: client_connect_def)
  have "calls_over C G deliver (qc_inner (client_new C ch))" using over by (simp add: client_new_def)
  from client_reaches_method [OF laws route this, of QuoterRequest]
  have "client_server_streaming_quoter C (client_new C ch) QuoterRequest =
      Inr (receiver_stream (map response_of ?all, ?waits))"
    by (simp add: quoter_server_new_def quoter_server_from_arc_def order_book_quoter_server_new_def
        server_streaming_quoter_def broadcast quote_loop_all)
  from market_maker_prints [of "client_connect C endpoint_new endpoint_connect" "client_new C ch"
      "\<lambda>client. client_server_streaming_quoter C client QuoterRequest"
      "map response_of ?all" ?waits uri, OF client this]
  have "market_maker_main (Some uri) (client_connect C endpoint_new endpoint_connect)
      (\<lambda>client. client_server_streaming_quoter C client QuoterRequest) =
    (zip (map of_nat [0..<List.length (take 50000 ?all)]) (map response_of (take 50000 ?all)),
     if List.length ?all < 50000 \<and> ?waits then Runs_On else Returns ())"
    unfolding length_take length_map take_map min.commute [of 50000] .
  moreover have "List.length (take 50000 ?all) < 50000 \<longleftrightarrow> List.length ?all < 50000"
    by (simp add: min_less_iff_disj)
  ultimately show ?thesis unfolding Let_def by (simp only: not_not conj_ac)
qed

text \<open>A concrete tonic that carries the answer of the method as the body, and a direct channel.\<close>

definition plain_tonic :: "(unit, status + 'r item_stream, 'm, 'r) tonic" where
  "plain_tonic = \<lparr>tn_no_encodings = (), tn_enable = (\<lambda>_ _. ()), tn_empty_body = Inr (\<lambda>_. Returns None),
     tn_serve = (\<lambda>_ method req. \<lparr>hr_status = 200, hr_headers = [], hr_body = method (rq_message req)\<rparr>),
     tn_read = (\<lambda>response. if (''grpc-status'', ''12'') \<in> set (hr_headers response)
       then Inl (Status Unimplemented []) else hr_body response)\<rparr>"

lemma plain_tonic_laws: "tonic_laws plain_tonic"
  by (simp add: tonic_laws_def plain_tonic_def)

definition direct_client ::
  "('m http_request \<Rightarrow> (status + 'r item_stream) http_response) \<Rightarrow> (unit, unit, 'm, 'r) grpc_client" where
  "direct_client deliver = \<lparr>gc_new = id, gc_with_origin = (\<lambda>_ _. ()), gc_send_compressed = (\<lambda>_ _. ()),
     gc_accept_compressed = (\<lambda>_ _. ()), gc_max_decoding_message_size = (\<lambda>_ _. ()),
     gc_max_encoding_message_size = (\<lambda>_ _. ()), gc_ready = (\<lambda>_. Inr ()),
     gc_server_streaming = (\<lambda>_ req path.
       tn_read (plain_tonic :: (unit, status + 'r item_stream, 'm, 'r) tonic) (deliver (req\<lparr>rq_path := path\<rparr>)))\<rparr>"

lemma direct_client_calls: "calls_over (direct_client deliver) plain_tonic deliver g"
  by (simp add: calls_over_def direct_client_def)

text \<open>
  At the types of the quoter: two quotes, then whatever \<open>rest\<close> holds; the server's own sender lives.
\<close>

abbreviation quoter_tonic ::
  "(unit, status + quoter_response item_stream, quoter_request, quoter_response) tonic" where
  "quoter_tonic \<equiv> plain_tonic"

definition flat_quote :: "rat \<Rightarrow> quote" where
  "flat_quote r = \<lparr>qt_spread = F64_Fin r, qt_ask_deals = [], qt_bid_deals = []\<rparr>"

definition two_quotes :: "(unit + quote) list \<Rightarrow> (unit + quote) list" where
  "two_quotes rest = Inr (flat_quote 2) # Inr (flat_quote (1 / 2)) # rest"

definition two_quotes_service ::
  "(unit + quote) list \<Rightarrow> quoter_request http_request \<Rightarrow> (status + quoter_response item_stream) http_response" where
  "two_quotes_service rest =
     server_call quoter_tonic (\<lambda>this _. server_streaming_quoter (\<lambda>b. (b, True)) (\<lambda>_. True) this)
       (quoter_server_new quoter_tonic (order_book_quoter_server_new (two_quotes rest)))"

definition two_quotes_printed :: "(unit + quote) list \<Rightarrow> (i32 \<times> quoter_response) list \<times> unit run" where
  "two_quotes_printed rest = market_maker_main (Some ''http://other'')
     (client_connect (direct_client (two_quotes_service rest)) (\<lambda>_. Inr () :: string + unit) (\<lambda>_. Inr ()))
     (\<lambda>client. client_server_streaming_quoter (direct_client (two_quotes_service rest)) client QuoterRequest)"

text \<open>After a lag the market maker ends; with no lag it waits for the third quote.\<close>

lemma market_maker_prints_served_quotes_witness:
  "map (\<lambda>(k, q). (k, qr_spread q)) (fst (two_quotes_printed [Inl (), Inr (flat_quote 3)])) = [(0, 2), (1, 0)] \<and>
   snd (two_quotes_printed [Inl (), Inr (flat_quote 3)]) = Returns () \<and>
   two_quotes_printed [] = (fst (two_quotes_printed [Inl (), Inr (flat_quote 3)]), Runs_On)"
proof -
  have spreads: "qr_spread (response_of (flat_quote 2)) = 2" "qr_spread (response_of (flat_quote (1 / 2))) = 0"
    by (simp add: flat_quote_def response_of_def f64_to_i32_def trunc_rat_def)
      (simp add: flat_quote_def response_of_def f64_to_i32_def trunc_below_one)
  have two: "take 50000 [a, b] = [a, b]" for a b :: quote by simp
  have route: "routed (two_quotes_service rest)
      (server_call quoter_tonic (\<lambda>this _. server_streaming_quoter (\<lambda>b. (b, True)) (\<lambda>_. True) this)
        (quoter_server_new quoter_tonic (order_book_quoter_server_new (two_quotes rest))))" for rest
    by (simp add: routed_def two_quotes_service_def)
  have printed: "two_quotes_printed rest =
      (let served = take 50000 (before_error (two_quotes rest))
       in (zip (map of_nat [0..<List.length served]) (map response_of served),
           if List.length served < 50000 \<and>
             \<not> List.length (before_error (two_quotes rest)) \<noteq> List.length (two_quotes rest) \<and> True
           then Runs_On else Returns ()))" for rest
    unfolding two_quotes_printed_def
    using market_maker_prints_served_quotes [where subscribe = "\<lambda>b. (b, True)" and broadcaster = "two_quotes rest",
      OF plain_tonic_laws _ _ direct_client_calls route HOL.refl,
      of "\<lambda>_. Inr () :: string + unit" "()" "\<lambda>_. Inr ()" "()" "''http://other''"]
    by (simp only: Let_def)
  show ?thesis
    by (simp add: printed two_quotes_def Let_def two spreads upt_conv_Cons)
qed

end
