(* ===== verification/Build_Script.thy ===== *)
theory Build_Script
  imports Engine_Config "HOL-Library.Sublist"
begin

text \<open>
  The build script \<open>build.rs\<close>: it checks the configured number of exchanges, rewrites the
  sources named by \<open>EXCHANGE_MACROS\<close> and runs tonic's code generator. The YAML parser and the
  generator are arguments; the file system is a map from paths to contents.
\<close>

subsection \<open>Strings and paths\<close>

text \<open>\<open>str::replace\<close> for a pattern that is not empty: leftmost matches, not overlapping.\<close>

function str_replace :: "string \<Rightarrow> string \<Rightarrow> string \<Rightarrow> string" where
  "str_replace pat to [] = []"
| "str_replace pat to (c # cs) =
     (if pat \<noteq> [] \<and> prefix pat (c # cs) then to @ str_replace pat to (drop (List.length pat) (c # cs))
      else c # str_replace pat to cs)"
  by pat_completeness auto
termination
  by (relation "measure (\<lambda>(pat, to, s). List.length s)") (auto simp: neq_Nil_conv)

lemma str_replace_absent: "\<not> sublist pat s \<Longrightarrow> str_replace pat to s = s"
proof (induction s)
  case (Cons c cs)
  then have "\<not> prefix pat (c # cs)" "\<not> sublist pat cs" by (auto simp: sublist_Cons_right)
  with Cons.IH show ?case by simp
qed simp

lemma sublist_suffixes: "sublist pat (xs @ ys) \<Longrightarrow>
    (\<And>k. k < List.length xs \<Longrightarrow> \<not> prefix pat (drop k xs @ ys)) \<Longrightarrow> sublist pat ys"
proof (induction xs)
  case (Cons x xs)
  have "\<not> prefix pat (x # xs @ ys)" using Cons.prems(2) [of 0] by simp
  moreover have "\<not> prefix pat (drop k xs @ ys)" if "k < List.length xs" for k
    using Cons.prems(2) [of "Suc k"] that by simp
  ultimately show ?case using Cons by (simp add: sublist_Cons_right)
qed simp

text \<open>
  What was not there before is not made by a replacement, as far as it avoids the first
  character of what is put in.
\<close>

lemma prefix_of_replaced:
  "prefix q (str_replace pat (t # to) s) \<Longrightarrow> t \<notin> set q \<Longrightarrow> prefix q s"
proof (induction pat "t # to" s arbitrary: q rule: str_replace.induct)
  case (2 pat c cs)
  show ?case
  proof (cases q)
    case (Cons a q')
    then have "\<not> (pat \<noteq> [] \<and> prefix pat (c # cs))" using 2(3,4) by (auto split: if_splits)
    with 2 Cons show ?thesis by auto
  qed simp
qed simp

text \<open>\<open>i64::to_string\<close>.\<close>

definition i64_to_string :: "i64 \<Rightarrow> string" where
  "i64_to_string i =
     (if sint i < 0 then CHR ''-'' # digits (nat (- sint i)) else digits (nat (sint i)))"

text \<open>\<open>Path::join\<close>.\<close>

definition path_join :: "string \<Rightarrow> string \<Rightarrow> string" where
  "path_join dir p =
     (if p \<noteq> [] \<and> hd p = CHR ''/'' then p
      else if dir = [] \<or> last dir = CHR ''/'' then dir @ p else dir @ CHR ''/'' # p)"

lemma path_join_inj:
  "path_join dir p = path_join dir q \<longleftrightarrow> p = q"
  if "p \<noteq> []" "hd p \<noteq> CHR ''/''" "q \<noteq> []" "hd q \<noteq> CHR ''/''"
  using that by (simp add: path_join_def)

subsection \<open>The script\<close>

record exchange_macro =
  em_macro_name :: string
  em_file_location :: string
  em_search_pattern :: string
  em_replacement_value :: string

definition CONFIG_LOCATION :: string where
  "CONFIG_LOCATION = ''integrative-testing-config.yaml''"

definition EXCHANGE_MACROS :: "exchange_macro list" where
  "EXCHANGE_MACROS =
     [\<lparr>em_macro_name = ''orderbook_levels'', em_file_location = ''orderbook/src/lib.rs'',
       em_search_pattern = ''new_level!(2)'', em_replacement_value = ''new_level!(10)''\<rparr>]"

type_synonym files = "string \<rightharpoonup> string"

text \<open>
  The world of the script: the current directory if there is one, the error of a failed read,
  the YAML parser, the paths that can be written, and tonic's generator, which may write files.
\<close>

record 'e build_env =
  be_current_dir :: "string option"
  be_read_error :: "string \<Rightarrow> 'e"
  be_from_str :: "string \<Rightarrow> 'e + config"
  be_writable :: "string \<Rightarrow> bool"
  be_compile :: "files \<Rightarrow> ('e + unit) \<times> files"

text \<open>
  The body of the loop over the macros, the \<open>expect\<close>s included. The replacement made for the
  number of exchanges is a value the code drops.
\<close>

definition apply_macro ::
  "'e build_env \<Rightarrow> string \<Rightarrow> i64 \<Rightarrow> exchange_macro \<Rightarrow> files \<Rightarrow> files option" where
  "apply_macro B current_dir exchange_count m files =
     (let dropped = (if em_macro_name m = ''orderbook_levels''
                     then str_replace ''N'' (i64_to_string exchange_count) (em_replacement_value m) else [])
      in let file_path = path_join current_dir (em_file_location m)
      in case files file_path of
           None \<Rightarrow> None
         | Some contents \<Rightarrow>
             if be_writable B file_path
             then Some (files(file_path \<mapsto>
               str_replace (em_search_pattern m) (em_replacement_value m) contents))
             else None)"

fun apply_macros ::
  "'e build_env \<Rightarrow> string \<Rightarrow> i64 \<Rightarrow> exchange_macro list \<Rightarrow> files \<Rightarrow> files option" where
  "apply_macros B current_dir exchange_count [] files = Some files"
| "apply_macros B current_dir exchange_count (m # ms) files =
     Option.bind (apply_macro B current_dir exchange_count m files)
       (apply_macros B current_dir exchange_count ms)"

definition build_main :: "'e build_env \<Rightarrow> files \<Rightarrow> (('e + unit) \<times> files) option" where
  "build_main B files =
     (case be_current_dir B of
        None \<Rightarrow> None
      | Some current_dir \<Rightarrow>
          (let config_path = path_join current_dir CONFIG_LOCATION
           in case files config_path of
                None \<Rightarrow> Some (Inl (be_read_error B config_path), files)
              | Some config_content \<Rightarrow>
                  (case be_from_str B config_content of
                     Inl e \<Rightarrow> Some (Inl e, files)
                   | Inr config \<Rightarrow>
                       if List.length (cf_exchanges config) = unat (oc_exchange_count (cf_orderbook config))
                       then map_option (be_compile B)
                         (apply_macros B current_dir (oc_exchange_count (cf_orderbook config))
                            EXCHANGE_MACROS files)
                       else None)))"

subsection \<open>Properties\<close>

lemma levels_replaced:
  "\<not> sublist ''new_level!(2)'' (str_replace ''new_level!(2)'' ''new_level!(10)'' s)"
proof (induction "''new_level!(2)''" "''new_level!(10)''" s rule: str_replace.induct)
  case (2 c cs)
  let ?R = "str_replace ''new_level!(2)'' ''new_level!(10)''"
  show ?case
  proof (cases "prefix ''new_level!(2)'' (c # cs)")
    case True
    define rest where "rest = ?R (drop (List.length ''new_level!(2)'') (c # cs))"
    have "\<not> sublist ''new_level!(2)'' rest"
      using 2(1) True unfolding rest_def by blast
    moreover have "\<not> prefix ''new_level!(2)'' (drop k ''new_level!(10)'' @ rest)"
      if "k < List.length ''new_level!(10)''" for k
      using that by (auto simp: less_Suc_eq)
    ultimately have "\<not> sublist ''new_level!(2)'' (''new_level!(10)'' @ rest)"
      using sublist_suffixes by blast
    then show ?thesis using True by (simp add: rest_def)
  next
    case False
    have "prefix ''ew_level!(2)'' cs" if "prefix ''ew_level!(2)'' (?R cs)"
      using prefix_of_replaced [OF that] by simp
    then have "\<not> prefix ''new_level!(2)'' (c # ?R cs)" using False by auto
    moreover have "\<not> sublist ''new_level!(2)'' (?R cs)" using 2(2) False by blast
    moreover have "?R (c # cs) = c # ?R cs"
      using False by (simp only: str_replace.simps(2) simp_thms if_False)
    ultimately show ?thesis by (simp only: sublist_Cons_right simp_thms)
  qed
qed simp

text \<open>The two files the script reads, and one run of it.\<close>

definition levels_path :: "string \<Rightarrow> string" where
  "levels_path dir = path_join dir ''orderbook/src/lib.rs''"

lemma levels_path_is_not_config: "levels_path dir \<noteq> path_join dir CONFIG_LOCATION"
  by (simp add: levels_path_def path_join_inj CONFIG_LOCATION_def)

lemma build_main_ok:
  assumes "be_current_dir B = Some dir"
  shows "build_main B files = Some (Inr (), files') \<longleftrightarrow>
    (\<exists>content config contents. files (path_join dir CONFIG_LOCATION) = Some content \<and>
      be_from_str B content = Inr config \<and>
      List.length (cf_exchanges config) = unat (oc_exchange_count (cf_orderbook config)) \<and>
      files (levels_path dir) = Some contents \<and> be_writable B (levels_path dir) \<and>
      be_compile B (files(levels_path dir \<mapsto>
        str_replace ''new_level!(2)'' ''new_level!(10)'' contents)) = (Inr (), files'))"
  using assms
  by (auto simp: build_main_def EXCHANGE_MACROS_def apply_macro_def levels_path_def Let_def
      split: option.split sum.split)

text \<open>
  C17. A build that succeeds has checked the configured number of exchanges against the
  exchanges listed, and then ignores it: it writes \<open>new_level!(10)\<close> for every
  \<open>new_level!(2)\<close>, whatever the number is. No \<open>new_level!(2)\<close> is left, so a later build finds
  nothing to replace: it leaves the file as it is and only runs the generator again. The
  generator is assumed to leave the configuration and the levels alone.
\<close>

theorem build_is_idempotent:
  assumes dir: "be_current_dir B = Some dir"
    and run: "build_main B files = Some (Inr (), files')"
    and compiler: "\<And>f r f'. be_compile B f = (r, f') \<Longrightarrow>
      f' (levels_path dir) = f (levels_path dir) \<and>
      f' (path_join dir CONFIG_LOCATION) = f (path_join dir CONFIG_LOCATION)"
  shows "\<exists>content config contents. files (path_join dir CONFIG_LOCATION) = Some content \<and>
    be_from_str B content = Inr config \<and>
    List.length (cf_exchanges config) = unat (oc_exchange_count (cf_orderbook config)) \<and>
    files (levels_path dir) = Some contents \<and>
    files' (levels_path dir) = Some (str_replace ''new_level!(2)'' ''new_level!(10)'' contents) \<and>
    \<not> sublist ''new_level!(2)'' (the (files' (levels_path dir))) \<and>
    build_main B files' = Some (be_compile B files')"
proof -
  obtain content config contents where
    content: "files (path_join dir CONFIG_LOCATION) = Some content"
    and config: "be_from_str B content = Inr config"
      "List.length (cf_exchanges config) = unat (oc_exchange_count (cf_orderbook config))"
    and levels: "files (levels_path dir) = Some contents" "be_writable B (levels_path dir)"
    and gen: "be_compile B (files(levels_path dir \<mapsto>
        str_replace ''new_level!(2)'' ''new_level!(10)'' contents)) = (Inr (), files')"
    using run unfolding build_main_ok [OF dir] by blast
  define new where "new = str_replace ''new_level!(2)'' ''new_level!(10)'' contents"
  have new: "files' (levels_path dir) = Some new" "files' (path_join dir CONFIG_LOCATION) = Some content"
    using compiler [OF gen] content levels_path_is_not_config [of dir] by (simp_all add: new_def)
  have gone: "\<not> sublist ''new_level!(2)'' new" unfolding new_def by (rule levels_replaced)
  have "files'(levels_path dir \<mapsto> new) = files'" using new(1) by (simp add: fun_upd_idem)
  then have "build_main B files' = Some (be_compile B files')"
    using dir new config levels(2) str_replace_absent [OF gone]
    by (simp add: build_main_def EXCHANGE_MACROS_def apply_macro_def Let_def levels_path_def)
  then show ?thesis using content config levels(1) new gone by (auto simp: new_def)
qed

text \<open>A build of a file that still has the macro, with a generator that writes its output.\<close>

definition sample_build :: "string build_env" where
  "sample_build = \<lparr>be_current_dir = Some ''/r'', be_read_error = (\<lambda>p. p),
     be_from_str = (\<lambda>text. Inr \<lparr>cf_io_thread_percentage = F64_Fin 0, cf_exchanges = [],
       cf_orderbook = \<lparr>oc_exchange_count = 0, oc_depth = 1, oc_mid_price = F64_Fin 1,
         oc_tick_size = F64_Fin 1, oc_ticker = ''T''\<rparr>, cf_grpc_server = \<lparr>gc_host_uri = ''h''\<rparr>\<rparr>),
     be_writable = (\<lambda>_. True), be_compile = (\<lambda>f. (Inr (), f(''out'' \<mapsto> ''pb'')))\<rparr>"

definition sample_files :: files where
  "sample_files = [path_join ''/r'' CONFIG_LOCATION \<mapsto> ''c'', levels_path ''/r'' \<mapsto> ''a new_level!(2);'']"

lemma build_is_idempotent_witness:
  "\<exists>files'. build_main sample_build sample_files = Some (Inr (), files') \<and>
     files' (levels_path ''/r'') = Some ''a new_level!(10);'' \<and>
     build_main sample_build files' = Some (be_compile sample_build files')"
proof -
  have dir: "be_current_dir sample_build = Some ''/r''" by (simp add: sample_build_def)
  have new: "str_replace ''new_level!(2)'' ''new_level!(10)'' ''a new_level!(2);'' = ''a new_level!(10);''"
    by simp
  have levels: "sample_files (levels_path ''/r'') = Some ''a new_level!(2);''"
    by (simp add: sample_files_def)
  obtain files' where run: "build_main sample_build sample_files = Some (Inr (), files')"
    unfolding build_main_ok [OF dir] using levels_path_is_not_config [of "''/r''"]
    by (simp add: sample_build_def sample_files_def)
  have "levels_path ''/r'' \<noteq> ''out''" "path_join ''/r'' CONFIG_LOCATION \<noteq> ''out''"
    by (simp_all add: levels_path_def path_join_def CONFIG_LOCATION_def)
  then have keeps: "f' (levels_path ''/r'') = f (levels_path ''/r'') \<and>
      f' (path_join ''/r'' CONFIG_LOCATION) = f (path_join ''/r'' CONFIG_LOCATION)"
    if "be_compile sample_build f = (r, f')" for f r f'
    using that by (auto simp: sample_build_def)
  from build_is_idempotent [OF dir run keeps] levels new run show ?thesis by fastforce
qed

end
