(* ===== verification/Depth_Generator.thy ===== *)
theory Depth_Generator
  imports Engine_Errors Float64
begin

text \<open>
  \<open>testing/depth-generator\<close>: the generator of random depths and balanced books that feeds the tests
  and the exchange stub, and the machine that sends its depths to an order book. The random
  numbers of \<open>rand\<close> and \<open>rand_distr\<close>, the decimal operations and the channel are arguments.
\<close>

subsection \<open>Randomness and decimals\<close>

text \<open>
  A state of the random number generator is threaded through: a coin, a number in a range (\<open>None\<close>
  where \<open>gen_range\<close> panics), \<open>Normal::new\<close> (\<open>None\<close> its error) and a sample of the distribution.
\<close>

record ('n, 'rng) random =
  rn_bool :: "'rng \<Rightarrow> bool \<times> 'rng"
  rn_range :: "u8 \<Rightarrow> u8 \<Rightarrow> 'rng \<Rightarrow> (u8 \<times> 'rng) option"
  rn_normal :: "f64 \<Rightarrow> f64 \<Rightarrow> 'n option"
  rn_sample :: "'n \<Rightarrow> 'rng \<Rightarrow> f64 \<times> 'rng"

record 'd decimals =
  dg_decimal :: "'d decimal"
  dg_round_dp :: "'d \<Rightarrow> u32 \<Rightarrow> 'd"
  dg_neg :: "'d \<Rightarrow> 'd"
  dg_div :: "'d \<Rightarrow> 'd \<Rightarrow> 'd option"
  dg_from_int :: "int \<Rightarrow> 'd"

text \<open>\<open>Decimal::from_f64(x).unwrap_or_default()\<close>.\<close>

definition from_f64_or_default :: "'d decimals \<Rightarrow> f64 \<Rightarrow> 'd" where
  "from_f64_or_default D x =
     (case dec_from_f64 (dg_decimal D) x of None \<Rightarrow> dec_zero (dg_decimal D) | Some d \<Rightarrow> d)"

definition round_to_hundreth :: "'d decimals \<Rightarrow> f64 \<Rightarrow> 'd" where
  "round_to_hundreth D num = dg_round_dp D (from_f64_or_default D num) 2"

definition round_place :: "f64 \<Rightarrow> f64 \<Rightarrow> f64" where
  "round_place num place = f64_div (f64_nearest_int (f64_mul num place)) place"

definition usize_as_f64 :: "nat \<Rightarrow> f64" where
  "usize_as_f64 n = f64_round (of_nat n)"

subsection \<open>The generator\<close>

record depth_message_generator =
  dm_volume :: f64
  dm_price :: f64
  dm_vol_std :: f64
  dm_price_std :: f64
  dm_level_diff :: f64
  dm_tick_size :: f64

definition generator_new :: "f64 \<Rightarrow> f64 \<Rightarrow> f64 \<Rightarrow> f64 \<Rightarrow> f64 \<Rightarrow> f64 \<Rightarrow> depth_message_generator" where
  "generator_new initial_volume initial_price vol_std price_std level_diff tick_size =
     \<lparr>dm_volume = initial_volume, dm_price = initial_price, dm_vol_std = vol_std,
      dm_price_std = price_std, dm_level_diff = level_diff, dm_tick_size = tick_size\<rparr>"

definition generator_default :: depth_message_generator where
  "generator_default =
     \<lparr>dm_volume = F64_Fin 400, dm_price = F64_Fin 2700, dm_vol_std = F64_Fin 200,
      dm_price_std = f64_round (1 / 10), dm_level_diff = f64_round (1 / 100),
      dm_tick_size = f64_round (1 / 100)\<rparr>"

definition depth_message_random ::
  "('n, 'rng) random \<Rightarrow> 'd decimals \<Rightarrow> depth_message_generator \<Rightarrow> 'rng \<Rightarrow> ('d depth_update \<times> 'rng) option" where
  "depth_message_random R D gen rng =
     (let (coin, rng) = rn_bool R rng;
          kind = (if coin then 0 else 1 :: u8);
          (coin, rng) = rn_bool R rng;
          location = (if coin then 1 else 2)
      in do {
        normal \<leftarrow> rn_normal R (F64_Fin 0) (F64_Fin 1);
        let (v, rng) = rn_sample R normal rng;
        let volume_diff = f64_mul v (dm_vol_std gen);
        let (p, rng) = rn_sample R normal rng;
        let price_diff = f64_mul p (dm_price_std gen);
        let volume = f64_max (f64_add (dm_volume gen) volume_diff) (F64_Fin 0);
        price \<leftarrow> (if kind = 0 then Some (f64_sub (dm_price gen) price_diff)
                  else if kind = 1 then Some (f64_add (dm_price gen) price_diff) else None);
        Some (\<lparr>du_k = kind, du_p = round_to_hundreth D price, du_q = from_f64_or_default D volume,
               du_l = location, du_s = False\<rparr>, rng)
      })"

definition depth_message ::
  "('n, 'rng) random \<Rightarrow> 'd decimals \<Rightarrow> depth_message_generator \<Rightarrow> u8 \<Rightarrow> bool \<Rightarrow> 'rng \<Rightarrow>
   ('d depth_update \<times> 'rng) option" where
  "depth_message R D gen location is_ask rng =
     (let kind = (if is_ask then 0 else 1)
      in do {
        normal \<leftarrow> rn_normal R (F64_Fin 0) (F64_Fin 1);
        let (v, rng) = rn_sample R normal rng;
        let volume_diff = f64_mul v (dm_vol_std gen);
        let (p, rng) = rn_sample R normal rng;
        let price_diff = f64_mul p (dm_price_std gen);
        let volume = f64_max (f64_add (dm_volume gen) volume_diff) (F64_Fin 0);
        let price = (if is_ask then f64_sub (dm_price gen) price_diff else f64_add (dm_price gen) price_diff);
        Some (\<lparr>du_k = kind, du_p = round_to_hundreth D price, du_q = from_f64_or_default D volume,
               du_l = location, du_s = False\<rparr>, rng)
      })"

text \<open>\<open>depth_bulk\<close>: a random location for each message, one side after the other.\<close>

fun bulk_side ::
  "('n, 'rng) random \<Rightarrow> 'd decimals \<Rightarrow> depth_message_generator \<Rightarrow> u8 \<Rightarrow> bool \<Rightarrow> nat \<Rightarrow> 'rng \<Rightarrow>
   ('d depth_update list \<times> 'rng) option" where
  "bulk_side R D gen exchange_locations is_ask 0 rng = Some ([], rng)"
| "bulk_side R D gen exchange_locations is_ask (Suc n) rng =
     do {
       (location, rng) \<leftarrow> rn_range R 1 exchange_locations rng;
       (depth, rng) \<leftarrow> depth_message R D gen location is_ask rng;
       (depths, rng) \<leftarrow> bulk_side R D gen exchange_locations is_ask n rng;
       Some (depth # depths, rng)
     }"

definition depth_bulk ::
  "('n, 'rng) random \<Rightarrow> 'd decimals \<Rightarrow> depth_message_generator \<Rightarrow> u8 \<Rightarrow> u8 \<Rightarrow> 'rng \<Rightarrow>
   (('d depth_update list \<times> 'd depth_update list) \<times> 'rng) option" where
  "depth_bulk R D gen exchange_locations depth_size_one_sided rng =
     do {
       (asks, rng) \<leftarrow> bulk_side R D gen exchange_locations True (unat depth_size_one_sided) rng;
       (bids, rng) \<leftarrow> bulk_side R D gen exchange_locations False (unat depth_size_one_sided) rng;
       Some ((asks, bids), rng)
     }"

text \<open>
  \<open>depth_balanced_orderbook\<close>: for each exchange \<open>depth\<close> levels, each a tick after the one before;
  \<open>next_level\<close> adds the tick on the ask side and subtracts it on the bid side.
\<close>

fun balanced_levels ::
  "('n, 'rng) random \<Rightarrow> 'd decimals \<Rightarrow> depth_message_generator \<Rightarrow> (f64 \<Rightarrow> f64) \<Rightarrow> u8 \<Rightarrow> u8 \<Rightarrow> nat \<Rightarrow> f64 \<Rightarrow>
   'rng \<Rightarrow> ('d depth_update list \<times> 'rng) option" where
  "balanced_levels R D gen next_level kind location 0 current_level rng = Some ([], rng)"
| "balanced_levels R D gen next_level kind location (Suc n) current_level rng =
     do {
       normal \<leftarrow> rn_normal R (F64_Fin 0) (dm_vol_std gen);
       let (v, rng) = rn_sample R normal rng;
       let volume_diff = f64_abs v;
       let depth_update = (depth_update_default (dg_decimal D))
         \<lparr>du_k := kind, du_p := from_f64_or_default D current_level, du_q := from_f64_or_default D volume_diff,
          du_l := location, du_s := True\<rparr>;
       (depths, rng) \<leftarrow> balanced_levels R D gen next_level kind location n (next_level current_level) rng;
       Some (depth_update # depths, rng)
     }"

fun balanced_side ::
  "('n, 'rng) random \<Rightarrow> 'd decimals \<Rightarrow> depth_message_generator \<Rightarrow> (f64 \<Rightarrow> f64) \<Rightarrow> u8 \<Rightarrow> nat \<Rightarrow> nat \<Rightarrow>
   nat list \<Rightarrow> 'rng \<Rightarrow> ('d depth_update list \<times> 'rng) option" where
  "balanced_side R D gen next_level kind depth mid_point [] rng = Some ([], rng)"
| "balanced_side R D gen next_level kind depth mid_point (i # locations) rng =
     do {
       (levels, rng) \<leftarrow>
         balanced_levels R D gen next_level kind (of_nat i) depth (usize_as_f64 mid_point) rng;
       (depths, rng) \<leftarrow> balanced_side R D gen next_level kind depth mid_point locations rng;
       Some (levels @ depths, rng)
     }"

definition depth_balanced_orderbook ::
  "('n, 'rng) random \<Rightarrow> 'd decimals \<Rightarrow> depth_message_generator \<Rightarrow> nat \<Rightarrow> nat \<Rightarrow> nat \<Rightarrow> 'rng \<Rightarrow>
   (('d depth_update list \<times> 'd depth_update list) \<times> 'rng) option" where
  "depth_balanced_orderbook R D gen depth exchange_locations mid_point rng =
     do {
       (asks, rng) \<leftarrow> balanced_side R D gen (\<lambda>level. round_place (f64_add level (dm_tick_size gen)) (F64_Fin 100))
         0 depth mid_point [1..<Suc exchange_locations] rng;
       (bids, rng) \<leftarrow> balanced_side R D gen (\<lambda>level. round_place (f64_sub level (dm_tick_size gen)) (F64_Fin 100))
         1 depth mid_point [1..<Suc exchange_locations] rng;
       Some ((asks, bids), rng)
     }"

text \<open>\<open>depth_market_continuity_from_existing_book\<close>: for every depth of the book, minus half its quantity.\<close>

fun continuity_side :: "'d decimals \<Rightarrow> u8 \<Rightarrow> 'd depth_update list \<Rightarrow> 'd depth_update list option" where
  "continuity_side D kind [] = Some []"
| "continuity_side D kind (depth # depths) =
     do {
       half \<leftarrow> dg_div D (du_q depth) (dg_from_int D 2);
       rest \<leftarrow> continuity_side D kind depths;
       Some (\<lparr>du_k = kind, du_p = du_p depth, du_q = dg_neg D half, du_l = du_l depth, du_s = False\<rparr> # rest)
     }"

definition depth_market_continuity_from_existing_book ::
  "'d decimals \<Rightarrow> 'd depth_update list \<times> 'd depth_update list \<Rightarrow>
   ('d depth_update list \<times> 'd depth_update list) option" where
  "depth_market_continuity_from_existing_book D snapshot =
     do {
       asks \<leftarrow> continuity_side D 0 (fst snapshot);
       bids \<leftarrow> continuity_side D 1 (snd snapshot);
       Some (asks, bids)
     }"

text \<open>
  The two trends of a geometric Brownian motion: \<open>move\<close> adds the last price difference in the
  upward trend and subtracts it in the downward one. A round posts 30 at the current price on both
  sides of every exchange and takes 30 away at the price a spread below.
\<close>

definition trend_depths ::
  "'d decimals \<Rightarrow> u8 \<Rightarrow> f64 \<Rightarrow> f64 \<Rightarrow> u8 \<Rightarrow> 'd depth_update list" where
  "trend_depths D exchanges spread price_current kind =
     map (\<lambda>i. \<lparr>du_k = kind, du_p = round_to_hundreth D price_current, du_q = dg_from_int D 30,
        du_l = of_nat i, du_s = False\<rparr>) [1..<Suc (unat exchanges)] @
     map (\<lambda>i. \<lparr>du_k = kind, du_p = round_to_hundreth D (f64_sub price_current spread),
        du_q = dg_neg D (dg_from_int D 30), du_l = of_nat i, du_s = False\<rparr>) [1..<Suc (unat exchanges)]"

fun trend_loop ::
  "('n, 'rng) random \<Rightarrow> 'd decimals \<Rightarrow> (f64 \<Rightarrow> f64 \<Rightarrow> f64) \<Rightarrow> u8 \<Rightarrow> f64 \<Rightarrow> f64 \<Rightarrow> f64 \<Rightarrow> 'n \<Rightarrow> nat \<Rightarrow> f64 \<Rightarrow> f64 \<Rightarrow>
   'rng \<Rightarrow> ('d depth_update list \<times> 'd depth_update list) \<times> 'rng" where
  "trend_loop R D move exchanges spread drift_factor diffusion_factor normal 0 level diff rng = (([], []), rng)"
| "trend_loop R D move exchanges spread drift_factor diffusion_factor normal (Suc n) level diff rng =
     (let (sample, rng) = rn_sample R normal rng;
          price_diff = f64_add drift_factor (f64_mul diffusion_factor sample);
          price_current = move level diff;
          ((asks, bids), rng) = trend_loop R D move exchanges spread drift_factor diffusion_factor normal n
            price_current price_diff rng
      in ((trend_depths D exchanges spread price_current 0 @ asks,
           trend_depths D exchanges spread price_current 1 @ bids), rng))"

definition trend ::
  "('n, 'rng) random \<Rightarrow> 'd decimals \<Rightarrow> (f64 \<Rightarrow> f64 \<Rightarrow> f64) \<Rightarrow> u8 \<Rightarrow> f64 \<Rightarrow> f64 \<Rightarrow> f64 \<Rightarrow> f64 \<Rightarrow> nat \<Rightarrow> f64 \<Rightarrow> f64 \<Rightarrow>
   'rng \<Rightarrow> (('d depth_update list \<times> 'd depth_update list) \<times> 'rng) option" where
  "trend R D move exchanges tick s_0 dt spread len drift diffusion rng =
     do {
       normal \<leftarrow> rn_normal R (F64_Fin 0) (F64_Fin 1);
       let first = (\<lambda>kind. \<lparr>du_k = kind, du_p = from_f64_or_default D s_0, du_q = dg_from_int D 30, du_l = 1,
         du_s = False\<rparr>);
       let drift_factor = f64_add (f64_round (1 / 10)) (f64_mul drift dt);
       let diffusion_factor = f64_mul diffusion (f64_sqrt dt);
       let ((asks, bids), rng) = trend_loop R D move exchanges spread drift_factor diffusion_factor normal
         (len - 1) s_0 tick rng;
       Some ((first 0 # asks, first 1 # bids), rng)
     }"

definition depth_generate_geometric_brownian_motion_upward_trend ::
  "('n, 'rng) random \<Rightarrow> 'd decimals \<Rightarrow> u8 \<Rightarrow> f64 \<Rightarrow> f64 \<Rightarrow> f64 \<Rightarrow> f64 \<Rightarrow> nat \<Rightarrow> f64 \<Rightarrow> f64 \<Rightarrow> 'rng \<Rightarrow>
   (('d depth_update list \<times> 'd depth_update list) \<times> 'rng) option" where
  "depth_generate_geometric_brownian_motion_upward_trend R D = trend R D f64_add"

definition depth_generate_geometric_brownian_motion_downward_trend ::
  "('n, 'rng) random \<Rightarrow> 'd decimals \<Rightarrow> u8 \<Rightarrow> f64 \<Rightarrow> f64 \<Rightarrow> f64 \<Rightarrow> f64 \<Rightarrow> nat \<Rightarrow> f64 \<Rightarrow> f64 \<Rightarrow> 'rng \<Rightarrow>
   (('d depth_update list \<times> 'd depth_update list) \<times> 'rng) option" where
  "depth_generate_geometric_brownian_motion_downward_trend R D = trend R D f64_sub"

subsection \<open>The machine\<close>

text \<open>
  \<open>DepthMachine\<close>: the sending half of a channel is \<open>'ch\<close>, whose \<open>send\<close> either takes the depth or
  gives an error; \<open>interleave\<close> of itertools is an argument.
\<close>

record ('d, 'ch) depth_machine =
  mc_depth_producer :: 'ch
  mc_dmg :: depth_message_generator
  mc_sequence :: bool
  mc_snapshot :: "('d depth_update list \<times> 'd depth_update list) option"
  mc_depth :: nat
  mc_exchanges :: nat
  mc_mid_point :: nat

type_synonym ('d, 'ch) sending = "'ch \<Rightarrow> 'd depth_update \<Rightarrow> ('d depth_update + unit) \<times> 'ch"

definition machine_build_snapshot ::
  "('n, 'rng) random \<Rightarrow> 'd decimals \<Rightarrow> ('d, 'ch) depth_machine \<Rightarrow> 'rng \<Rightarrow>
   (('d depth_update list \<times> 'd depth_update list) \<times> ('d, 'ch) depth_machine \<times> 'rng) option" where
  "machine_build_snapshot R D this rng =
     do {
       ((asks, bids), rng) \<leftarrow>
         depth_balanced_orderbook R D (mc_dmg this) (mc_depth this) (mc_exchanges this) (mc_mid_point this) rng;
       Some ((asks, bids), this\<lparr>mc_snapshot := Some (asks, bids)\<rparr>, rng)
     }"

definition machine_snapshot ::
  "('d, 'ch) depth_machine \<Rightarrow> ('d depth_update list \<times> 'd depth_update list) option" where
  "machine_snapshot this = mc_snapshot this"

fun send_depths ::
  "('d, 'ch) sending \<Rightarrow> 'd depth_update list \<Rightarrow> 'ch \<Rightarrow> (error_hot_path + unit) \<times> 'ch" where
  "send_depths send [] ch = (Inr (), ch)"
| "send_depths send (depth # depths) ch =
     (case send ch depth of
        (Inr _, ch) \<Rightarrow> send_depths send depths ch
      | (Inl _, ch) \<Rightarrow> (Inl (HotExchangeStreamSnapshot ''failed to send depth to orderbook''), ch))"

text \<open>
  \<open>produce_snapshot_depths\<close>: it waits for the trigger, which may never come (\<open>triggered\<close>); a closed
  trigger is taken as well. Without a snapshot it panics.
\<close>

definition produce_snapshot_depths ::
  "('d depth_update list \<Rightarrow> 'd depth_update list \<Rightarrow> 'd depth_update list) \<Rightarrow> ('d, 'ch) sending \<Rightarrow> bool \<Rightarrow>
   ('d, 'ch) depth_machine \<Rightarrow> ((error_hot_path + unit) \<times> ('d, 'ch) depth_machine) run" where
  "produce_snapshot_depths interleave send triggered this =
     (if \<not> triggered then Runs_On
      else
        (case mc_snapshot this of
           None \<Rightarrow> Panics
         | Some books \<Rightarrow>
             (case send_depths send (interleave (fst books) (snd books)) (mc_depth_producer this) of
                (result, ch) \<Rightarrow> Returns (result, this\<lparr>mc_depth_producer := ch\<rparr>))))"

definition produce_depths ::
  "('n, 'rng) random \<Rightarrow> 'd decimals \<Rightarrow> ('d, 'ch) sending \<Rightarrow> ('d, 'ch) depth_machine \<Rightarrow> 'rng \<Rightarrow>
   (('d, 'ch) depth_machine \<times> 'rng) option" where
  "produce_depths R D send this rng =
     (if mc_sequence this then
        do {
          (depth_update, rng) \<leftarrow> depth_message_random R D (mc_dmg this) rng;
          let (_, ch) = send (mc_depth_producer this) depth_update;
          Some (this\<lparr>mc_depth_producer := ch\<rparr>, rng)
        }
      else Some (this, rng))"

definition push_depth_load ::
  "('d depth_update list \<Rightarrow> 'd depth_update list \<Rightarrow> 'd depth_update list) \<Rightarrow> ('d, 'ch) sending \<Rightarrow>
   'd depth_update list \<times> 'd depth_update list \<Rightarrow> ('d, 'ch) depth_machine \<Rightarrow> ('d, 'ch) depth_machine" where
  "push_depth_load interleave send books this =
     this\<lparr>mc_depth_producer := foldl (\<lambda>ch depth. snd (send ch depth)) (mc_depth_producer this)
       (interleave (fst books) (snd books))\<rparr>"

subsection \<open>What a balanced book holds\<close>

text \<open>All of a depth but its quantity, which is random, and the points of a grid of hundredths.\<close>

definition depth_place :: "'d depth_update \<Rightarrow> u8 \<times> 'd \<times> u8 \<times> bool" where
  "depth_place u = (du_k u, du_p u, du_l u, du_s u)"

lemma depth_place_update [simp]:
  "depth_place (u\<lparr>du_k := k, du_p := p, du_q := q, du_l := l, du_s := s\<rparr>) = (k, p, l, s)"
  by (simp add: depth_place_def)

definition grid_side :: "'d decimals \<Rightarrow> u8 \<Rightarrow> int \<Rightarrow> nat \<Rightarrow> nat \<Rightarrow> nat list \<Rightarrow> (u8 \<times> 'd \<times> u8 \<times> bool) list" where
  "grid_side D kind step mid_point depth locations =
     concat (map (\<lambda>i. map (\<lambda>j. (kind, from_f64_or_default D (hundredths (100 * int mid_point + step * int j)),
       of_nat i, True)) [0..<depth]) locations)"

lemma usize_as_f64_hundredths: "usize_as_f64 n = hundredths (100 * int n)"
  by (simp add: usize_as_f64_def hundredths_def)

lemma balanced_levels_on_grid:
  assumes normal: "rn_normal R (F64_Fin 0) (dm_vol_std gen) = Some normal"
    and step: "\<And>j. j < n \<Longrightarrow> next_level (hundredths (m + step * int j)) = hundredths (m + step * (int j + 1))"
  shows "\<exists>depths rng'. balanced_levels R D gen next_level kind location n (hundredths m) rng = Some (depths, rng') \<and>
    map depth_place depths =
      map (\<lambda>j. (kind, from_f64_or_default D (hundredths (m + step * int j)), location, True)) [0..<n]"
  using step
proof (induction n arbitrary: m rng)
  case (Suc n)
  have "next_level (hundredths m) = hundredths (m + step)" using Suc.prems [of 0] by simp
  moreover have "next_level (hundredths (m + step + step * int j)) = hundredths (m + step + step * (int j + 1))"
    if "j < n" for j using Suc.prems [of "Suc j"] that by (simp add: algebra_simps)
  moreover obtain v rng1 where v: "rn_sample R normal rng = (v, rng1)" by fastforce
  ultimately obtain depths rng' where
    "balanced_levels R D gen next_level kind location n (next_level (hundredths m)) rng1 = Some (depths, rng')"
    "map depth_place depths =
      map (\<lambda>j. (kind, from_f64_or_default D (hundredths (m + step + step * int j)), location, True)) [0..<n]"
    using Suc.IH [of "m + step" rng1] by auto
  then show ?case
    by (simp add: normal v upt_conv_Cons map_Suc_upt [symmetric] o_def algebra_simps del: upt_Suc)
qed simp

lemma balanced_side_on_grid:
  assumes "rn_normal R (F64_Fin 0) (dm_vol_std gen) = Some normal"
    and step: "\<And>j. j < depth \<Longrightarrow> next_level (hundredths (100 * int mid_point + step * int j)) =
      hundredths (100 * int mid_point + step * (int j + 1))"
  shows "\<exists>depths rng'. balanced_side R D gen next_level kind depth mid_point locations rng = Some (depths, rng') \<and>
    map depth_place depths = grid_side D kind step mid_point depth locations"
proof (induction locations arbitrary: rng)
  case (Cons i locations)
  obtain levels rng1 where "balanced_levels R D gen next_level kind (of_nat i) depth (usize_as_f64 mid_point) rng =
      Some (levels, rng1)" and "map depth_place levels = grid_side D kind step mid_point depth [i]"
    using balanced_levels_on_grid [where n = depth, OF assms, where kind = kind and location = "of_nat i"
        and rng = rng and D = D]
    unfolding usize_as_f64_hundredths by (auto simp: grid_side_def)
  moreover obtain depths rng' where
    "balanced_side R D gen next_level kind depth mid_point locations rng1 = Some (depths, rng')"
    "map depth_place depths = grid_side D kind step mid_point depth locations"
    using Cons.IH [of rng1] by blast
  ultimately show ?case by (simp add: grid_side_def)
qed (simp add: grid_side_def)

lemma balanced_orderbook_places:
  assumes normal: "rn_normal R (F64_Fin 0) (dm_vol_std gen) = Some normal"
    and tick: "dm_tick_size gen = f64_round (1 / 100)"
    and bound: "100 * mid_point + depth \<le> 1000000000000"
  shows "\<exists>asks bids rng'.
    depth_balanced_orderbook R D gen depth exchange_locations mid_point rng = Some ((asks, bids), rng') \<and>
    map depth_place asks = grid_side D 0 1 mid_point depth [1..<Suc exchange_locations] \<and>
    map depth_place bids = grid_side D 1 (- 1) mid_point depth [1..<Suc exchange_locations]"
proof -
  have small: "\<bar>100 * int mid_point + s * int j\<bar> \<le> 1000000000000" if "j < depth" "s = 1 \<or> s = - 1" for j s
    using bound that by auto
  let ?up = "\<lambda>level. round_place (f64_add level (dm_tick_size gen)) (F64_Fin 100)"
  let ?down = "\<lambda>level. round_place (f64_sub level (dm_tick_size gen)) (F64_Fin 100)"
  have up: "?up (hundredths (100 * int mid_point + 1 * int j)) = hundredths (100 * int mid_point + 1 * (int j + 1))"
    if "j < depth" for j
    using hundredths_up [OF small [OF that, of 1]] by (simp add: tick round_place_def add.assoc)
  have down: "?down (hundredths (100 * int mid_point + - 1 * int j)) =
      hundredths (100 * int mid_point + - 1 * (int j + 1))" if "j < depth" for j
    using hundredths_down [OF small [OF that, of "- 1"]] by (simp add: tick round_place_def algebra_simps)
  obtain asks rng1 where asks: "balanced_side R D gen ?up 0 depth mid_point [1..<Suc exchange_locations] rng =
      Some (asks, rng1)" "map depth_place asks = grid_side D 0 1 mid_point depth [1..<Suc exchange_locations]"
    using balanced_side_on_grid [OF normal up] by blast
  obtain bids rng2 where bids: "balanced_side R D gen ?down 1 depth mid_point [1..<Suc exchange_locations] rng1 =
      Some (bids, rng2)" "map depth_place bids = grid_side D 1 (- 1) mid_point depth [1..<Suc exchange_locations]"
    using balanced_side_on_grid [OF normal down] by blast
  show ?thesis using asks bids unfolding depth_balanced_orderbook_def by simp
qed

lemma grid_side_prices:
  "map (\<lambda>(kind, p, l, s). p) (grid_side D kind step mid_point depth locations) =
    concat (replicate (List.length locations)
      (map (\<lambda>j. from_f64_or_default D (hundredths (100 * int mid_point + step * int j))) [0..<depth]))"
  by (induction locations) (simp_all add: grid_side_def o_def)

lemma grid_side_length: "List.length (grid_side D kind step mid_point depth locations) = List.length locations * depth"
  by (simp add: grid_side_def length_concat o_def sum_list_triv)

text \<open>
  C13. A balanced book lies on the grid of hundredths, without drift: with the default tick, the
  repeated adding, scaling and rounding of \<open>f64\<close> values gives at the j-th level of every exchange
  exactly the \<open>f64\<close> nearest to the mid price plus (or minus) j hundredths. Every exchange gets \<open>depth\<close>
  asks of kind 0 going up and \<open>depth\<close> bids of kind 1 going down from the mid price, which both
  sides include. It holds as long as prices stay below ten thousand million.
\<close>

theorem balanced_book_on_grid:
  assumes normal: "rn_normal R (F64_Fin 0) (dm_vol_std gen) = Some normal"
    and tick: "dm_tick_size gen = f64_round (1 / 100)"
    and bound: "100 * mid_point + depth \<le> 1000000000000"
  shows "\<exists>asks bids rng'.
    depth_balanced_orderbook R D gen depth exchange_locations mid_point rng = Some ((asks, bids), rng') \<and>
    map depth_place asks = grid_side D 0 1 mid_point depth [1..<Suc exchange_locations] \<and>
    map depth_place bids = grid_side D 1 (- 1) mid_point depth [1..<Suc exchange_locations] \<and>
    List.length asks = exchange_locations * depth \<and> List.length bids = exchange_locations * depth"
proof -
  have "List.length depths = exchange_locations * depth"
    if "map depth_place depths = grid_side D kind step mid_point depth [1..<Suc exchange_locations]"
    for depths kind step
    using arg_cong [OF that, of List.length] by (simp add: grid_side_length)
  with balanced_orderbook_places [OF assms, of D exchange_locations rng] show ?thesis by blast
qed

text \<open>A source of randomness that always draws one, and decimals in hundredths, rounded from an \<open>f64\<close>.\<close>

definition always_one :: "(unit, nat) random" where
  "always_one = \<lparr>rn_bool = (\<lambda>g. (True, g)), rn_range = (\<lambda>lo hi g. if lo \<le> hi then Some (hi, g) else None),
     rn_normal = (\<lambda>_ std. case std of F64_Fin _ \<Rightarrow> Some () | _ \<Rightarrow> None), rn_sample = (\<lambda>_ g. (F64_Fin 1, Suc g))\<rparr>"

definition cents_rounded :: "int decimals" where
  "cents_rounded = \<lparr>dg_decimal = cents\<lparr>dec_from_f64 :=
       (\<lambda>x. case x of F64_Fin r \<Rightarrow> cents_fit (round_half_away (r * 100)) | _ \<Rightarrow> None)\<rparr>,
     dg_round_dp = (\<lambda>d _. d), dg_neg = uminus, dg_div = (\<lambda>a b. if b = 0 then None else Some (a * 100 div b)),
     dg_from_int = (\<lambda>n. n * 100)\<rparr>"

lemma cents_rounded_reads_back:
  assumes "\<bar>n\<bar> \<le> 1000000000000"
  shows "from_f64_or_default cents_rounded (hundredths n) = n"
proof -
  obtain r where "hundredths n = F64_Fin r" "round_half_away (r * 100) = n"
    using hundredths_read_back [OF assms] by blast
  then show ?thesis using assms by (simp add: from_f64_or_default_def cents_rounded_def cents_fit_def)
qed

lemma balanced_book_on_grid_witness:
  "\<exists>asks bids rng'. depth_balanced_orderbook always_one cents_rounded generator_default 3 1 2700 0 =
       Some ((asks, bids), rng') \<and>
     map depth_place asks = [(0, 270000, 1, True), (0, 270001, 1, True), (0, 270002, 1, True)] \<and>
     map depth_place bids = [(1, 270000, 1, True), (1, 269999, 1, True), (1, 269998, 1, True)]"
proof -
  have "grid_side cents_rounded 0 1 2700 3 [1..<Suc 1] =
      [(0, 270000, 1, True), (0, 270001, 1, True), (0, 270002, 1, True)]"
    "grid_side cents_rounded 1 (- 1) 2700 3 [1..<Suc 1] =
      [(1, 270000, 1, True), (1, 269999, 1, True), (1, 269998, 1, True)]"
    by (simp_all add: grid_side_def upt_conv_Cons cents_rounded_reads_back)
  moreover have "rn_normal always_one (F64_Fin 0) (dm_vol_std generator_default) = Some ()"
    "dm_tick_size generator_default = f64_round (1 / 100)"
    by (simp_all add: always_one_def generator_default_def)
  ultimately show ?thesis
    using balanced_book_on_grid [of always_one generator_default "()" 2700 3 cents_rounded 1 0] by auto
qed

subsection \<open>The other books, and what the machine sends\<close>

lemma depth_message_shape:
  "depth_message R D gen location is_ask rng = Some (depth, rng') \<Longrightarrow>
    du_k depth = (if is_ask then 0 else 1) \<and> du_l depth = location \<and> \<not> du_s depth"
  by (auto simp: depth_message_def bind_eq_Some_conv Let_def case_prod_beta)

lemma bulk_side_shape:
  "bulk_side R D gen exchange_locations is_ask n rng = Some (depths, rng') \<Longrightarrow>
    List.length depths = n \<and> (\<forall>u \<in> set depths. du_k u = (if is_ask then 0 else 1) \<and> \<not> du_s u)"
proof (induction n arbitrary: depths rng rng')
  case (Suc n)
  then obtain location rng1 depth rng2 rest where "depth_message R D gen location is_ask rng1 = Some (depth, rng2)"
    "bulk_side R D gen exchange_locations is_ask n rng2 = Some (rest, rng')" "depths = depth # rest"
    by (auto simp: bind_eq_Some_conv)
  then show ?case using Suc.IH depth_message_shape by fastforce
qed simp

lemma continuity_side_places:
  "continuity_side D kind depths = Some out \<Longrightarrow>
    map depth_place out = map (\<lambda>u. (kind, du_p u, du_l u, False)) depths"
  by (induction depths arbitrary: out) (auto simp: bind_eq_Some_conv depth_place_def)

lemma trend_loop_lengths:
  "trend_loop R D move exchanges spread f g normal n level diff rng = ((asks, bids), rng') \<Longrightarrow>
    List.length asks = 2 * unat exchanges * n \<and> List.length bids = 2 * unat exchanges * n"
proof (induction n arbitrary: level diff rng asks bids rng')
  case (Suc n)
  have len: "List.length (trend_depths D exchanges spread price kind) = 2 * unat exchanges" for price kind
    by (simp add: trend_depths_def del: upt_Suc)
  obtain sample rng1 where sample: "rn_sample R normal rng = (sample, rng1)" by fastforce
  obtain asks1 bids1 rng2 where rest: "trend_loop R D move exchanges spread f g normal n (move level diff)
      (f64_add f (f64_mul g sample)) rng1 = ((asks1, bids1), rng2)" by (metis prod.exhaust)
  show ?case using Suc.prems Suc.IH [OF rest] by (auto simp: sample rest Let_def len)
qed simp

lemma trend_lengths:
  assumes "trend R D move exchanges tick s_0 dt spread len drift diffusion rng = Some ((asks, bids), rng')"
  shows "List.length asks = Suc (2 * unat exchanges * (len - 1)) \<and> List.length bids = List.length asks"
proof -
  obtain normal where normal: "rn_normal R (F64_Fin 0) (F64_Fin 1) = Some normal"
    using assms by (auto simp: trend_def bind_eq_Some_conv)
  obtain a b r where loop: "trend_loop R D move exchanges spread (f64_add (f64_round (1 / 10)) (f64_mul drift dt))
      (f64_mul diffusion (f64_sqrt dt)) normal (len - Suc 0) s_0 tick rng = ((a, b), r)"
    by (metis prod.exhaust)
  show ?thesis using assms trend_loop_lengths [OF loop] by (auto simp: trend_def normal loop Let_def)
qed

text \<open>
  A machine sends its snapshot interleaved, until the channel refuses a depth; what comes after the
  refused depth is not offered.
\<close>

lemma send_depths_all:
  "fst (send_depths send depths ch) = Inr () \<Longrightarrow>
    snd (send_depths send depths ch) = foldl (\<lambda>ch depth. snd (send ch depth)) ch depths"
  by (induction depths arbitrary: ch) (auto split: prod.splits sum.splits)

lemma send_depths_refused:
  "fst (send_depths send depths ch) = Inl e \<Longrightarrow>
    \<exists>taken refused rest. depths = taken @ refused # rest \<and>
      snd (send_depths send depths ch) = foldl (\<lambda>ch depth. snd (send ch depth)) ch (taken @ [refused]) \<and>
      e = HotExchangeStreamSnapshot ''failed to send depth to orderbook''"
proof (induction depths arbitrary: ch)
  case (Cons depth depths)
  obtain result ch1 where send: "send ch depth = (result, ch1)" by fastforce
  show ?case
  proof (cases result)
    case (Inl refused)
    then show ?thesis
      using Cons.prems send by (intro exI [of _ "[]"] exI [of _ depth] exI [of _ depths]) simp
  next
    case (Inr u)
    then obtain taken refused rest where "depths = taken @ refused # rest"
      "snd (send_depths send depths ch1) = foldl (\<lambda>ch depth. snd (send ch depth)) ch1 (taken @ [refused])"
      "e = HotExchangeStreamSnapshot ''failed to send depth to orderbook''"
      using Cons.IH [of ch1] Cons.prems send by auto
    then show ?thesis
      using Inr send by (intro exI [of _ "depth # taken"] exI [of _ refused] exI [of _ rest]) simp
  qed
qed simp

lemma built_snapshot_is_sent:
  assumes "machine_build_snapshot R D this rng = Some (books, built, rng')"
  shows "produce_snapshot_depths interleave send True built =
    (case send_depths send (interleave (fst books) (snd books)) (mc_depth_producer this) of
       (result, ch) \<Rightarrow> Returns (result, built\<lparr>mc_depth_producer := ch\<rparr>))"
  using assms
  by (auto simp: machine_build_snapshot_def bind_eq_Some_conv produce_snapshot_depths_def case_prod_beta)

end
