(* ===== verification/Exchange_Stubs.thy ===== *)
theory Exchange_Stubs
  imports Depth_Generator
begin

text \<open>
  \<open>testing/exchange-stubs\<close>: the server that stands for an exchange in the tests. It answers the
  request for a snapshot with a balanced book, and sends a random depth over its websocket each
  time it is told to. Sockets, tokio's channel, \<open>serde_json\<close> and \<open>port_killer\<close> are arguments.
\<close>

definition EXCHANGE_LOCATIONS :: u8 where "EXCHANGE_LOCATIONS = 2"

subsection \<open>The server\<close>

record socket_addr_v4 =
  sa_ip :: string
  sa_port :: u16

definition socket_addr_to_string :: "socket_addr_v4 \<Rightarrow> string" where
  "socket_addr_to_string a = sa_ip a @ '':'' @ digits (unat (sa_port a))"

text \<open>
  tokio's \<open>mpsc\<close>: a channel of some capacity, \<open>try_send\<close> and \<open>recv\<close>. The server keeps both halves,
  so they are one queue here; the sending half of the shutdown channel is handed out.
\<close>

record ('d, 'q, 'e) mpsc =
  mp_channel :: "nat \<Rightarrow> 'q"
  mp_try_send :: "'q \<Rightarrow> 'd depth_update \<Rightarrow> 'e + 'q"
  mp_recv :: "'q \<Rightarrow> ('d depth_update option \<times> 'q) run"

record ('q, 'sink) exchange_server =
  sv_ws_address :: socket_addr_v4
  sv_http_address :: socket_addr_v4
  sv_depths :: 'q
  sv_depth_sink :: "'sink option"

datatype 'e stub_error = Boxed 'e | Other string

definition exchange_server_new ::
  "('d, 'q, 'e) mpsc \<Rightarrow> (u16 \<Rightarrow> 'e + bool) \<Rightarrow> string \<Rightarrow> u16 \<Rightarrow> u16 \<Rightarrow> 'e stub_error + ('q, 'sink) exchange_server" where
  "exchange_server_new M kill name ws_port_num http_port_num =
     (case kill ws_port_num of
        Inl e \<Rightarrow> Inl (Boxed e)
      | Inr _ \<Rightarrow>
          (case kill http_port_num of
             Inl e \<Rightarrow> Inl (Boxed e)
           | Inr _ \<Rightarrow>
               (let ip_address = ''127.0.0.1''
                in Inr \<lparr>sv_ws_address = \<lparr>sa_ip = ip_address, sa_port = ws_port_num\<rparr>,
                        sv_http_address = \<lparr>sa_ip = ip_address, sa_port = http_port_num\<rparr>,
                        sv_depths = mp_channel M 10, sv_depth_sink = None\<rparr>)))"

definition ws_ip_address :: "('q, 'sink) exchange_server \<Rightarrow> string" where
  "ws_ip_address this = socket_addr_to_string (sv_ws_address this)"

definition http_ip_address :: "('q, 'sink) exchange_server \<Rightarrow> string" where
  "http_ip_address this = socket_addr_to_string (sv_http_address this)"

text \<open>
  \<open>run_websocket\<close>: bind, then wait for clients; \<open>accepts\<close> are the results of \<open>accept\<close> in their
  order, and after them none comes. A failed accept is passed over; the first client decides.
\<close>

fun accept_loop ::
  "('c \<Rightarrow> 'e + 'sink) \<Rightarrow> ('e + 'c) list \<Rightarrow> ('q, 'sink) exchange_server \<Rightarrow>
   ('e stub_error + unit) run \<times> ('q, 'sink) exchange_server" where
  "accept_loop accept_async [] this = (Runs_On, this)"
| "accept_loop accept_async (Inl _ # accepts) this = accept_loop accept_async accepts this"
| "accept_loop accept_async (Inr client_stream # accepts) this =
     (case accept_async client_stream of
        Inr ws_sink \<Rightarrow> (Returns (Inr ()), this\<lparr>sv_depth_sink := Some ws_sink\<rparr>)
      | Inl connection_error \<Rightarrow> (Returns (Inl (Boxed connection_error)), this))"

definition run_websocket ::
  "(socket_addr_v4 \<Rightarrow> 'e + unit) \<Rightarrow> ('c \<Rightarrow> 'e + 'sink) \<Rightarrow> ('e + 'c) list \<Rightarrow> ('q, 'sink) exchange_server \<Rightarrow>
   ('e stub_error + unit) run \<times> ('q, 'sink) exchange_server" where
  "run_websocket tcp_bind accept_async accepts this =
     (case tcp_bind (sv_ws_address this) of
        Inl e \<Rightarrow> (Returns (Inl (Boxed e)), this)
      | Inr _ \<Rightarrow> accept_loop accept_async accepts this)"

subsection \<open>The snapshot over HTTP\<close>

text \<open>The answer to a request for \<open>/depths\<close>: the book of \<open>depth_balanced_orderbook(2, 40, 2700)\<close>.\<close>

definition stub_snapshot ::
  "('n, 'rng) random \<Rightarrow> 'd decimals \<Rightarrow> 'rng \<Rightarrow> ('d http_snapshot \<times> 'rng) option" where
  "stub_snapshot R D rng =
     do {
       ((asks, bids), rng) \<leftarrow>
         depth_balanced_orderbook R D generator_default (unat EXCHANGE_LOCATIONS) 40 2700 rng;
       let binance_asks = map (\<lambda>depth. \<lparr>bd_price = du_p depth, bd_quantity = du_q depth\<rparr>) asks;
       let binance_bids = map (\<lambda>depth. \<lparr>bd_price = du_p depth, bd_quantity = du_q depth\<rparr>) bids;
       Some (\<lparr>hs_retcode = Some 0, hs_lastUpdateId = 100, hs_asks = binance_asks, hs_bids = binance_bids\<rparr>, rng)
     }"

text \<open>Whether the HTTP server ends by itself or is shut down (\<open>ends\<close>), the result is \<open>Ok\<close>.\<close>

definition run_http_server :: "bool \<Rightarrow> ('e stub_error + unit) run" where
  "run_http_server ends = (if ends then Returns (Inr ()) else Runs_On)"

definition shutdown_http :: "'e stub_error + unit" where "shutdown_http = Inr ()"

subsection \<open>Depths over the websocket\<close>

definition convert_to_binance :: "'d depth_update list \<Rightarrow> 'd ws_depth_update list" where
  "convert_to_binance depth_updates =
     (let binance_depth_updates =
        map (\<lambda>depth_update. \<lparr>bd_price = du_p depth_update, bd_quantity = du_q depth_update\<rparr>) depth_updates
      in [\<lparr>wd_e = '''', wd_E = F64_Fin 0, wd_s = F64_Fin 0, wd_U = F64_Fin 0, wd_u = F64_Fin 0,
           wd_b = binance_depth_updates, wd_a = []\<rparr>])"

definition supply_depth_internal_ws ::
  "('n, 'rng) random \<Rightarrow> 'd decimals \<Rightarrow> ('d, 'q, 'e) mpsc \<Rightarrow> ('q, 'sink) exchange_server \<Rightarrow> 'rng \<Rightarrow>
   (('e stub_error + unit) \<times> ('q, 'sink) exchange_server \<times> 'rng) run" where
  "supply_depth_internal_ws R D M this rng =
     (case depth_message_random R D generator_default rng of
        None \<Rightarrow> Panics
      | Some (depth, rng) \<Rightarrow>
          (case mp_try_send M (sv_depths this) depth of
             Inl e \<Rightarrow> Returns (Inl (Boxed e), this, rng)
           | Inr q \<Rightarrow> Returns (Inr (), this\<lparr>sv_depths := q\<rparr>, rng)))"

text \<open>\<open>sink_send\<close> sends one message: the result, and the sink after it.\<close>

definition fanout_depth ::
  "('d, 'q, 'e) mpsc \<Rightarrow> ('d ws_depth_update \<Rightarrow> 'e + string) \<Rightarrow> ('sink \<Rightarrow> message \<Rightarrow> ('e + unit) \<times> 'sink) \<Rightarrow>
   ('q, 'sink) exchange_server \<Rightarrow> (('e stub_error + unit) \<times> ('q, 'sink) exchange_server) run" where
  "fanout_depth M to_string sink_send this =
     then_run (mp_recv M (sv_depths this))
       (\<lambda>(received, q).
          let this = this\<lparr>sv_depths := q\<rparr>
          in case received of
               None \<Rightarrow> Returns (Inl (Other ''No depth message received''), this)
             | Some depth_msg \<Rightarrow>
                 (case convert_to_binance [depth_msg] of
                    [] \<Rightarrow> Returns (Inl (Other ''failed to create binance object''), this)
                  | obj # _ \<Rightarrow>
                      (case to_string (obj\<lparr>wd_e := ''''\<rparr>) of
                         Inl e \<Rightarrow> Returns (Inl (Boxed e), this)
                       | Inr obj_text \<Rightarrow>
                           (case sv_depth_sink this of
                              None \<Rightarrow> Returns (Inl (Other ''failed to fanout depths due to no websocket client being established within the exchange server''), this)
                            | Some depth_sink \<Rightarrow>
                                (case sink_send depth_sink (Text obj_text) of
                                   (Inl e, sink) \<Rightarrow> Returns (Inl (Boxed e), this\<lparr>sv_depth_sink := Some sink\<rparr>)
                                 | (Inr _, sink) \<Rightarrow> Returns (Inr (), this\<lparr>sv_depth_sink := Some sink\<rparr>))))))"

definition supply_depths ::
  "('n, 'rng) random \<Rightarrow> 'd decimals \<Rightarrow> ('d, 'q, 'e) mpsc \<Rightarrow> ('d ws_depth_update \<Rightarrow> 'e + string) \<Rightarrow>
   ('sink \<Rightarrow> message \<Rightarrow> ('e + unit) \<times> 'sink) \<Rightarrow> ('q, 'sink) exchange_server \<Rightarrow> 'rng \<Rightarrow>
   (('e stub_error + unit) \<times> ('q, 'sink) exchange_server \<times> 'rng) run" where
  "supply_depths R D M to_string sink_send this rng =
     then_run (supply_depth_internal_ws R D M this rng)
       (\<lambda>(result, this, rng).
          case result of
            Inl e \<Rightarrow> Returns (Inl e, this, rng)
          | Inr _ \<Rightarrow>
              then_run (fanout_depth M to_string sink_send this)
                (\<lambda>(result, this). Returns (result, this, rng)))"

definition force_disconnect_ws ::
  "('sink \<Rightarrow> ('e + unit) \<times> 'sink) \<Rightarrow> ('q, 'sink) exchange_server \<Rightarrow>
   (('e stub_error + unit) \<times> ('q, 'sink) exchange_server) run" where
  "force_disconnect_ws sink_close this =
     (case sv_depth_sink this of
        None \<Rightarrow> Panics
      | Some depth_sink \<Rightarrow>
          (case sink_close depth_sink of
             (result, sink) \<Rightarrow> Returns (map_sum Boxed id result, this\<lparr>sv_depth_sink := Some sink\<rparr>)))"

text \<open>
  \<open>main\<close> of \<open>testing/exchange-server\<close>: the HTTP server runs to its end before the websocket is opened.
  The ports come from the environment.
\<close>

definition exchange_server_main ::
  "('d, 'q, 'e) mpsc \<Rightarrow> (u16 \<Rightarrow> 'e + bool) \<Rightarrow> bool \<Rightarrow> (socket_addr_v4 \<Rightarrow> 'e + unit) \<Rightarrow> ('c \<Rightarrow> 'e + 'sink) \<Rightarrow>
   ('e + 'c) list \<Rightarrow> 'e + u16 \<Rightarrow> 'e + u16 \<Rightarrow> ('e stub_error + unit) run" where
  "exchange_server_main M kill http_ends tcp_bind accept_async accepts ws_port http_port =
     (case ws_port of
        Inl e \<Rightarrow> Returns (Inl (Boxed e))
      | Inr ws_port \<Rightarrow>
          (case http_port of
             Inl e \<Rightarrow> Returns (Inl (Boxed e))
           | Inr http_port \<Rightarrow>
               then_run (unwrap (exchange_server_new M kill ''test'' ws_port http_port))
                 (\<lambda>exchange_server.
                    then_run (run_http_server http_ends)
                      (\<lambda>result. case result of
                           Inl e \<Rightarrow> Returns (Inl e)
                         | Inr _ \<Rightarrow> fst (run_websocket tcp_bind accept_async accepts exchange_server)))))"

subsection \<open>What a client of the stub receives\<close>

text \<open>
  What the stub relies on: from an empty queue comes the depth that was just sent, and JSON brings
  back the two lists of an update; its other fields are skipped by \<open>serde\<close>.
\<close>

definition receives_what_is_sent :: "('d, 'q, 'e) mpsc \<Rightarrow> 'q \<Rightarrow> bool" where
  "receives_what_is_sent M q \<longleftrightarrow>
     (\<forall>depth q'. mp_try_send M q depth = Inr q' \<longrightarrow> mp_recv M q' = Returns (Some depth, q))"

definition json_brings_back ::
  "('d ws_depth_update \<Rightarrow> 'e + string) \<Rightarrow> (string \<Rightarrow> 'j + 'd ws_depth_update) \<Rightarrow> bool" where
  "json_brings_back to_string from_str \<longleftrightarrow>
     (\<forall>w t. to_string w = Inr t \<longrightarrow> (\<exists>w'. from_str t = Inr w' \<and> wd_b w' = wd_b w \<and> wd_a w' = wd_a w))"

lemma fanout_depth_ok:
  assumes "fanout_depth M to_string sink_send this = Returns (Inr (), this')"
    and "mp_recv M (sv_depths this) = Returns (Some depth, q)"
  obtains t sink sink' where "to_string (hd (convert_to_binance [depth])) = Inr t"
    and "sv_depth_sink this = Some sink" and "sink_send sink (Text t) = (Inr (), sink')"
    and "this' = this\<lparr>sv_depths := q, sv_depth_sink := Some sink'\<rparr>"
  using assms
  by (auto simp: fanout_depth_def convert_to_binance_def Let_def split: sum.splits option.splits prod.splits)

text \<open>
  C28. Every depth the stub supplies reaches its client as a bid: when \<open>supply_depths\<close> succeeds, the
  message it put into the websocket parses, and gives the client one bid with the price and the
  quantity that were drawn, and no ask, whichever side the depth was drawn for and whatever
  exchange it was drawn at. The queue is left as it was.
\<close>

theorem stub_supplies_bids_only:
  assumes queue: "receives_what_is_sent M (sv_depths this)"
    and json: "json_brings_back to_string from_str"
    and supplied: "supply_depths R D M to_string sink_send this rng = Returns (Inr (), this', rng')"
  shows "\<exists>depth sink t w. depth_message_random R D generator_default rng = Some (depth, rng') \<and>
    sv_depth_sink this = Some sink \<and> sink_send sink (Text t) = (Inr (), the (sv_depth_sink this')) \<and>
    sv_depths this' = sv_depths this \<and> ws_depth_update_from from_str (Text t) = Some w \<and>
    ws_depth_update_depths w location =
      ([\<lparr>du_k = 0, du_p = du_p depth, du_q = du_q depth, du_l = location, du_s = False\<rparr>], [])"
proof -
  note supply_defs = supply_depths_def supply_depth_internal_ws_def
  obtain depth rng1 where drawn: "depth_message_random R D generator_default rng = Some (depth, rng1)"
    using supplied by (cases "depth_message_random R D generator_default rng") (auto simp: supply_defs)
  obtain q where sent: "mp_try_send M (sv_depths this) depth = Inr q"
    using supplied drawn by (cases "mp_try_send M (sv_depths this) depth") (auto simp: supply_defs)
  have fan: "fanout_depth M to_string sink_send (this\<lparr>sv_depths := q\<rparr>) = Returns (Inr (), this')"
    and depth: "depth_message_random R D generator_default rng = Some (depth, rng')"
    using supplied drawn sent by (auto simp: supply_defs then_run_Returns)
  have recv: "mp_recv M (sv_depths (this\<lparr>sv_depths := q\<rparr>)) = Returns (Some depth, sv_depths this)"
    using queue sent by (simp add: receives_what_is_sent_def)
  from fan recv obtain t sink sink' where t: "to_string (hd (convert_to_binance [depth])) = Inr t"
    and sink: "sv_depth_sink this = Some sink" "sink_send sink (Text t) = (Inr (), sink')"
    and this': "this' = this\<lparr>sv_depths := sv_depths this, sv_depth_sink := Some sink'\<rparr>"
    by (rule fanout_depth_ok) simp
  obtain w where "from_str t = Inr w" "wd_b w = [\<lparr>bd_price = du_p depth, bd_quantity = du_q depth\<rparr>]" "wd_a w = []"
    using json t by (fastforce simp: json_brings_back_def convert_to_binance_def)
  then have "ws_depth_update_from from_str (Text t) = Some w" "ws_depth_update_depths w location =
      ([\<lparr>du_k = 0, du_p = du_p depth, du_q = du_q depth, du_l = location, du_s = False\<rparr>], [])"
    by (simp_all add: ws_depth_update_from_def from_message_def ws_depth_update_depths_def)
  then show ?thesis using depth sink this' by auto
qed

text \<open>A stub with an empty queue and a client, and a coin that falls on the second side.\<close>

definition tails :: "(unit, nat) random" where
  "tails = always_one\<lparr>rn_bool := (\<lambda>g. (False, g))\<rparr>"

definition list_queue :: "(int, int depth_update list, unit) mpsc" where
  "list_queue = \<lparr>mp_channel = (\<lambda>_. []),
     mp_try_send = (\<lambda>q depth. if List.length q < 10 then Inr (q @ [depth]) else Inl ()),
     mp_recv = (\<lambda>q. case q of [] \<Rightarrow> Runs_On | depth # q \<Rightarrow> Returns (Some depth, q))\<rparr>"

definition idle_stub :: "(int depth_update list, message list) exchange_server" where
  "idle_stub = \<lparr>sv_ws_address = \<lparr>sa_ip = ''127.0.0.1'', sa_port = 8080\<rparr>,
     sv_http_address = \<lparr>sa_ip = ''127.0.0.1'', sa_port = 9500\<rparr>, sv_depths = [], sv_depth_sink = Some []\<rparr>"

definition tails_depth :: "int depth_update" where
  "tails_depth = fst (the (depth_message_random tails cents_rounded generator_default 0))"

definition tails_update :: "int ws_depth_update" where
  "tails_update = hd (convert_to_binance [tails_depth])"

definition to_json :: "int ws_depth_update \<Rightarrow> unit + string" where
  "to_json w = (if w = tails_update then Inr ''depth'' else Inl ())"

definition of_json :: "string \<Rightarrow> unit + int ws_depth_update" where
  "of_json t = (if t = ''depth'' then Inr tails_update else Inl ())"

lemma tails_drawn:
  "depth_message_random tails cents_rounded generator_default 0 = Some (tails_depth, 2)"
  "du_k tails_depth = 1" "du_l tails_depth = 2"
  by (simp_all add: tails_depth_def depth_message_random_def tails_def always_one_def)

lemma stub_supplies_bids_only_witness:
  "\<exists>depth w. depth_message_random tails cents_rounded generator_default 0 = Some (depth, 2) \<and>
     du_k depth = 1 \<and> du_l depth = 2 \<and> ws_depth_update_from of_json (Text ''depth'') = Some w \<and>
     ws_depth_update_depths w 1 =
       ([\<lparr>du_k = 0, du_p = du_p depth, du_q = du_q depth, du_l = 1, du_s = False\<rparr>], [])"
proof -
  have queue: "receives_what_is_sent list_queue (sv_depths idle_stub)"
    by (simp add: receives_what_is_sent_def list_queue_def idle_stub_def)
  have json: "json_brings_back to_json of_json"
    by (simp add: json_brings_back_def to_json_def of_json_def)
  have "to_json (hd (convert_to_binance [tails_depth])) = Inr ''depth''"
    by (simp add: to_json_def tails_update_def)
  then have supplied: "supply_depths tails cents_rounded list_queue to_json
      (\<lambda>sink m. (Inr (), sink @ [m])) idle_stub 0 = Returns (Inr (), idle_stub\<lparr>sv_depth_sink := Some [Text ''depth'']\<rparr>, 2)"
    by (simp add: supply_depths_def supply_depth_internal_ws_def fanout_depth_def tails_drawn(1) list_queue_def
        idle_stub_def convert_to_binance_def)
  show ?thesis
    using stub_supplies_bids_only [OF queue json supplied, of 1] tails_drawn
    by (auto simp: idle_stub_def)
qed

subsection \<open>The snapshot of the stub\<close>

text \<open>
  The handler passes the number of exchanges as the depth and 40 as the number of exchanges: the
  snapshot has 80 asks and 80 bids, on two prices a side only, each of them forty times.
\<close>

lemma stub_snapshot_book:
  assumes "rn_normal R (F64_Fin 0) (F64_Fin 200) = Some normal"
  shows "\<exists>snapshot rng'. stub_snapshot R D rng = Some (snapshot, rng') \<and>
    map bd_price (hs_asks snapshot) =
      concat (replicate 40 [from_f64_or_default D (hundredths 270000), from_f64_or_default D (hundredths 270001)]) \<and>
    map bd_price (hs_bids snapshot) =
      concat (replicate 40 [from_f64_or_default D (hundredths 270000), from_f64_or_default D (hundredths 269999)])"
proof -
  have normal: "rn_normal R (F64_Fin 0) (dm_vol_std generator_default) = Some normal"
    using assms by (simp add: generator_default_def)
  obtain asks bids rng' where
    book: "depth_balanced_orderbook R D generator_default 2 40 2700 rng = Some ((asks, bids), rng')"
    and asks: "map depth_place asks = grid_side D 0 1 2700 2 [1..<Suc 40]"
    and bids: "map depth_place bids = grid_side D 1 (- 1) 2700 2 [1..<Suc 40]"
    using balanced_orderbook_places [OF normal, of 2700 2 D 40 rng] by (auto simp: generator_default_def)
  have prices: "map du_p depths = map (\<lambda>(k, p, l, s). p) (map depth_place depths)" for depths :: "'c depth_update list"
    by (simp add: depth_place_def o_def)
  have two: "[0..<2] = [0, 1 :: nat]" by (simp add: upt_rec)
  have "map du_p asks =
      concat (replicate 40 [from_f64_or_default D (hundredths 270000), from_f64_or_default D (hundredths 270001)])"
    "map du_p bids =
      concat (replicate 40 [from_f64_or_default D (hundredths 270000), from_f64_or_default D (hundredths 269999)])"
    unfolding prices asks bids grid_side_prices two by (simp_all del: upt_Suc replicate.simps)
  then show ?thesis
    using book by (simp add: stub_snapshot_def EXCHANGE_LOCATIONS_def o_def)
qed

end
