(* ===== verification/Channel_Tests.thy ===== *)
theory Channel_Tests
  imports Zc_Channel_Async
begin

text \<open>
  The sequential tests of \<open>zc-async-channel/tests/channel.rs\<close>, replayed on the model with any values:
  each definition performs the operations of a test in its order, a timeout being one poll whose
  future is then dropped and a spawned task a task number, and its lemma says that the assertions
  hold. The tests that run loops under the executor are in \<open>Channel_Task_Tests\<close>.
\<close>

definition fresh_split :: "nat \<Rightarrow> nat \<Rightarrow> (nat \<times> 't channel) option" where
  "fresh_split N S = do { ch \<leftarrow> channel_new N S; split ch }"

text \<open>\<open>receiver_closes_only_after_last_sender_drops\<close>, with two senders at most.\<close>

definition closes_after_last_sender ::
  "'t \<Rightarrow> 't \<Rightarrow> (nat option \<times> ('t + unit) list \<times> 't option poll list) option" where
  "closes_after_last_sender a b =
     do {
       (tx1, ch) \<leftarrow> fresh_split 4 2;
       (tx2, ch) \<leftarrow> clone ch;
       let (refused, ch) = try_clone ch;
       let (r1, ch) = try_send ch a;
       let ch = drop_sender ch tx1;
       (tx3, ch) \<leftarrow> (case try_clone ch of (None, _) \<Rightarrow> None | (Some i, ch) \<Rightarrow> Some (i, ch));
       let ch = drop_sender ch tx2;
       let (r2, ch) = try_send ch b;
       let ch = drop_sender ch tx3;
       let (x, ch) = recv_poll ch 0;
       let (y, ch) = recv_poll ch 0;
       let (z, ch) = recv_poll ch 0;
       Some (refused, [r1, r2], [x, y, z])
     }"

lemma closes_after_last_sender_passes:
  fixes a b :: "'t :: equal"
  shows "closes_after_last_sender a b =
    Some (None, [Inr (), Inr ()], [Ready (Some a), Ready (Some b), Ready None])"
  by code_simp

text \<open>\<open>timeout_on_empty_recv_then_channel_still_works\<close>: the receive that timed out left its waker, which
  the send wakes.\<close>

definition empty_recv_times_out :: "'t \<Rightarrow> ('t option poll \<times> ('t + unit) poll \<times> 't option poll \<times> task list) option" where
  "empty_recv_times_out a =
     do {
       (tx, ch) \<leftarrow> fresh_split 1 1;
       let (timed_out, ch) = recv_poll ch 7;
       (sent, _, ch) \<leftarrow> send_poll ch tx 7 (Some a);
       let (got, ch) = recv_poll ch 7;
       Some (timed_out, sent, got, wake_log ch)
     }"

lemma empty_recv_times_out_passes:
  fixes a :: "'t :: equal"
  shows "empty_recv_times_out a = Some (Pending, Ready (Inr ()), Ready (Some a), [7])"
  by code_simp

text \<open>\<open>timeout_on_full_send_does_not_enqueue\<close>.\<close>

definition full_send_times_out :: "'t \<Rightarrow> 't \<Rightarrow> (('t + unit) poll list \<times> 't option list) option" where
  "full_send_times_out a b =
     do {
       (tx, ch) \<leftarrow> fresh_split 1 1;
       (sent, _, ch) \<leftarrow> send_poll ch tx 7 (Some a);
       (timed_out, _, ch) \<leftarrow> send_poll ch tx 7 (Some b);
       let (x, ch) = try_recv ch;
       let (y, ch) = try_recv ch;
       Some ([sent, timed_out], [x, y])
     }"

lemma full_send_times_out_passes:
  fixes a b :: "'t :: equal"
  shows "full_send_times_out a b = Some ([Ready (Inr ()), Pending], [Some a, None])"
  by code_simp

text \<open>
  \<open>receiver_drop_wakes_sender_parked_in_other_task\<close>: the sender's task is 3; the drop wakes it, and its
  next poll gives the value back.
\<close>

definition receiver_drop_wakes_sender ::
  "'t \<Rightarrow> 't \<Rightarrow> (('t + unit) poll \<times> task list \<times> ('t + unit) poll) option" where
  "receiver_drop_wakes_sender a b =
     do {
       (tx, ch) \<leftarrow> fresh_split 1 1;
       (_, _, ch) \<leftarrow> send_poll ch tx 3 (Some a);
       (parked, owned, ch) \<leftarrow> send_poll ch tx 3 (Some b);
       let ch = drop_receiver ch;
       (result, _, _) \<leftarrow> send_poll ch tx 3 owned;
       Some (parked, wake_log ch, result)
     }"

lemma receiver_drop_wakes_sender_passes:
  fixes a b :: "'t :: equal"
  shows "receiver_drop_wakes_sender a b = Some (Pending, [3], Ready (Inl b))"
  by code_simp

text \<open>
  \<open>sender_drop_wakes_receiver_parked_in_other_task\<close>, and \<open>dropping_join_handle_cancels_task_and_closes_channel\<close>,
  where the consumer's task 5 is cancelled while it is parked.
\<close>

definition sender_drop_wakes_receiver :: "(bool \<times> task list \<times> bool) option" where
  "sender_drop_wakes_receiver =
     do {
       (tx, ch) \<leftarrow> fresh_split 1 1;
       let (parked, ch) = recv_poll (ch :: nat channel) 5;
       let ch = drop_sender ch tx;
       let (result, _) = recv_poll ch 5;
       Some (parked = Pending, wake_log ch, result = Ready None)
     }"

lemma sender_drop_wakes_receiver_passes: "sender_drop_wakes_receiver = Some (True, [5], True)"
  by code_simp

definition cancelled_consumer_closes :: "'t \<Rightarrow> ('t + unit) poll option" where
  "cancelled_consumer_closes a =
     do {
       (tx, ch) \<leftarrow> fresh_split 1 1;
       let (_, ch) = recv_poll ch 5;
       let ch = drop_receiver ch;
       (result, _, _) \<leftarrow> send_poll ch tx 3 (Some a);
       Some result
     }"

lemma cancelled_consumer_closes_passes:
  fixes a :: "'t :: equal"
  shows "cancelled_consumer_closes a = Some (Ready (Inl a))"
  by code_simp

end
