(* ===== verification/Channel_Task_Tests.thy ===== *)
theory Channel_Task_Tests
  imports Channel_Executor Channel_Tests
begin

text \<open>
  The tests of \<open>zc-async-channel/tests/channel.rs\<close> that run loops of senders and a receiver under the
  executor, with any values and for every schedule: one task per sender sends its values and drops
  the sender, another receives until the end. What a test sleeps, or which timer or spawn starts a
  task, only changes the schedule.
\<close>

text \<open>
  One sender: \<open>spawned_producer_and_consumer\<close> (capacity 4), and with other capacities
  \<open>interval_ticks_feed_channel\<close>, \<open>detached_task_keeps_running\<close>, \<open>stress_capacity_one_spawned\<close> and what
  \<open>backpressure_slow_consumer_on_timers\<close> receives.
\<close>

definition spawned_producer_and_consumer :: "nat \<Rightarrow> 't list \<Rightarrow> 't tasks option" where
  "spawned_producer_and_consumer N values =
     do {
       (tx, ch) \<leftarrow> fresh_split N 4;
       Some (tasks_start (system_start ch) ((\<lambda>_. [])(tx := values)))
     }"

text \<open>Two senders, the second a clone: \<open>cloned_senders_all_deliver_and_close_after_last_drop\<close>.\<close>

definition cloned_senders_all_deliver :: "'t list \<Rightarrow> 't list \<Rightarrow> 't tasks option" where
  "cloned_senders_all_deliver from_a from_b =
     do {
       (tx1, ch) \<leftarrow> fresh_split 2 4;
       (tx2, ch) \<leftarrow> clone ch;
       Some (tasks_start (system_start ch) ((\<lambda>_. [])(tx1 := from_a, tx2 := from_b)))
     }"

lemma fresh_split_reach:
  assumes "fresh_split N S = Some (i, ch)"
  shows "chan_reach N S (system_start ch)" "live_ids ch = {i}" "rx_alive ch" "len ch = 0"
proof -
  obtain ch0 where new: "channel_new N S = Some ch0" "split ch0 = Some (i, ch)"
    using assms by (auto simp: fresh_split_def split: bind_splits)
  then show "chan_reach N S (system_start ch)" by (rule chan_reach.start)
  show "live_ids ch = {i}" "rx_alive ch" using split_new [OF new] by simp_all
  show "len ch = 0" using split_new(4) [OF new] by (simp add: contents_def)
qed

text \<open>What was accepted from a sender, when the other senders sent nothing or other values.\<close>

lemma accepted_only:
  "\<forall>j. j \<noteq> i \<longrightarrow> sent_by j acc = [] \<Longrightarrow> map snd acc = sent_by i acc"
proof -
  assume none: "\<forall>j. j \<noteq> i \<longrightarrow> sent_by j acc = []"
  have "fst a = i" if "a \<in> set acc" for a
  proof (rule ccontr)
    assume "fst a \<noteq> i"
    then have "sent_by (fst a) acc = []" using none by blast
    then show False using that by (auto simp: sent_by_def filter_empty_conv)
  qed
  then show ?thesis by (simp add: sent_by_def cong: filter_cong)
qed

lemma accepted_tagged:
  assumes "\<forall>v \<in> set (sent_by i acc). P v" and "\<forall>j. j \<noteq> i \<longrightarrow> (\<forall>v \<in> set (sent_by j acc). \<not> P v)"
  shows "filter P (map snd acc) = sent_by i acc"
proof -
  have "P (snd a) \<longleftrightarrow> fst a = i" if "a \<in> set acc" for a
    using assms that by (cases "fst a = i") (auto simp: sent_by_def)
  then show ?thesis by (simp add: sent_by_def filter_map o_def cong: filter_cong)
qed

text \<open>The end of a run from a new channel, in the form the assertions need.\<close>

lemma started_run:
  assumes "chan_reach N S (system_start ch)" "rx_alive ch" "{i. todo i \<noteq> []} \<subseteq> live_ids ch"
    and "(task_step T R ^^ n) (tasks_start (system_start ch) todo) e" "\<nexists>e'. task_step T R e e'"
  shows "tk_finished e" "received (tk_system e) = map snd (tk_accepted e)" "sent_by i (tk_accepted e) = todo i"
  using tasks_run_to_end [OF assms(1) _ _ _ _ _ assms(4)] assms(2,3,5) by (simp_all add: system_start_def)

lemma one_sender_passes:
  assumes start: "spawned_producer_and_consumer N values = Some e0"
    and run: "(task_step T R ^^ n) e0 e" "\<nexists>e'. task_step T R e e'"
  shows "tk_finished e \<and> received (tk_system e) = values"
proof -
  obtain tx ch where ch: "fresh_split N 4 = Some (tx, ch)"
    and e0: "e0 = tasks_start (system_start ch) ((\<lambda>_. [])(tx := values))"
    using start by (auto simp: spawned_producer_and_consumer_def split: bind_splits)
  note fresh = fresh_split_reach [OF ch]
  have live: "{i. ((\<lambda>_. [])(tx := values)) i \<noteq> []} \<subseteq> live_ids ch" using fresh(2) by auto
  note fin = started_run [OF fresh(1,3) live run(1) [unfolded e0] run(2)]
  have "map snd (tk_accepted e) = values" using accepted_only [of tx "tk_accepted e"] fin(3) by simp
  with fin(1,2) show ?thesis by simp
qed

lemma cloned_senders_pass:
  assumes start: "cloned_senders_all_deliver from_a from_b = Some e0"
    and tags: "\<forall>v \<in> set from_a. P v" "\<forall>v \<in> set from_b. \<not> P v"
    and run: "(task_step T R ^^ n) e0 e" "\<nexists>e'. task_step T R e e'"
  shows "tk_finished e \<and> filter P (received (tk_system e)) = from_a \<and>
    filter (\<lambda>v. \<not> P v) (received (tk_system e)) = from_b"
proof -
  obtain tx1 tx2 ch0 ch where ch0: "fresh_split 2 4 = Some (tx1, ch0)" and ch: "alloc_tx ch0 = Some (tx2, ch)"
    and e0: "e0 = tasks_start (system_start ch) ((\<lambda>_. [])(tx1 := from_a, tx2 := from_b))"
    using start
    by (auto simp: cloned_senders_all_deliver_def clone_def try_clone_def
        split: bind_splits option.splits prod.splits)
  note fresh = fresh_split_reach [OF ch0]
  have "ids_ok ch0" using chan_reach_ok [OF fresh(1)] system_okD(2) by (fastforce simp: system_start_def)
  note got = alloc_tx_Some [OF this ch]
  have "chan_step (system_start ch0) (system_start ch0\<lparr>chan := ch\<rparr>)"
    using fresh(2) ch by (intro chan_step.clone) (simp_all add: system_start_def try_clone_def)
  from chan_reach.step [OF fresh(1) this] have reach: "chan_reach 2 4 (system_start ch)"
    by (simp add: system_start_def)
  have alive: "rx_alive ch" using fresh(3) got(3) by simp
  have two: "tx1 \<noteq> tx2" "live_ids ch = {tx2, tx1}" using got(2,4) fresh(2) by auto
  have live: "{i. ((\<lambda>_. [])(tx1 := from_a, tx2 := from_b)) i \<noteq> []} \<subseteq> live_ids ch" using two by auto
  note fin = started_run [OF reach alive live run(1) [unfolded e0] run(2)]
  have "filter P (map snd (tk_accepted e)) = sent_by tx1 (tk_accepted e)"
    by (rule accepted_tagged) (use fin(3) tags two(1) in auto)
  moreover have "filter (\<lambda>v. \<not> P v) (map snd (tk_accepted e)) = sent_by tx2 (tk_accepted e)"
    by (rule accepted_tagged) (use fin(3) tags two(1) in auto)
  ultimately show ?thesis using fin two(1) by simp
qed

end
