(* ===== verification/Pool_Tests.thy ===== *)
theory Pool_Tests
  imports Depth_Pool
begin

text \<open>
  The tests of \<open>depth-pool/src/lib.rs\<close>, replayed on the model over any lawful rkyv and any
  decimals: each definition performs the calls of a test in its order and returns the values of its
  assertions, \<open>None\<close> being a failed \<open>expect\<close>. Its lemma says that the assertions hold.
\<close>

definition expect :: "'e + 'a \<Rightarrow> 'a option" where
  "expect r = (case r of Inl _ \<Rightarrow> None | Inr x \<Rightarrow> Some x)"

lemma expect_simps [simp]: "expect (Inl e) = None" "expect (Inr x) = Some x"
  by (simp_all add: expect_def)

definition pool_sample :: "'d decimal \<Rightarrow> 'd depth_update option" where
  "pool_sample D =
     do {
       p \<leftarrow> dec_new D 2712345 2;
       q \<leftarrow> dec_new D 1234 6;
       Some \<lparr>du_k = 1, du_p = p, du_q = q, du_l = 3, du_s = True\<rparr>
     }"

definition zero_copy_access_matches_original ::
  "'d decimal \<Rightarrow> ('arena, 'err) rkyv \<Rightarrow> ('d \<Rightarrow> bytes) \<Rightarrow> (bytes \<Rightarrow> 'd) \<Rightarrow> bool list option" where
  "zero_copy_access_matches_original D R serialize deserialize =
     do {
       update \<leftarrow> pool_sample D;
       bytes \<leftarrow> expect (to_bytes R serialize update);
       archived \<leftarrow> expect (access_depth_update R bytes);
       owned \<leftarrow> expect (archived_to_owned R deserialize archived);
       Some [ad_k archived = 1, ad_l archived = 3, ad_s archived = True, owned = update]
     }"

definition round_trip_deserialize ::
  "'d decimal \<Rightarrow> ('arena, 'err) rkyv \<Rightarrow> ('d \<Rightarrow> bytes) \<Rightarrow> (bytes \<Rightarrow> 'd) \<Rightarrow> bool list option" where
  "round_trip_deserialize D R serialize deserialize =
     do {
       update \<leftarrow> pool_sample D;
       bytes \<leftarrow> expect (to_bytes R serialize update);
       archived \<leftarrow> expect (access_depth_update R bytes);
       recovered \<leftarrow> expect (deserialize_depth_update R deserialize archived);
       p \<leftarrow> dec_new D 2712345 2;
       q \<leftarrow> dec_new D 1234 6;
       owned \<leftarrow> expect (archived_to_owned R deserialize archived);
       Some [recovered = update, du_p recovered = p, du_q recovered = q, owned = update]
     }"

definition unchecked_access_matches_checked ::
  "'d decimal \<Rightarrow> ('arena, 'err) rkyv \<Rightarrow> ('d \<Rightarrow> bytes) \<Rightarrow> (bytes \<Rightarrow> 'd) \<Rightarrow> bool list option" where
  "unchecked_access_matches_checked D R serialize deserialize =
     do {
       update \<leftarrow> pool_sample D;
       bytes \<leftarrow> expect (to_bytes R serialize update);
       checked \<leftarrow> expect (access_depth_update R bytes);
       let unchecked = access_depth_update_unchecked R bytes;
       a \<leftarrow> expect (archived_to_owned R deserialize checked);
       b \<leftarrow> expect (archived_to_owned R deserialize unchecked);
       Some [a = b]
     }"

definition arena_reuse_produces_identical_bytes ::
  "'d decimal \<Rightarrow> ('arena, 'err) rkyv \<Rightarrow> ('d \<Rightarrow> bytes) \<Rightarrow> (bytes \<Rightarrow> 'd) \<Rightarrow> bool list option" where
  "arena_reuse_produces_identical_bytes D R serialize deserialize =
     do {
       update \<leftarrow> pool_sample D;
       let (first, arena) = serialize_with R serialize update (rk_arena_new R);
       a \<leftarrow> expect first;
       let (second, arena) = serialize_with R serialize update arena;
       b \<leftarrow> expect second;
       archived \<leftarrow> expect (access_depth_update R b);
       owned \<leftarrow> expect (archived_to_owned R deserialize archived);
       Some [a = b, owned = update]
     }"

definition rejects_garbage_bytes :: "('arena, 'err) rkyv \<Rightarrow> bool" where
  "rejects_garbage_bytes R = isl (access_depth_update R (replicate 4 (char_of (0xFF :: nat))))"

text \<open>The decimals of the sample exist, and rkyv can write it, when memory does not run out.\<close>

lemma pool_sample_written:
  assumes laws: "rkyv_laws R" and new: "dec_new D 2712345 2 = Some p" "dec_new D 1234 6 = Some q"
    and writes: "\<And>a arena. \<not> isl (rk_write R a arena)"
  obtains u bs where "pool_sample D = Some u" "u = \<lparr>du_k = 1, du_p = p, du_q = q, du_l = 3, du_s = True\<rparr>"
    "\<forall>arena. fst (serialize_with R serialize u arena) = Inr bs" "to_bytes R serialize u = Inr bs"
    "access_depth_update R bs = Inr (archive_depth_update serialize u)"
    "access_depth_update_unchecked R bs = archive_depth_update serialize u"
proof -
  let ?u = "\<lparr>du_k = 1, du_p = p, du_q = q, du_l = 3, du_s = True\<rparr>"
  obtain bs where bs: "rk_write R (archive_depth_update serialize ?u) (rk_arena_new R) = Inr bs"
    using writes by (metis isl_def sum.exhaust_sel)
  have all: "rk_write R (archive_depth_update serialize ?u) arena = Inr bs" for arena
    using laws bs unfolding rkyv_laws_def by metis
  have "rk_access R bs = Inr (archive_depth_update serialize ?u)"
    "rk_access_unchecked R bs = archive_depth_update serialize ?u"
    using laws bs unfolding rkyv_laws_def by blast+
  then show thesis
    using new all
    by (intro that [of ?u bs])
      (simp_all add: pool_sample_def serialize_with_def to_bytes_def access_depth_update_def
        access_depth_update_unchecked_def)
qed

lemma pool_tests_pass:
  assumes laws: "rkyv_laws R" and dec: "\<And>d. deserialize (serialize d) = d"
    and new: "dec_new D 2712345 2 = Some p" "dec_new D 1234 6 = Some q"
    and writes: "\<And>a arena. \<not> isl (rk_write R a arena)"
  shows "zero_copy_access_matches_original D R serialize deserialize = Some [True, True, True, True]"
    and "round_trip_deserialize D R serialize deserialize = Some [True, True, True, True]"
    and "unchecked_access_matches_checked D R serialize deserialize = Some [True]"
    and "arena_reuse_produces_identical_bytes D R serialize deserialize = Some [True, True]"
proof -
  obtain u bs where u: "pool_sample D = Some u" "u = \<lparr>du_k = 1, du_p = p, du_q = q, du_l = 3, du_s = True\<rparr>"
    "\<forall>arena. fst (serialize_with R serialize u arena) = Inr bs" "to_bytes R serialize u = Inr bs"
    "access_depth_update R bs = Inr (archive_depth_update serialize u)"
    "access_depth_update_unchecked R bs = archive_depth_update serialize u"
    by (rule pool_sample_written [OF laws new writes, of serialize])
  note returned = archive_round_trip [of R deserialize serialize u, OF laws dec]
  have fields: "ad_k (archive_depth_update serialize u) = 1" "ad_l (archive_depth_update serialize u) = 3"
    "ad_s (archive_depth_update serialize u)" "du_p u = p" "du_q u = q"
    by (simp_all add: archive_depth_update_def u(2))
  show "zero_copy_access_matches_original D R serialize deserialize = Some [True, True, True, True]"
    by (simp add: zero_copy_access_matches_original_def u(1,4-6) returned fields)
  show "round_trip_deserialize D R serialize deserialize = Some [True, True, True, True]"
    by (simp add: round_trip_deserialize_def u(1,4-6) returned fields new)
  show "unchecked_access_matches_checked D R serialize deserialize = Some [True]"
    by (simp add: unchecked_access_matches_checked_def u(1,4-6) returned)
  show "arena_reuse_produces_identical_bytes D R serialize deserialize = Some [True, True]"
    using u(3) by (simp add: arena_reuse_produces_identical_bytes_def u(1,4-6) returned case_prod_beta Let_def)
qed

text \<open>The garbage is refused by an rkyv that checks the size of what it is given.\<close>

lemma rejects_garbage_passes:
  assumes "\<And>bs. List.length bs < 5 \<Longrightarrow> isl (rk_access R bs)"
  shows "rejects_garbage_bytes R"
  using assms by (simp add: rejects_garbage_bytes_def access_depth_update_def)

lemma flat_rejects_garbage: "rejects_garbage_bytes flat_rkyv"
  by (rule rejects_garbage_passes) (simp add: flat_rkyv_def)

end
