(* ===== verification/Spec2Isabelle.thy ===== *)
theory Spec2Isabelle
  imports Channel_Wakeups Book_Properties Driver_Properties Market_Properties Depth_Pool
    Engine_Core Channel_Executor Quoter_Threads Market_Maker Build_Script
    Exchange_Stubs Channel_Task_Tests Driver_Tasks Driver_Startup Pool_Tests
begin

text \<open>
  A verification development for the liquidity engine: a Rust program that reads the order books
  of several exchanges over websockets, merges their depths into one order book per side, and
  serves the best deals over gRPC.

  \<^bold>\<open>How the program is put together.\<close> An \<open>ExchangeStream\<close> parses the messages of one exchange into
  slots of a depth pool and hands the slots to a bounded channel; an \<open>Exchange\<close> owns one stream,
  its websocket sink and its pool; the \<open>DepthDriver\<close> connects, subscribes, synchronises and then
  streams all exchanges as tasks of one thread; the \<open>Core\<close> owns the driver and the \<open>OrderBook\<close>, a
  map from price points to levels with one liquidity node per exchange; the quoter server
  turns quotes into gRPC responses, which the market maker prints. Two mains start these parts, and
  a build script rewrites a source file before. \<open>zc-async-channel\<close> is the single-threaded channel meant to
  connect them. The repository is in the middle of a refactoring: crates refer to modules that
  are missing (\<open>market_objects::book\<close>, the depth pool's \<open>insert\<close> and \<open>release\<close>) and some calls
  do not match the definitions they call. Such code is an argument of the model, with what the
  callers rely on as a named hypothesis, or is left out where there is nothing to model.

  \<^bold>\<open>The theories.\<close>
  \<^item> \<open>Engine_Prelude\<close>: machine integers, \<open>f64\<close>, polls, how a call ends, orderings, bit scans and ring
    indices, and the lemma collections of the development.
  \<^item> \<open>Float64\<close>: the operations of \<open>f64\<close> as exact results rounded to the nearest binary64 value, the error
    of a rounding, and steps of a hundredth that do not drift.
  \<^item> \<open>Channel_Contracts\<close>: what a bounded queue and an allocator of ids promise, as locales.
  \<^item> \<open>Zc_Channel\<close>: the ring buffer, wakers and sender ids of \<open>zc-async-channel/src/channel.rs\<close>
    (\<open>push\<close>, \<open>pop\<close>, \<open>alloc_tx\<close>, \<open>split\<close>, the drops), and the interpretations of the two
    contracts on it. \<open>Zc_Channel_Async\<close>: the futures of \<open>send\<close> and \<open>recv\<close> and a step relation over
    every handle operation in any order, with any number of futures in flight on one handle: the one
    that registered last, and those behind it, whose waker it replaced.
    \<open>Channel_Properties\<close>: C1 to C3 and C5 to C8. \<open>Channel_Wakeups\<close> (C9, C29): the wakeup that a
    future behind another one loses.
    \<open>Channel_Executor\<close> (C4): tasks under an executor that polls a task only when it was woken.
    \<open>Channel_Tests\<close>, \<open>Channel_Task_Tests\<close>: the tests of the repository, the sequential ones replayed on the
    model, those with tasks for every schedule.
  \<^item> \<open>Decimal_Ops\<close>: the operations of \<open>rust_decimal\<close> as a record of arguments, with a concrete
    instance. \<open>Book_Level\<close>, \<open>Book_Pointer\<close>, \<open>Orderbook\<close>: the files of
    \<open>orderbook/src\<close> of the same names; one locale for the two sides of the book, interpreted on
    \<open>ask_update\<close> and \<open>bid_update\<close>. \<open>Book_Properties\<close>: C10 to C12, C14 to C16 and C18; C16 is the abstract book
    the updates implement: quantities per price and exchange, and one addition.
  \<^item> \<open>Market_Objects\<close>, \<open>Market_Properties\<close>: \<open>objs/market-objects/src\<close>. \<open>Engine_Errors\<close>:
    the error types and their conversions. \<open>Engine_Config\<close>: \<open>objs/config/src/lib.rs\<close>.
  \<^item> \<open>Exchange_Env\<close>: the bounded vector, the depth pool and the parser as arguments, their laws,
    and a concrete instance. \<open>Exchange_Ingest\<close>: \<open>ingest_book\<close>. \<open>Exchange_Stream\<close>: the state of
    \<open>ExchangeStream\<close>, its construction, snapshot request and \<open>poll_next\<close>. \<open>Exchange_Run\<close>: its
    asynchronous operations. \<open>Exchange_Slots\<close>, \<open>Exchange_Ops\<close>: who owns a pool slot, and that every
    operation moves slots without losing one. \<open>Exchange_Properties\<close>: C21 to C27 and C30, which takes
    the depths of a message from the socket to the channel.
  \<^item> \<open>Exchange\<close>, \<open>Exchange_Service\<close> (C31 to C33): \<open>exchange/src/exchange.rs\<close>. A send on the websocket
    sink answers as a function of what the sink already holds, so that a sink can refuse what comes
    after its close frame. \<open>Depth_Driver\<close>, \<open>Driver_Properties\<close> (C35): \<open>depth-driver/src/lib.rs\<close>; a
    locale for a stage over all exchanges, interpreted on the five stages of the driver.
    \<open>Driver_Shared\<close> (C20): all exchanges on the one pool and channel of the driver, their calls in
    any order with the reader's releases: who owns a slot, and that the pool is large enough.
    \<open>Driver_Startup\<close> (C34): the driver's stages on that pool. \<open>Driver_Tasks\<close> (C36, C37):
    \<open>run_streams\<close>, its tasks interleaved on that pool and channel, and \<open>run\<close>.
  \<^item> \<open>Depth_Pool\<close>: the archived form of a depth of \<open>depth-pool/src/lib.rs\<close>; serializing, accessing
    and deserializing may fail. \<open>Pool_Tests\<close>: the tests of that file, replayed. \<open>Engine_Core\<close>:
    \<open>core/src/lib.rs\<close>.
  \<^item> \<open>Quoter_Server\<close> (C40): \<open>quoter-grpc-server/src/lib.rs\<close>, the server, a subscription and its task; the
    client's stream stays open while a broadcast sender lives, as the one the server holds.
    \<open>Quoter_Rpc\<close>: the gRPC stubs of \<open>proto-source/lib.rs\<close>, client and server, over tonic's operations.
    \<open>Quoter_Main\<close> (C38): \<open>bin/orderbook-quoter-server\<close>, its threads and the websocket task.
    \<open>Quoter_Threads\<close> (C19): the same threads interleaved, spawned and joined by the main thread.
    \<open>Market_Maker\<close> (C39): \<open>bin/market-maker\<close>; C39 composes it with the server through the stubs.
  \<^item> \<open>Build_Script\<close> (C17): \<open>build.rs\<close>, over a file system as a map.
  \<^item> \<open>Depth_Generator\<close> (C13): \<open>testing/depth-generator\<close>, the random depths and balanced books of the tests
    and the machine that sends them. \<open>Exchange_Stubs\<close> (C28): \<open>testing/exchange-stubs\<close> and its main, the
    server that stands for an exchange; C28 composes it with the parsing of \<open>Market_Objects\<close>.

  \<^bold>\<open>Conventions.\<close> A \<open>Result\<close> is a sum with the error on the left. A panic is the outer \<open>None\<close> of an
  option; state after it is not modelled. A Rust integer is a word of its width, lengths and
  indices of buffers are \<open>nat\<close> and stay below the capacities proved. Logging is left out, and so
  are sleeps. \<open>async\<close> code is run to its end: what the environment does at each await (the answer
  of the channel, the events that became ready on the socket, the answers to requests) is an
  argument, quantified in the theorems. \<open>Rc<RefCell<DepthPool>>\<close> is the field of the one stream
  that writes it, as \<open>Exchange::new\<close> builds it; the reader's releases are steps of the relations
  \<open>stream_step\<close> and \<open>exchange_step\<close>. \<open>DepthDriver::new\<close> shares one pool between the exchanges instead:
  in \<open>Driver_Shared\<close> the pool is a part of the driver's state, lent to an exchange for each call.

  \<^bold>\<open>Loops and fuel.\<close> \<open>str_replace\<close> ends because what is left to scan shrinks.
  \<open>traverse_loop\<close> and \<open>join_streams\<close> may run for ever: they are partial functions
  whose value \<open>None\<close> is not returning, and C18 and C37 say when they return and when not. The
  two loops that drain \<open>websocket_depth_buffer\<close> take its length as fuel, which is enough because
  a poll never fills that buffer (lemma \<open>drain_loop_empty\<close> and C24). The retry loop terminates by
  its counter. Everything else is structural recursion.

  \<^bold>\<open>What the theorems show.\<close> The values of the channel come out in order and none is lost, ids are
  unique, no wakeup is lost of the future that registered last on its handle, and tasks that have one
  future each end with everything delivered. A second future in flight on the same handle replaces
  the waker of the first, which then sleeps for ever. The order book is not: it cannot be built, a level cannot be
  made illiquid, updates add prices instead of quantities and the pointer never moves. The
  stream loses no slot and its pool is large enough, but what it puts into
  \<open>depth_update_buffer\<close>, every snapshot and every message of exchange 2, is never sent, the end
  of a websocket is not noticed, and failed snapshot retries are reported as success.

  \<^bold>\<open>Around the core.\<close> The driver's pool is large enough for its channel and all buffers, no two
  exchanges ever own the same slot, and no streaming task can stop another one or touch its slots,
  whatever the schedule; but \<open>run_streams\<close> never returns while one socket stays quiet or has ended. The build
  script is idempotent but ignores the number of exchanges it checks. The quoter server's main
  closes every socket before it subscribes, so that no subscription is sent, its websocket task never ends well, and its process
  returns exactly when all four threads end, however they interleave. The market
  maker prints what the server broadcasts, in order, up to the first lag, and otherwise waits for more. The generator's balanced
  books lie exactly on the grid of hundredths; the exchange stub serves every depth as a bid, and a
  snapshot with two levels of forty exchanges.

  \<^bold>\<open>Not modelled.\<close> The gRPC transport and the wire encoding of messages, which tonic and prost
  provide, the tests that need timers, sockets, \<open>select\<close> or threads, and the two traits of \<open>testing/testing-traits\<close>, which have no
  implementation outside tests. Calls that do not match what they call (\<open>Exchange::new\<close> and the pool
  in \<open>DepthDriver::new\<close>, the order book and its methods in the quoter server's main) are
  arguments. Wall-clock time, the pinning of threads, and the scheduling of tasks beyond the order
  of their steps are not modelled either; a call that awaits several times (a snapshot) is one step
  of the relations on exchanges, so the reader's releases fall between calls.
\<close>

end
